(* ===== verification/Combee_Prelude.thy ===== *)
theory Combee_Prelude
  imports Main "HOL-Library.AList" "HOL-Library.Word" "HOL-Library.Char_ord"
    "HOL-Library.List_Lexorder" "HOL-Library.Product_Lexorder" "HOL-Library.Option_ord"
    "HOL-Library.Sublist"
begin

text \<open>
  Shared vocabulary of the development: the Rust standard-library notions the crates use.
  Rust strings are byte lists (UTF-8, a \<open>char\<close> of HOL is one byte), signed 64-bit integers are
  \<open>int\<close> with the wrap-around written out, hash maps are association lists, results are sums
  whose left side is the error. The lemmas collected here carry the component proofs.
\<close>

named_theorems i64_simps
named_theorems alist_simps

section \<open>Types\<close>

text \<open>A UUID is 128 bits; \<open>Uuid\<close>'s derived order is the numeric order of these bits.\<close>

type_synonym uuid = "128 word"
type_synonym str = string
type_synonym ('k, 'v) hashmap = "('k \<times> 'v) list"

section \<open>Signed and unsigned 64-bit arithmetic\<close>

definition i64_max :: int where
  "i64_max = 2 ^ 63 - 1"

definition i64_min :: int where
  "i64_min = - (2 ^ 63)"

definition u64_max :: nat where
  "u64_max = 2 ^ 64 - 1"

definition in_i64 :: "int \<Rightarrow> bool" where
  "in_i64 x \<longleftrightarrow> i64_min \<le> x \<and> x \<le> i64_max"

text \<open>Two's complement wrap-around, as a release build computes \<open>+\<close>, \<open>-\<close>, \<open>*\<close> and \<open>as i64\<close>.\<close>

definition wrap_i64 :: "int \<Rightarrow> int" where
  "wrap_i64 x = (x + 2 ^ 63) mod 2 ^ 64 - 2 ^ 63"

definition wrap_u64 :: "int \<Rightarrow> nat" where
  "wrap_u64 x = nat (x mod 2 ^ 64)"

definition checked_add_i64 :: "int \<Rightarrow> int \<Rightarrow> int option" where
  "checked_add_i64 x y = (if in_i64 (x + y) then Some (x + y) else None)"

definition saturating_add_i64 :: "int \<Rightarrow> int \<Rightarrow> int" where
  "saturating_add_i64 x y = max i64_min (min i64_max (x + y))"

definition saturating_add_u64 :: "nat \<Rightarrow> nat \<Rightarrow> nat" where
  "saturating_add_u64 x y = min u64_max (x + y)"

lemmas i64_defs = i64_max_def i64_min_def in_i64_def wrap_i64_def

lemma wrap_i64_in_range [i64_simps, simp]: "in_i64 (wrap_i64 x)"
proof -
  have "0 \<le> (x + 2 ^ 63) mod 2 ^ 64" "(x + 2 ^ 63) mod 2 ^ 64 < (2 ^ 64 :: int)"
    by (auto intro: pos_mod_sign pos_mod_bound)
  then show ?thesis
    by (simp add: i64_defs)
qed

lemma wrap_i64_id [i64_simps]: "in_i64 x \<Longrightarrow> wrap_i64 x = x"
  by (simp add: i64_defs)

lemma wrap_i64_idem [simp]: "wrap_i64 (wrap_i64 x) = wrap_i64 x"
  by (rule wrap_i64_id) simp

lemma wrap_u64_le: "wrap_u64 x \<le> u64_max"
proof -
  have "x mod 2 ^ 64 < (2 ^ 64 :: int)"
    by (rule pos_mod_bound) simp
  then have "nat (x mod 2 ^ 64) < 2 ^ 64"
    by (simp add: nat_less_iff)
  then show ?thesis
    by (simp add: wrap_u64_def u64_max_def)
qed

lemma wrap_u64_id: "n \<le> u64_max \<Longrightarrow> wrap_u64 (int n) = n"
  by (simp add: wrap_u64_def u64_max_def)

lemma checked_add_i64_Some [i64_simps]:
  "checked_add_i64 x y = Some z \<longleftrightarrow> z = x + y \<and> in_i64 (x + y)"
  by (auto simp: checked_add_i64_def)

lemma checked_add_i64_None [i64_simps]:
  "checked_add_i64 x y = None \<longleftrightarrow> \<not> in_i64 (x + y)"
  by (simp add: checked_add_i64_def)

lemma saturating_add_i64_in_range [i64_simps, simp]: "in_i64 (saturating_add_i64 x y)"
  by (simp add: saturating_add_i64_def in_i64_def i64_max_def i64_min_def)

lemma saturating_add_i64_exact [i64_simps]:
  "in_i64 (x + y) \<Longrightarrow> saturating_add_i64 x y = x + y"
  by (simp add: saturating_add_i64_def in_i64_def)

section \<open>Results\<close>

text \<open>\<open>Result::and_then\<close> and the \<open>?\<close> operator.\<close>

primrec rbind :: "'e + 'a \<Rightarrow> ('a \<Rightarrow> 'e + 'b) \<Rightarrow> 'e + 'b" where
  "rbind (Inl e) f = Inl e"
| "rbind (Inr x) f = f x"

definition ok_or :: "'e \<Rightarrow> 'a option \<Rightarrow> 'e + 'a" where
  "ok_or e x = (case x of None \<Rightarrow> Inl e | Some y \<Rightarrow> Inr y)"

primrec is_ok :: "'e + 'a \<Rightarrow> bool" where
  "is_ok (Inl e) = False"
| "is_ok (Inr x) = True"

lemma ok_or_simps [simp]: "ok_or e None = Inl e" "ok_or e (Some y) = Inr y"
  by (simp_all add: ok_or_def)

lemma rbind_Inr_iff: "rbind r f = Inr y \<longleftrightarrow> (\<exists>x. r = Inr x \<and> f x = Inr y)"
  by (cases r) auto

lemma is_ok_iff: "is_ok r \<longleftrightarrow> (\<exists>x. r = Inr x)"
  by (cases r) auto

section \<open>Decimal printing and parsing\<close>

definition is_digit :: "char \<Rightarrow> bool" where
  "is_digit c \<longleftrightarrow> 48 \<le> (of_char c :: nat) \<and> (of_char c :: nat) \<le> 57"

definition digit_val :: "char \<Rightarrow> nat" where
  "digit_val c = of_char c - 48"

definition digit_char :: "nat \<Rightarrow> char" where
  "digit_char d = char_of (48 + d)"

text \<open>\<open>u64::to_string\<close> and \<open>i64::to_string\<close>.\<close>

fun show_nat :: "nat \<Rightarrow> str" where
  "show_nat n = (if n < 10 then [digit_char n] else show_nat (n div 10) @ [digit_char (n mod 10)])"

declare show_nat.simps [simp del]

definition show_int :: "int \<Rightarrow> str" where
  "show_int n = (if n < 0 then CHR ''-'' # show_nat (nat (- n)) else show_nat (nat n))"

fun parse_digits :: "nat \<Rightarrow> str \<Rightarrow> nat option" where
  "parse_digits acc [] = Some acc"
| "parse_digits acc (c # cs) =
    (if is_digit c then parse_digits (10 * acc + digit_val c) cs else None)"

text \<open>\<open>str::parse::<i64>\<close>: an optional sign, at least one digit, no overflow.\<close>

definition parse_i64 :: "str \<Rightarrow> int option" where
  "parse_i64 s =
    (let (neg, ds) = (case s of
        c # cs \<Rightarrow> (if c = CHR ''-'' then (True, cs) else if c = CHR ''+'' then (False, cs) else (False, s))
      | [] \<Rightarrow> (False, s))
     in if ds = [] then None
        else (case parse_digits 0 ds of
            None \<Rightarrow> None
          | Some n \<Rightarrow> (let v = (if neg then - int n else int n) in if in_i64 v then Some v else None)))"

lemma of_char_digit_char: "d < 10 \<Longrightarrow> (of_char (digit_char d) :: nat) = 48 + d"
  by (simp add: digit_char_def of_char_of take_bit_eq_mod)

lemma digit_char_simps [simp]:
  "d < 10 \<Longrightarrow> is_digit (digit_char d)"
  "d < 10 \<Longrightarrow> digit_val (digit_char d) = d"
  by (simp_all add: is_digit_def digit_val_def of_char_digit_char)

lemma digit_char_literals [simp]:
  "digit_char 0 = CHR ''0''" "digit_char (Suc 0) = CHR ''1''" "digit_char 1 = CHR ''1''"
  "digit_char 2 = CHR ''2''"
  "digit_char 3 = CHR ''3''" "digit_char 4 = CHR ''4''" "digit_char 5 = CHR ''5''"
  "digit_char 6 = CHR ''6''" "digit_char 7 = CHR ''7''" "digit_char 8 = CHR ''8''"
  "digit_char 9 = CHR ''9''"
  by (simp_all add: digit_char_def char_of_eq_iff)

lemma parse_digits_append:
  "parse_digits acc (xs @ ys) = Option.bind (parse_digits acc xs) (\<lambda>a. parse_digits a ys)"
  by (induction acc xs rule: parse_digits.induct) auto

lemma show_nat_nonempty [simp]: "show_nat n \<noteq> []"
  by (subst show_nat.simps) simp

lemma parse_digits_show_nat: "parse_digits 0 (show_nat n) = Some n"
proof (induction n rule: show_nat.induct)
  case (1 n)
  then show ?case
    by (subst show_nat.simps) (simp add: parse_digits_append)
qed

lemma show_nat_digits: "c \<in> set (show_nat n) \<Longrightarrow> is_digit c"
proof (induction n rule: show_nat.induct)
  case (1 n)
  from 1(2) show ?case
    by (subst (asm) show_nat.simps) (auto split: if_splits intro: 1(1))
qed

lemma show_nat_not_sign: "show_nat n = c # cs \<Longrightarrow> c \<noteq> CHR ''-'' \<and> c \<noteq> CHR ''+''"
  using show_nat_digits [of c n] by (auto simp: is_digit_def)

lemma parse_i64_show_int [simp]: "in_i64 n \<Longrightarrow> parse_i64 (show_int n) = Some n"
proof (cases "n < 0")
  case True
  assume "in_i64 n"
  with True show ?thesis
    by (simp add: parse_i64_def show_int_def parse_digits_show_nat)
next
  case False
  assume r: "in_i64 n"
  obtain c cs where cs: "show_nat (nat n) = c # cs"
    by (cases "show_nat (nat n)") auto
  with False r show_nat_not_sign [OF cs] parse_digits_show_nat [of "nat n"] show ?thesis
    by (simp add: parse_i64_def show_int_def)
qed

lemma parse_i64_in_range: "parse_i64 s = Some n \<Longrightarrow> in_i64 n"
  by (auto simp: parse_i64_def Let_def split: if_splits option.splits prod.splits)

lemma show_nat_inj: "show_nat m = show_nat n \<Longrightarrow> m = n"
  by (metis parse_digits_show_nat option.inject)

lemma show_int_inj: "in_i64 m \<Longrightarrow> in_i64 n \<Longrightarrow> show_int m = show_int n \<Longrightarrow> m = n"
  by (metis parse_i64_show_int option.inject)

section \<open>Strings\<close>

definition ascii_lower :: "char \<Rightarrow> char" where
  "ascii_lower c = (let n = of_char c :: nat in if 65 \<le> n \<and> n \<le> 90 then char_of (n + 32) else c)"

definition ascii_upper :: "char \<Rightarrow> char" where
  "ascii_upper c = (let n = of_char c :: nat in if 97 \<le> n \<and> n \<le> 122 then char_of (n - 32) else c)"

definition to_ascii_lowercase :: "str \<Rightarrow> str" where
  "to_ascii_lowercase = map ascii_lower"

definition to_ascii_uppercase :: "str \<Rightarrow> str" where
  "to_ascii_uppercase = map ascii_upper"

definition starts_with :: "str \<Rightarrow> str \<Rightarrow> bool" where
  "starts_with s p \<longleftrightarrow> take (length p) s = p"

lemma starts_with_append [simp]: "starts_with (p @ s) p"
  by (simp add: starts_with_def)

lemma starts_with_iff: "starts_with s p \<longleftrightarrow> (\<exists>t. s = p @ t)"
  by (metis append_take_drop_id append_eq_conv_conj starts_with_def)

text \<open>
  The byte length of the Unicode white-space character a UTF-8 string starts with, 0 if it does
  not start with one: the \<open>White_Space\<close> property \<open>str::trim\<close> and \<open>split_whitespace\<close> test.
\<close>

fun ws_len :: "nat list \<Rightarrow> nat" where
  "ws_len [] = 0"
| "ws_len (a # bs) =
    (if (9 \<le> a \<and> a \<le> 13) \<or> a = 32 then 1
     else if a = 194 then (case bs of b # _ \<Rightarrow> if b = 133 \<or> b = 160 then 2 else 0 | [] \<Rightarrow> 0)
     else (case bs of
         b # c # _ \<Rightarrow>
           (if a = 225 \<and> b = 154 \<and> c = 128
             \<or> a = 226 \<and> b = 128 \<and> (128 \<le> c \<and> c \<le> 138 \<or> c = 168 \<or> c = 169 \<or> c = 175)
             \<or> a = 226 \<and> b = 129 \<and> c = 159
             \<or> a = 227 \<and> b = 128 \<and> c = 128 then 3 else 0)
       | _ \<Rightarrow> 0))"

definition lead_ws :: "str \<Rightarrow> nat" where
  "lead_ws s = ws_len (map of_char (take 3 s))"

text \<open>The white-space character a string ends with, read from its last one to three bytes.\<close>

definition trail_ws :: "str \<Rightarrow> nat" where
  "trail_ws s =
    (let suffix = (\<lambda>k. drop (length s - k) s)
     in if 1 \<le> length s \<and> lead_ws (suffix 1) = 1 then 1
        else if 2 \<le> length s \<and> lead_ws (suffix 2) = 2 then 2
        else if 3 \<le> length s \<and> lead_ws (suffix 3) = 3 then 3 else 0)"

lemma ws_len_le: "ws_len s \<le> length s"
  by (cases s rule: ws_len.cases) (auto split: list.splits)

lemma lead_ws_le: "lead_ws s \<le> length s"
  using ws_len_le [of "map of_char (take 3 s)"] by (simp add: lead_ws_def)

function trim_start :: "str \<Rightarrow> str" where
  "trim_start s = (if lead_ws s = 0 then s else trim_start (drop (lead_ws s) s))"
  by pat_completeness auto
termination
proof (relation "measure length", simp)
  fix s :: str
  assume "lead_ws s \<noteq> 0"
  with lead_ws_le [of s] show "(drop (lead_ws s) s, s) \<in> measure length"
    by auto
qed

function trim_end :: "str \<Rightarrow> str" where
  "trim_end s = (if trail_ws s = 0 then s else trim_end (take (length s - trail_ws s) s))"
  by pat_completeness auto
termination
  by (relation "measure length") (auto simp: trail_ws_def Let_def split: if_splits)

declare trim_start.simps [simp del] trim_end.simps [simp del]

definition trim :: "str \<Rightarrow> str" where
  "trim s = trim_end (trim_start s)"

text \<open>\<open>str::split(c)\<close>: the pieces between the separators, empty pieces included.\<close>

fun split_on :: "char \<Rightarrow> str \<Rightarrow> str list" where
  "split_on d [] = [[]]"
| "split_on d (c # cs) =
    (if c = d then [] # split_on d cs
     else (case split_on d cs of p # ps \<Rightarrow> (c # p) # ps | [] \<Rightarrow> [[c]]))"

lemma split_on_nonempty [simp]: "split_on d s \<noteq> []"
  by (induction d s rule: split_on.induct) (auto split: list.splits)

section \<open>Hash maps as association lists\<close>

lemma map_of_update [alist_simps, simp]:
  "map_of (AList.update k v m) = (map_of m)(k \<mapsto> v)"
  by (rule update_conv')

lemma map_of_delete [alist_simps, simp]:
  "map_of (AList.delete k m) = (map_of m)(k := None)"
  by (rule delete_conv')

lemma keys_update [alist_simps, simp]:
  "fst ` set (AList.update k v m) = insert k (fst ` set m)"
  by (induction m) auto

lemma keys_delete [alist_simps, simp]:
  "fst ` set (AList.delete k m) = fst ` set m - {k}"
  by (induction m) (auto simp: AList.delete_eq)

lemma map_of_eq_None_keys [alist_simps]: "map_of m k = None \<longleftrightarrow> k \<notin> fst ` set m"
  by (simp add: map_of_eq_None_iff)

lemma distinct_keys_update [alist_simps, intro]:
  "distinct (map fst m) \<Longrightarrow> distinct (map fst (AList.update k v m))"
  by (rule distinct_update)

lemma distinct_keys_delete [alist_simps, intro]:
  "distinct (map fst m) \<Longrightarrow> distinct (map fst (AList.delete k m))"
  by (rule distinct_delete)

text \<open>\<open>HashMap::retain\<close>.\<close>

definition retain :: "('k \<Rightarrow> 'v \<Rightarrow> bool) \<Rightarrow> ('k, 'v) hashmap \<Rightarrow> ('k, 'v) hashmap" where
  "retain P m = filter (\<lambda>(k, v). P k v) m"

lemma map_of_retain:
  assumes "distinct (map fst m)"
  shows "map_of (retain P m) k =
    (case map_of m k of Some v \<Rightarrow> if P k v then Some v else None | None \<Rightarrow> None)"
  using assms
  by (induction m) (auto simp: retain_def map_of_eq_None_iff rev_image_eqI split: option.splits)

lemma distinct_retain: "distinct (map fst m) \<Longrightarrow> distinct (map fst (retain P m))"
  unfolding retain_def by (rule distinct_map_filter)

lemma update_fresh_key: "map_of m k = None \<Longrightarrow> AList.update k v m = m @ [(k, v)]"
  by (induction m) (auto split: if_splits)

lemma map_of_map_values: "map_of (map (\<lambda>(k, v). (k, f v)) m) k = map_option f (map_of m k)"
  by (induction m) auto

lemma update_last_key: "map_of m k = None \<Longrightarrow> AList.update k v' (m @ [(k, v)]) = m @ [(k, v')]"
  by (induction m) (auto split: if_splits)

end
