(* ===== verification/Common_Types.thy ===== *)
theory Common_Types
  imports Combee_Prelude
begin

text \<open>
  The crate \<open>common\<close>: the error type and its transport over the internal RPC
  (\<open>errors.rs\<close>, \<open>rpc.rs\<close>), the API key format (\<open>api_key.rs\<close>), the usage metrics and minute
  buckets (\<open>usage.rs\<close>), the credit, voucher and pricing types with the rating function
  (\<open>credit.rs\<close>), and the request and response structures (\<open>protocol.rs\<close>). The UUID crate's
  printing and parsing are arguments \<open>show_uuid\<close> and \<open>parse_uuid\<close>; SHA-256 is the argument
  \<open>sha256\<close>; a freshly drawn identifier is an argument.
\<close>

section \<open>Identifiers\<close>

datatype database_id = DatabaseId (db_uuid: uuid)
datatype tenant_id = TenantId (tenant_uuid: uuid)
datatype node_id = NodeId (node_uuid: uuid)

text \<open>\<open>Ord\<close> on \<open>DatabaseId\<close> is derived from the wrapped UUID.\<close>

instantiation database_id :: linorder
begin

definition less_eq_database_id :: "database_id \<Rightarrow> database_id \<Rightarrow> bool" where
  "less_eq_database_id a b \<longleftrightarrow> db_uuid a \<le> db_uuid b"

definition less_database_id :: "database_id \<Rightarrow> database_id \<Rightarrow> bool" where
  "less_database_id a b \<longleftrightarrow> db_uuid a < db_uuid b"

instance
  by standard
    (auto simp: less_eq_database_id_def less_database_id_def database_id.expand)

end

section \<open>Errors\<close>

datatype combee_error =
    DatabaseNotFound database_id
  | DatabaseAlreadyExists database_id
  | CellAlreadyExists str
  | InvalidCellName str
  | CellNameConflict str
  | CellResetFailed str
  | ApiKeyNotFound
  | Unauthorized
  | InvalidRequest str
  | Forbidden str
  | QuotaExceeded str
  | Sql str
  | Internal str

type_synonym 'a result = "combee_error + 'a"

fun kind :: "combee_error \<Rightarrow> str" where
  "kind (DatabaseNotFound _) = ''database_not_found''"
| "kind (DatabaseAlreadyExists _) = ''database_already_exists''"
| "kind (CellAlreadyExists _) = ''cell_already_exists''"
| "kind (InvalidCellName _) = ''invalid_cell_name''"
| "kind (CellNameConflict _) = ''cell_name_conflict''"
| "kind (CellResetFailed _) = ''cell_reset_failed''"
| "kind Unauthorized = ''unauthorized''"
| "kind ApiKeyNotFound = ''api_key_not_found''"
| "kind (InvalidRequest _) = ''invalid_request''"
| "kind (Forbidden _) = ''forbidden''"
| "kind (QuotaExceeded _) = ''quota_exceeded''"
| "kind (Sql _) = ''sql''"
| "kind (Internal _) = ''internal''"

text \<open>The \<open>Display\<close> implementation derived from the \<open>#[error(...)]\<close> attributes.\<close>

fun error_to_string :: "(uuid \<Rightarrow> str) \<Rightarrow> combee_error \<Rightarrow> str" where
  "error_to_string sh (DatabaseNotFound i) = ''database not found: '' @ sh (db_uuid i)"
| "error_to_string sh (DatabaseAlreadyExists i) = ''database already exists: '' @ sh (db_uuid i)"
| "error_to_string sh (CellAlreadyExists m) = ''cell name already exists: '' @ m"
| "error_to_string sh (InvalidCellName m) = ''invalid cell name: '' @ m"
| "error_to_string sh (CellNameConflict m) = ''cell name conflict: '' @ m"
| "error_to_string sh (CellResetFailed m) = ''cell reset failed: '' @ m"
| "error_to_string sh ApiKeyNotFound = ''api key not found or already revoked''"
| "error_to_string sh Unauthorized = ''unauthorized''"
| "error_to_string sh (InvalidRequest m) = ''invalid request: '' @ m"
| "error_to_string sh (Forbidden m) = ''forbidden: '' @ m"
| "error_to_string sh (QuotaExceeded m) = ''quota exceeded: '' @ m"
| "error_to_string sh (Sql m) = ''sql error: '' @ m"
| "error_to_string sh (Internal m) = ''internal error: '' @ m"

text \<open>\<open>str::split_whitespace\<close>.\<close>

fun take_word :: "str \<Rightarrow> str \<times> str" where
  "take_word [] = ([], [])"
| "take_word (c # cs) =
    (if lead_ws (c # cs) \<noteq> 0 then ([], c # cs)
     else (case take_word cs of (w, r) \<Rightarrow> (c # w, r)))"

lemma take_word_length: "length (snd (take_word s)) \<le> length s"
  by (induction s rule: take_word.induct) (auto split: prod.splits)

lemma trim_start_length: "length (trim_start s) \<le> length s"
proof (induction s rule: trim_start.induct)
  case (1 s)
  show ?case
  proof (cases "lead_ws s = 0")
    case True
    then show ?thesis
      by (subst trim_start.simps) simp
  next
    case False
    from 1 [OF False] have "length (trim_start (drop (lead_ws s) s)) \<le> length s"
      by simp
    with False show ?thesis
      by (subst trim_start.simps) simp
  qed
qed

lemma lead_ws_trim_start [simp]: "lead_ws (trim_start s) = 0"
proof (induction s rule: trim_start.induct)
  case (1 s)
  then show ?case
    by (subst trim_start.simps) auto
qed

function split_whitespace :: "str \<Rightarrow> str list" where
  "split_whitespace s =
    (let t = trim_start s
     in if t = [] then [] else fst (take_word t) # split_whitespace (snd (take_word t)))"
  by pat_completeness auto
termination
proof (relation "measure length", simp)
  fix s t :: str
  assume t: "t = trim_start s" "t \<noteq> []"
  obtain c cs where cs: "t = c # cs"
    using t(2) by (cases t) auto
  have "lead_ws (c # cs) = 0"
    using t(1) cs lead_ws_trim_start [of s] by simp
  then have "length (snd (take_word t)) < length t"
    using take_word_length [of cs] cs by (auto split: prod.splits)
  with trim_start_length [of s] t show "(snd (take_word t), s) \<in> measure length"
    by simp
qed

declare split_whitespace.simps [simp del]

definition tail_id :: "(str \<Rightarrow> uuid option) \<Rightarrow> str \<Rightarrow> database_id option" where
  "tail_id parse_uuid message =
    (case split_whitespace message of
       [] \<Rightarrow> None
     | w # ws \<Rightarrow> map_option DatabaseId (parse_uuid (last (w # ws))))"

text \<open>\<open>fresh\<close> is the identifier \<open>DatabaseId::new\<close> draws when the message has none.\<close>

definition from_kind :: "(str \<Rightarrow> uuid option) \<Rightarrow> uuid \<Rightarrow> str \<Rightarrow> str \<Rightarrow> combee_error" where
  "from_kind parse_uuid fresh k message =
    (let unwrap = (\<lambda>x. case x of Some i \<Rightarrow> i | None \<Rightarrow> DatabaseId fresh)
     in if k = ''database_not_found'' then DatabaseNotFound (unwrap (tail_id parse_uuid message))
     else if k = ''database_already_exists'' then DatabaseAlreadyExists (unwrap (tail_id parse_uuid message))
     else if k = ''unauthorized'' then Unauthorized
     else if k = ''api_key_not_found'' then ApiKeyNotFound
     else if k = ''invalid_request'' then InvalidRequest message
     else if k = ''forbidden'' then Forbidden message
     else if k = ''quota_exceeded'' then QuotaExceeded message
     else if k = ''sql'' then Sql message
     else Internal message)"

section \<open>The RPC response envelope\<close>

datatype 'a rpc_response = RpcOk 'a | RpcErr (rpc_kind: str) (rpc_message: str)

fun from_result :: "(uuid \<Rightarrow> str) \<Rightarrow> 'a result \<Rightarrow> 'a rpc_response" where
  "from_result sh (Inr x) = RpcOk x"
| "from_result sh (Inl e) = RpcErr (kind e) (error_to_string sh e)"

fun into_result :: "(str \<Rightarrow> uuid option) \<Rightarrow> uuid \<Rightarrow> 'a rpc_response \<Rightarrow> 'a result" where
  "into_result p fresh (RpcOk x) = Inr x"
| "into_result p fresh (RpcErr k m) = Inl (from_kind p fresh k m)"

definition rpc_transport :: "(uuid \<Rightarrow> str) \<Rightarrow> (str \<Rightarrow> uuid option) \<Rightarrow> uuid \<Rightarrow> 'a result \<Rightarrow> 'a result" where
  "rpc_transport sh p fresh r = into_result p fresh (from_result sh r)"

text \<open>The kinds \<open>from_kind\<close> has no branch for: they come back as \<open>Internal\<close>.\<close>

fun kind_restored :: "combee_error \<Rightarrow> bool" where
  "kind_restored (CellAlreadyExists _) = False"
| "kind_restored (InvalidCellName _) = False"
| "kind_restored (CellNameConflict _) = False"
| "kind_restored (CellResetFailed _) = False"
| "kind_restored _ = True"

text \<open>
  What the UUID crate documents: the hyphenated form is printable ASCII without white space, is
  not empty, and parses back.
\<close>

definition uuid_text :: "(uuid \<Rightarrow> str) \<Rightarrow> (str \<Rightarrow> uuid option) \<Rightarrow> bool" where
  "uuid_text sh p \<longleftrightarrow>
    (\<forall>u. sh u \<noteq> [] \<and> (\<forall>c \<in> set (sh u). 33 \<le> (of_char c :: nat) \<and> (of_char c :: nat) < 127)
      \<and> p (sh u) = Some u)"

lemma lead_ws_printable:
  assumes "33 \<le> (of_char c :: nat)" "(of_char c :: nat) < 127"
  shows "lead_ws (c # cs) = 0"
  using assms by (cases "take 2 cs") (auto simp: lead_ws_def split: list.splits)

lemma lead_ws_space [simp]: "lead_ws (CHR '' '' # cs) = 1"
  by (simp add: lead_ws_def)

lemma trim_start_printable:
  assumes "33 \<le> (of_char c :: nat)" "(of_char c :: nat) < 127"
  shows "trim_start (c # cs) = c # cs"
  by (subst trim_start.simps) (simp add: lead_ws_printable [OF assms])

lemma trim_start_Nil [simp]: "trim_start [] = []"
  by (subst trim_start.simps) (simp add: lead_ws_def)

lemma trim_start_space [simp]: "trim_start (CHR '' '' # cs) = trim_start cs"
  by (subst trim_start.simps) simp

lemma take_word_printable:
  assumes "\<forall>c \<in> set w. 33 \<le> (of_char c :: nat) \<and> (of_char c :: nat) < 127"
  shows "take_word w = (w, [])"
    and "take_word (w @ CHR '' '' # r) = (w, CHR '' '' # r)"
  using assms by (induction w) (auto simp: lead_ws_printable)

lemma split_whitespace_word:
  assumes "w \<noteq> []" "\<forall>c \<in> set w. 33 \<le> (of_char c :: nat) \<and> (of_char c :: nat) < 127"
  shows "split_whitespace w = [w]"
    and "split_whitespace (w @ CHR '' '' # r) = w # split_whitespace r"
proof -
  obtain c cs where w: "w = c # cs"
    using assms(1) by (cases w) auto
  have ts: "trim_start w = w" "trim_start (w @ CHR '' '' # r) = w @ CHR '' '' # r"
    using assms(2) by (auto simp: w trim_start_printable)
  have nil: "split_whitespace [] = []"
    by (subst split_whitespace.simps) simp
  show "split_whitespace w = [w]"
    using assms(1) ts take_word_printable [OF assms(2)]
    by (subst split_whitespace.simps) (simp add: nil)
  have "split_whitespace (CHR '' '' # r) = split_whitespace r"
    using split_whitespace.simps [of "CHR '' '' # r"] split_whitespace.simps [of r] by simp
  then show "split_whitespace (w @ CHR '' '' # r) = w # split_whitespace r"
    using assms(1) ts take_word_printable [OF assms(2)]
    by (subst split_whitespace.simps) simp
qed

lemma tail_id_prefixed:
  assumes "uuid_text sh p"
  shows "tail_id p (''database not found: '' @ sh u) = Some (DatabaseId u)"
    and "tail_id p (''database already exists: '' @ sh u) = Some (DatabaseId u)"
proof -
  have u: "sh u \<noteq> []"
      "\<forall>c \<in> set (sh u). 33 \<le> (of_char c :: nat) \<and> (of_char c :: nat) < 127"
      "p (sh u) = Some u"
    using assms by (auto simp: uuid_text_def)
  have words: "split_whitespace (''database not found: '' @ sh u)
      = [''database'', ''not'', ''found:'', sh u]"
    using split_whitespace_word(2) [of "''database''" "''not found: '' @ sh u"]
      split_whitespace_word(2) [of "''not''" "''found: '' @ sh u"]
      split_whitespace_word(2) [of "''found:''" "sh u"] split_whitespace_word(1) [OF u(1,2)]
    by simp
  then show "tail_id p (''database not found: '' @ sh u) = Some (DatabaseId u)"
    by (simp add: tail_id_def u(3))
  have "split_whitespace (''database already exists: '' @ sh u)
      = [''database'', ''already'', ''exists:'', sh u]"
    using split_whitespace_word(2) [of "''database''" "''already exists: '' @ sh u"]
      split_whitespace_word(2) [of "''already''" "''exists: '' @ sh u"]
      split_whitespace_word(2) [of "''exists:''" "sh u"] split_whitespace_word(1) [OF u(1,2)]
    by simp
  then show "tail_id p (''database already exists: '' @ sh u) = Some (DatabaseId u)"
    by (simp add: tail_id_def u(3))
qed

text \<open>An RPC reply carries a result faithfully: a success is unchanged, an error keeps its
  kind exactly when \<open>from_kind\<close> has a branch for it (the four cell-name errors come back as
  \<open>internal\<close>), and the errors that carry a database identifier come back with that identifier.\<close>

theorem rpc_transport_restores:
  assumes "uuid_text sh p"
  shows "rpc_transport sh p fresh (Inr x :: 'a result) = Inr x
    \<and> (\<exists>e'. rpc_transport sh p fresh (Inl e :: 'a result) = Inl e'
        \<and> kind e' = (if kind_restored e then kind e else ''internal'')
        \<and> (e = DatabaseNotFound i \<or> e = DatabaseAlreadyExists i \<longrightarrow> e' = e))"
  by (cases e)
    (simp_all add: rpc_transport_def from_kind_def database_id.expand
      tail_id_prefixed [OF assms, simplified])

definition uuid_dec :: "uuid \<Rightarrow> str" where
  "uuid_dec u = show_nat (unat u)"

definition uuid_undec :: "str \<Rightarrow> uuid option" where
  "uuid_undec s = map_option of_nat (parse_digits 0 s)"

lemma uuid_text_dec: "uuid_text uuid_dec uuid_undec"
  unfolding uuid_text_def uuid_dec_def uuid_undec_def
  using show_nat_digits by (fastforce simp: parse_digits_show_nat is_digit_def)

theorem rpc_transport_restores_witness:
  "rpc_transport uuid_dec uuid_undec 0 (Inr 7 :: nat result) = Inr 7
    \<and> (\<exists>e'. rpc_transport uuid_dec uuid_undec 0 (Inl (DatabaseNotFound (DatabaseId 5)) :: nat result) = Inl e'
        \<and> kind e' = ''database_not_found'' \<and> e' = DatabaseNotFound (DatabaseId 5))"
  using rpc_transport_restores [OF uuid_text_dec, of 0 7 "DatabaseNotFound (DatabaseId 5)" "DatabaseId 5"]
  by simp

section \<open>API keys\<close>

definition KEY_PREFIX :: str where
  "KEY_PREFIX = ''cmb_sk_''"

definition hex_digit :: "nat \<Rightarrow> char" where
  "hex_digit d = (if d < 10 then char_of (48 + d) else char_of (87 + d))"

text \<open>\<open>format!("{b:02x}")\<close> over a digest's bytes.\<close>

definition hex_bytes :: "nat list \<Rightarrow> str" where
  "hex_bytes bs = concat (map (\<lambda>b. [hex_digit (b div 16), hex_digit (b mod 16)]) bs)"

text \<open>\<open>simple\<close> prints a UUID as 32 hexadecimal digits; the two UUIDs are freshly drawn.\<close>

definition generate :: "(uuid \<Rightarrow> str) \<Rightarrow> uuid \<Rightarrow> uuid \<Rightarrow> str" where
  "generate simple u1 u2 = KEY_PREFIX @ simple u1 @ simple u2"

definition hash :: "(str \<Rightarrow> nat list) \<Rightarrow> str \<Rightarrow> str" where
  "hash sha256 key = hex_bytes (sha256 key)"

definition is_valid_format :: "str \<Rightarrow> bool" where
  "is_valid_format key \<longleftrightarrow> starts_with key KEY_PREFIX \<and> length KEY_PREFIX + 32 \<le> length key"

record auth_context =
  ac_tenant_id :: tenant_id
  ac_internal :: bool

lemma length_hex_bytes [simp]: "length (hex_bytes bs) = 2 * length bs"
  by (induction bs) (auto simp: hex_bytes_def)

lemma of_char_hex_digit:
  "d < 16 \<Longrightarrow> (of_char (hex_digit d) :: nat) = (if d < 10 then 48 + d else 87 + d)"
  by (simp add: hex_digit_def of_char_of take_bit_eq_mod)

lemma hex_digit_inj:
  assumes "a < 16" "b < 16" "hex_digit a = hex_digit b"
  shows "a = b"
proof -
  have "(if a < 10 then 48 + a else 87 + a) = (if b < 10 then 48 + b else 87 + b)"
    by (metis assms of_char_hex_digit)
  with assms(1,2) show ?thesis
    by presburger
qed

lemma hex_bytes_Cons [simp]:
  "hex_bytes (b # bs) = hex_digit (b div 16) # hex_digit (b mod 16) # hex_bytes bs"
  by (simp add: hex_bytes_def)

lemma hex_bytes_Nil [simp]: "hex_bytes [] = []"
  by (simp add: hex_bytes_def)

lemma hex_bytes_inj:
  assumes "\<forall>b \<in> set xs. b < 256" "\<forall>b \<in> set ys. b < 256" "hex_bytes xs = hex_bytes ys"
  shows "xs = ys"
proof -
  have "length xs = length ys"
    using assms(3) length_hex_bytes by (metis nat_mult_eq_cancel1 zero_less_numeral)
  then show ?thesis
    using assms
  proof (induction xs ys rule: list_induct2)
    case Nil
    show ?case
      by (rule refl)
  next
    case (Cons x xs y ys)
    have lt: "x div 16 < 16" "y div 16 < 16"
      using Cons.prems(1,2) by (simp_all add: less_mult_imp_div_less)
    have "x div 16 = y div 16" "x mod 16 = y mod 16"
      using Cons.prems(3) lt by (simp_all add: hex_digit_inj)
    then have "x = y"
      by (metis div_mult_mod_eq)
    moreover have "xs = ys"
      using Cons.prems by (intro Cons.IH) simp_all
    ultimately show ?case
      by simp
  qed
qed

lemma generate_is_valid_format:
  assumes "\<And>u. length (simple u) = 32"
  shows "is_valid_format (generate simple u1 u2)"
  by (simp add: is_valid_format_def generate_def assms)

end
