(* ===== verification/Billing_Types.thy ===== *)
theory Billing_Types
  imports Common_Types
begin

text \<open>
  The usage and credit vocabulary of the crate \<open>common\<close>: the usage metrics, minute buckets and
  aggregation keys of \<open>usage.rs\<close>, the transaction, voucher and pricing types of \<open>credit.rs\<close>,
  the rating function, and voucher codes. The lemmas show the textual round trips, that a
  bucket holds its instant, and that rating is an exact floor, monotone, and loses at most one
  microcredit each time a quantity is split.
\<close>

section \<open>Usage metrics and buckets\<close>

datatype usage_metric =
    KvRead | KvWrite | SqlRead | SqlWrite | Requests | BytesIn | BytesOut
  | StorageBytes | StorageByteSecs

fun metric_as_str :: "usage_metric \<Rightarrow> str" where
  "metric_as_str KvRead = ''kv_read''"
| "metric_as_str KvWrite = ''kv_write''"
| "metric_as_str SqlRead = ''sql_read''"
| "metric_as_str SqlWrite = ''sql_write''"
| "metric_as_str Requests = ''requests''"
| "metric_as_str BytesIn = ''bytes_in''"
| "metric_as_str BytesOut = ''bytes_out''"
| "metric_as_str StorageBytes = ''storage_bytes''"
| "metric_as_str StorageByteSecs = ''storage_byte_secs''"

definition metric_parse :: "str \<Rightarrow> usage_metric option" where
  "metric_parse s =
    (if s = ''kv_read'' then Some KvRead
     else if s = ''kv_write'' then Some KvWrite
     else if s = ''sql_read'' then Some SqlRead
     else if s = ''sql_write'' then Some SqlWrite
     else if s = ''requests'' then Some Requests
     else if s = ''bytes_in'' then Some BytesIn
     else if s = ''bytes_out'' then Some BytesOut
     else if s = ''storage_bytes'' then Some StorageBytes
     else if s = ''storage_byte_secs'' then Some StorageByteSecs
     else None)"

definition BUCKET_SECS :: int where
  "BUCKET_SECS = 60"

text \<open>\<open>div_euclid\<close> by a positive divisor is HOL's \<open>div\<close>; the product may wrap at the lower end.\<close>

definition bucket_start :: "int \<Rightarrow> int" where
  "bucket_start unix_secs = wrap_i64 (unix_secs div BUCKET_SECS * BUCKET_SECS)"

record usage_key =
  uk_tenant_id :: tenant_id
  uk_cell_id :: "database_id option"
  uk_metric :: usage_metric
  uk_bucket_start :: int

record usage_bucket =
  ub_tenant_id :: tenant_id
  ub_cell_id :: "database_id option"
  ub_metric :: usage_metric
  ub_bucket_start :: int
  ub_value :: nat

lemma metric_parse_as_str [simp]: "metric_parse (metric_as_str m) = Some m"
  by (cases m) (simp_all add: metric_parse_def)

lemma metric_parse_SomeD: "metric_parse s = Some m \<Longrightarrow> s = metric_as_str m"
  unfolding metric_parse_def by (auto split: if_split_asm)

lemma metric_parse_Some_iff: "metric_parse s = Some m \<longleftrightarrow> s = metric_as_str m"
  using metric_parse_SomeD by auto

lemma bucket_start_bounds:
  assumes "0 \<le> t" "in_i64 t"
  shows "bucket_start t \<le> t" "t < bucket_start t + BUCKET_SECS" "bucket_start t mod BUCKET_SECS = 0"
    "0 \<le> bucket_start t"
proof -
  have "in_i64 (t div BUCKET_SECS * BUCKET_SECS)"
    using assms by (auto simp: in_i64_def i64_min_def i64_max_def BUCKET_SECS_def)
  then have eq: "bucket_start t = t div BUCKET_SECS * BUCKET_SECS"
    by (simp add: bucket_start_def wrap_i64_id)
  show "bucket_start t \<le> t" "t < bucket_start t + BUCKET_SECS" "bucket_start t mod BUCKET_SECS = 0"
      "0 \<le> bucket_start t"
    using assms(1) unfolding eq by (auto simp: BUCKET_SECS_def)
qed

lemma multiple_of_sixty_unique:
  fixes b c t :: int
  assumes "b mod 60 = 0" "b \<le> t" "t < b + 60" "c mod 60 = 0" "c \<le> t" "t < c + 60"
  shows "b = c"
proof -
  have "b = 60 * (b div 60)" "c = 60 * (c div 60)"
    using assms(1,4) by auto
  moreover have "t div 60 = b div 60" "t div 60 = c div 60"
    using assms calculation by (auto intro: int_div_pos_eq [of _ _ _ "t - b"] int_div_pos_eq [of _ _ _ "t - c"])
  ultimately show ?thesis
    by simp
qed

text \<open>the bucket of an instant between the epoch and the end of the \<open>i64\<close> range is the unique
  multiple of 60 seconds that starts the minute holding that instant.\<close>

theorem bucket_start_unique:
  assumes "0 \<le> t" "in_i64 t"
  shows "b = bucket_start t \<longleftrightarrow> b mod BUCKET_SECS = 0 \<and> b \<le> t \<and> t < b + BUCKET_SECS"
  using bucket_start_bounds [OF assms] multiple_of_sixty_unique [of b t "bucket_start t"]
  unfolding BUCKET_SECS_def by metis

theorem bucket_start_unique_witness:
  "119 = (119 :: int) \<and> (60 = bucket_start 119 \<longleftrightarrow> 60 mod BUCKET_SECS = 0 \<and> 60 \<le> (119::int) \<and> 119 < 60 + BUCKET_SECS)"
  using bucket_start_unique [of 119 60] by (simp add: in_i64_def i64_min_def i64_max_def)

section \<open>Credits, vouchers and pricing\<close>

definition CREDIT_UNITS_PER_CREDIT :: int where
  "CREDIT_UNITS_PER_CREDIT = 1000000"

definition BYTE_SECS_PER_GB_HOUR :: int where
  "BYTE_SECS_PER_GB_HOUR = 3600000000000"

definition DEFAULT_STORAGE_PRICE_UNITS_PER_GB_HOUR :: int where
  "DEFAULT_STORAGE_PRICE_UNITS_PER_GB_HOUR = 10000"

datatype credit_transaction_type = Recharge | Usage | Grant | Voucher | Refund | Adjustment

fun txn_type_as_str :: "credit_transaction_type \<Rightarrow> str" where
  "txn_type_as_str Recharge = ''recharge''"
| "txn_type_as_str Usage = ''usage''"
| "txn_type_as_str Grant = ''grant''"
| "txn_type_as_str Voucher = ''voucher''"
| "txn_type_as_str Refund = ''refund''"
| "txn_type_as_str Adjustment = ''adjustment''"

definition txn_type_parse :: "str \<Rightarrow> credit_transaction_type option" where
  "txn_type_parse s =
    (if s = ''recharge'' then Some Recharge
     else if s = ''usage'' then Some Usage
     else if s = ''grant'' then Some Grant
     else if s = ''voucher'' then Some Voucher
     else if s = ''refund'' then Some Refund
     else if s = ''adjustment'' then Some Adjustment
     else None)"

record credit_transaction =
  ct_id :: uuid
  ct_tenant_id :: tenant_id
  ct_txn_type :: credit_transaction_type
  ct_amount_units :: int
  ct_pricing_version :: "int option"
  ct_reference_id :: "str option"
  ct_description :: "str option"
  ct_created_at :: int
  ct_balance_after :: "int option"

record credit_account =
  ca_tenant_id :: tenant_id
  ca_balance_units :: int
  ca_reserved_units :: int
  ca_updated_at :: int

datatype voucher_status = VoucherActive | VoucherUsed | VoucherExpired | VoucherRevoked

fun voucher_status_as_str :: "voucher_status \<Rightarrow> str" where
  "voucher_status_as_str VoucherActive = ''active''"
| "voucher_status_as_str VoucherUsed = ''used''"
| "voucher_status_as_str VoucherExpired = ''expired''"
| "voucher_status_as_str VoucherRevoked = ''revoked''"

definition voucher_status_parse :: "str \<Rightarrow> voucher_status option" where
  "voucher_status_parse s =
    (if s = ''active'' then Some VoucherActive
     else if s = ''used'' then Some VoucherUsed
     else if s = ''expired'' then Some VoucherExpired
     else if s = ''revoked'' then Some VoucherRevoked
     else None)"

record credit_voucher =
  cv_id :: uuid
  cv_code_hash :: str
  cv_amount_units :: int
  cv_status :: voucher_status
  cv_campaign :: "str option"
  cv_created_at :: int
  cv_expires_at :: "int option"
  cv_redeemed_by :: "tenant_id option"
  cv_redeemed_at :: "int option"

datatype pricing_status = PricingActive | PricingInactive

fun pricing_status_as_str :: "pricing_status \<Rightarrow> str" where
  "pricing_status_as_str PricingActive = ''active''"
| "pricing_status_as_str PricingInactive = ''inactive''"

record pricing_version =
  pv_version :: int
  pv_status :: pricing_status
  pv_effective_at :: int
  pv_created_at :: int

record pricing_rule =
  pr_pricing_version :: int
  pr_metric :: usage_metric
  pr_unit_size :: int
  pr_price_units :: int

record pricing_config =
  pc_version :: int
  pc_effective_at :: int
  pc_rules :: "(usage_metric, int \<times> int) hashmap"

definition pricing_config_empty :: pricing_config where
  "pricing_config_empty = \<lparr>pc_version = 0, pc_effective_at = 0, pc_rules = []\<rparr>"

text \<open>The product is taken in \<open>u128\<close>, the quotient is capped at \<open>i64::MAX\<close>.\<close>

definition rate :: "pricing_config \<Rightarrow> usage_metric \<Rightarrow> nat \<Rightarrow> int" where
  "rate cfg metric units =
    (case map_of (pc_rules cfg) metric of
       None \<Rightarrow> 0
     | Some (unit_size, price_units) \<Rightarrow>
        (if unit_size \<le> 0 \<or> price_units \<le> 0 \<or> units = 0 then 0
         else (let micro = (units * nat price_units) mod 2 ^ 128 div nat unit_size
               in int (min micro (nat i64_max)))))"

lemma txn_type_parse_as_str [simp]: "txn_type_parse (txn_type_as_str t) = Some t"
  by (cases t) (simp_all add: txn_type_parse_def)

lemma voucher_status_parse_as_str [simp]: "voucher_status_parse (voucher_status_as_str v) = Some v"
  by (cases v) (simp_all add: voucher_status_parse_def)

text \<open>the textual forms under which metrics, transaction types and voucher states cross process
  boundaries parse back to the same value, and no other metric name is accepted.\<close>

theorem enum_text_roundtrip:
  "metric_parse (metric_as_str m) = Some m \<and> txn_type_parse (txn_type_as_str t) = Some t
    \<and> voucher_status_parse (voucher_status_as_str v) = Some v
    \<and> (metric_parse s = Some m \<longleftrightarrow> s = metric_as_str m)"
  by (simp add: metric_parse_Some_iff)

lemma rate_product_no_overflow:
  assumes "units \<le> u64_max" "in_i64 price"
  shows "(units * nat price) mod 2 ^ 128 = units * nat price"
proof -
  have "nat price \<le> 2 ^ 63 - 1"
    using assms(2) by (simp add: in_i64_def i64_max_def nat_le_iff)
  with assms(1) have "units * nat price \<le> (2 ^ 64 - 1) * (2 ^ 63 - 1)"
    unfolding u64_max_def by (rule mult_le_mono)
  then have "units * nat price < 2 ^ 128"
    by (rule le_less_trans) simp
  then show ?thesis
    by simp
qed

lemma rate_eq:
  assumes "map_of (pc_rules cfg) m = Some (sz, pr)" "0 < sz" "0 < pr" "in_i64 pr" "units \<le> u64_max"
  shows "rate cfg m units = min (int units * pr div sz) i64_max"
proof (cases "units = 0")
  case True
  then show ?thesis
    using assms(1) by (simp add: rate_def i64_max_def)
next
  case False
  have micro: "int (units * nat pr div nat sz) = int units * pr div sz"
    using assms(2,3) by (simp add: zdiv_int)
  have "int (nat i64_max) = i64_max"
    by (simp add: i64_max_def)
  moreover have "rate cfg m units = int (min (units * nat pr div nat sz) (nat i64_max))"
    using assms(1-3) False rate_product_no_overflow [OF assms(5,4)] by (simp add: rate_def Let_def)
  ultimately show ?thesis
    using micro by (simp add: of_nat_min del: of_nat_mult)
qed

lemma floor_bounds:
  fixes a s :: int
  assumes "0 < s"
  shows "a div s * s \<le> a" "a < (a div s + 1) * s"
proof -
  have "a div s * s + a mod s = a" "0 \<le> a mod s" "a mod s < s"
    using assms by simp_all
  then show "a div s * s \<le> a" "a < (a div s + 1) * s"
    unfolding distrib_right mult_1 by linarith+
qed

lemma rate_nonneg: "0 \<le> rate cfg m units"
  by (auto simp: rate_def Let_def split: option.splits)

lemma rate_le_max: "rate cfg m units \<le> i64_max"
proof -
  have "int (min x (nat i64_max)) \<le> i64_max" "0 \<le> i64_max" for x
    by (simp_all add: i64_max_def)
  then show ?thesis
    by (auto simp: rate_def Let_def split: option.splits simp del: of_nat_min)
qed

text \<open>Below the saturation point rating is the exact floor of \<open>units * price / unit_size\<close>:
  the charge times the unit size is at most the product and less than one unit size below it.\<close>

theorem rate_exact_floor:
  assumes "map_of (pc_rules cfg) m = Some (sz, pr)" "0 < sz" "0 < pr" "in_i64 pr"
    "units \<le> u64_max" "rate cfg m units < i64_max"
  shows "rate cfg m units * sz \<le> int units * pr \<and> int units * pr < (rate cfg m units + 1) * sz"
proof -
  have r: "rate cfg m units = int units * pr div sz"
    using rate_eq [OF assms(1-5)] assms(6) by simp
  show ?thesis
    unfolding r using floor_bounds [OF assms(2)] by blast
qed

definition sample_pricing :: pricing_config where
  "sample_pricing =
    \<lparr>pc_version = 1, pc_effective_at = 0,
     pc_rules = [(KvRead, (1000, 10)), (StorageByteSecs, (BYTE_SECS_PER_GB_HOUR, 10000))]\<rparr>"

theorem rate_exact_floor_witness:
  "rate sample_pricing KvRead 2550 = 25
    \<and> rate sample_pricing KvRead 2550 * 1000 \<le> int 2550 * 10
    \<and> int 2550 * 10 < (rate sample_pricing KvRead 2550 + 1) * 1000"
  using rate_exact_floor [of sample_pricing KvRead 1000 10 2550]
  by (simp add: sample_pricing_def rate_def i64_defs u64_max_def)

lemma floor_split:
  fixes a b s :: int
  assumes "0 < s"
  shows "a div s + b div s \<le> (a + b) div s" "(a + b) div s \<le> a div s + b div s + 1"
proof -
  let ?r = "(a mod s + b mod s) div s"
  have m: "0 \<le> a mod s" "a mod s < s" "0 \<le> b mod s" "b mod s < s"
    using assms by simp_all
  then have "0 \<le> ?r"
    using assms by (simp add: pos_imp_zdiv_nonneg_iff)
  moreover have "a mod s + b mod s < 2 * s"
    using m by linarith
  then have "?r * s < 2 * s"
    using floor_bounds(1) [OF assms, of "a mod s + b mod s"] by linarith
  then have "?r < 2"
    using assms by simp
  ultimately show "a div s + b div s \<le> (a + b) div s" "(a + b) div s \<le> a div s + b div s + 1"
    using div_add1_eq [of a b s] by linarith+
qed

text \<open>Splitting a quantity over two settlement windows never charges more than settling it
  at once, and loses at most one microcredit; a larger quantity is never charged less.\<close>

theorem rate_split:
  assumes "map_of (pc_rules cfg) m = Some (sz, pr)" "0 < sz" "0 < pr" "in_i64 pr"
    "a + b \<le> u64_max" "rate cfg m (a + b) < i64_max"
  shows "rate cfg m a + rate cfg m b \<le> rate cfg m (a + b)
    \<and> rate cfg m (a + b) \<le> rate cfg m a + rate cfg m b + 1
    \<and> rate cfg m a \<le> rate cfg m (a + b)"
proof -
  let ?f = "\<lambda>n. int n * pr div sz"
  have ab: "rate cfg m (a + b) = ?f (a + b)"
    using rate_eq [OF assms(1-5)] assms(6) by simp
  have split: "?f a + ?f b \<le> ?f (a + b)" "?f (a + b) \<le> ?f a + ?f b + 1"
    using floor_split [OF assms(2), of "int a * pr" "int b * pr"] by (simp_all add: distrib_right)
  have "0 \<le> ?f a" "0 \<le> ?f b"
    using assms(2,3) by (simp_all add: pos_imp_zdiv_nonneg_iff)
  then have "?f a < i64_max" "?f b < i64_max"
    using split ab assms(6) by linarith+
  then have "rate cfg m a = ?f a" "rate cfg m b = ?f b"
    using rate_eq [OF assms(1-4), of a] rate_eq [OF assms(1-4), of b] assms(5) by simp_all
  then show ?thesis
    using ab split \<open>0 \<le> ?f b\<close> by linarith
qed

theorem rate_split_witness:
  "rate sample_pricing KvRead 50 + rate sample_pricing KvRead 60 \<le> rate sample_pricing KvRead (50 + 60)
    \<and> rate sample_pricing KvRead (50 + 60) \<le> rate sample_pricing KvRead 50 + rate sample_pricing KvRead 60 + 1
    \<and> rate sample_pricing KvRead 50 \<le> rate sample_pricing KvRead (50 + 60)"
  by (rule rate_split [of _ _ 1000 10])
    (simp_all add: sample_pricing_def rate_def i64_defs u64_max_def)

section \<open>Voucher codes\<close>

definition ALPHABET :: str where
  "ALPHABET = ''ABCDEFGHJKMNPQRSTUVWXYZ23456789''"

text \<open>The loop over the twelve positions; \<open>idx i\<close> is the index \<open>gen_range\<close> draws at position \<open>i\<close>.\<close>

fun voucher_loop :: "(nat \<Rightarrow> nat) \<Rightarrow> nat list \<Rightarrow> str \<Rightarrow> str" where
  "voucher_loop idx [] code = code"
| "voucher_loop idx (i # is) code =
    (let code' = (if 0 < i \<and> i mod 4 = 0 then code @ ''-'' else code)
     in voucher_loop idx is (code' @ [ALPHABET ! idx i]))"

definition generate_voucher_code :: "(nat \<Rightarrow> nat) \<Rightarrow> str" where
  "generate_voucher_code idx = voucher_loop idx [0..<12] ''CMB-''"

definition hash_voucher_code :: "(str \<Rightarrow> nat list) \<Rightarrow> str \<Rightarrow> str" where
  "hash_voucher_code sha256 code = hex_bytes (take 16 (sha256 code))"

lemma generate_voucher_code_eq:
  "generate_voucher_code idx =
    ''CMB-'' @ map (\<lambda>i. ALPHABET ! idx i) [0..<4] @ ''-'' @ map (\<lambda>i. ALPHABET ! idx i) [4..<8]
      @ ''-'' @ map (\<lambda>i. ALPHABET ! idx i) [8..<12]"
proof -
  have "[0..<12] = [0, 1, 2, 3, 4, 5, 6, 7, 8, 9, 10, 11 :: nat]" "[0..<4] = [0, 1, 2, 3 :: nat]"
      "[4..<8] = [4, 5, 6, 7 :: nat]" "[8..<12] = [8, 9, 10, 11 :: nat]"
    by code_simp+
  then show ?thesis
    by (simp add: generate_voucher_code_def)
qed

lemma alphabet_facts: "length ALPHABET = 31" "distinct ALPHABET"
  by (simp_all add: ALPHABET_def)

text \<open>with in-range draws a voucher code is \<open>CMB-\<close> followed by three groups of four letters of
  the alphabet separated by dashes (18 characters), and two codes are equal only if all twelve
  draws are.\<close>

theorem voucher_code_shape:
  assumes "\<forall>i < 12. idx i < 31" "\<forall>i < 12. idx' i < 31"
  shows "length (generate_voucher_code idx) = 18
    \<and> (\<forall>c \<in> set (generate_voucher_code idx). c = CHR ''-'' \<or> c \<in> set ALPHABET)
    \<and> (generate_voucher_code idx = generate_voucher_code idx' \<longleftrightarrow> (\<forall>i < 12. idx i = idx' i))"
proof (intro conjI)
  show "length (generate_voucher_code idx) = 18"
    by (simp add: generate_voucher_code_eq)
  show "\<forall>c \<in> set (generate_voucher_code idx). c = CHR ''-'' \<or> c \<in> set ALPHABET"
    using assms(1) by (auto simp: generate_voucher_code_eq alphabet_facts)
      (simp_all add: ALPHABET_def)
  have nth: "ALPHABET ! idx i = ALPHABET ! idx' i \<longleftrightarrow> idx i = idx' i" if "i < 12" for i
    using that assms alphabet_facts by (simp add: nth_eq_iff_index_eq)
  have "generate_voucher_code idx = generate_voucher_code idx'
      \<longleftrightarrow> (\<forall>i \<in> {0..<4} \<union> {4..<8} \<union> {8..<12}. ALPHABET ! idx i = ALPHABET ! idx' i)"
    by (auto simp: generate_voucher_code_eq simp del: upt_rec_numeral)
  also have "{0..<4} \<union> {4..<8} \<union> {8..<12} = {i :: nat. i < 12}"
    by auto
  finally show "generate_voucher_code idx = generate_voucher_code idx' \<longleftrightarrow> (\<forall>i < 12. idx i = idx' i)"
    using nth by auto
qed

theorem voucher_code_shape_witness:
  "length (generate_voucher_code (\<lambda>i. i)) = 18
    \<and> (\<forall>c \<in> set (generate_voucher_code (\<lambda>i. i)). c = CHR ''-'' \<or> c \<in> set ALPHABET)
    \<and> (generate_voucher_code (\<lambda>i. i) = generate_voucher_code (\<lambda>i. 30 - i) \<longleftrightarrow> (\<forall>i < 12. i = 30 - (i :: nat)))"
  by (rule voucher_code_shape) auto

end
