(* ===== verification/Metadata_State.thy ===== *)
theory Metadata_State
  imports Billing_Types
begin

text \<open>
  The state of the in-memory metadata store (\<open>metadata/src/store.rs\<close>): the records of the cell
  directory, tenants, API keys, data nodes and waitlist, and the structure \<open>InMemoryInner\<close> that
  one mutex guards. Every method of the store takes the mutex for its whole body, so each
  operation of the model is one atomic step on this record. The wall clock \<open>now\<close> (unix seconds)
  and freshly drawn identifiers are arguments of the operations that read them.
\<close>

definition DEFAULT_TENANT :: tenant_id where
  "DEFAULT_TENANT = TenantId 1"

datatype database_state = Created | Active | Deleting

fun state_as_str :: "database_state \<Rightarrow> str" where
  "state_as_str Created = ''created''"
| "state_as_str Active = ''active''"
| "state_as_str Deleting = ''deleting''"

definition state_parse :: "str \<Rightarrow> database_state result" where
  "state_parse s =
    (if s = ''created'' then Inr Created
     else if s = ''active'' then Inr Active
     else if s = ''deleting'' then Inr Deleting
     else Inl (Internal (''invalid database state: '' @ s)))"

lemma state_parse_as_str [simp]: "state_parse (state_as_str st) = Inr st"
  by (cases st) (simp_all add: state_parse_def)

record tenant_record =
  tr_id :: tenant_id
  tr_created_at :: nat
  tr_status :: str

record api_key_record =
  ak_id :: uuid
  ak_tenant_id :: tenant_id
  ak_name :: str
  ak_key_hash :: str
  ak_created_at :: nat
  ak_revoked_at :: "nat option"

record data_node_record =
  dn_id :: node_id
  dn_addr :: str
  dn_capacity :: nat
  dn_active_conns :: nat
  dn_last_heartbeat_at :: nat
  dn_created_at :: nat

record database_record =
  db_id :: database_id
  db_name :: str
  db_tenant_id :: tenant_id
  db_state :: database_state
  db_created_at :: nat
  db_storage_node_id :: "node_id option"
  db_replica_node_id :: "node_id option"
  db_generation :: int

record waitlist_entry =
  wl_email :: str
  wl_created_at :: int

record inner =
  databases :: "(tenant_id \<times> database_id, database_record) hashmap"
  tenants :: "(tenant_id, tenant_record) hashmap"
  api_keys :: "(uuid, api_key_record) hashmap"
  data_nodes :: "(node_id, data_node_record) hashmap"
  usage :: "(usage_key, nat) hashmap"
  pricing_versions :: "(int, pricing_version) hashmap"
  pricing_rules :: "(int, pricing_rule list) hashmap"
  credit_accounts :: "(tenant_id, credit_account) hashmap"
  credit_transactions :: "(uuid, credit_transaction) hashmap"
  credit_txn_by_ref :: "(str, uuid) hashmap"
  vouchers :: "(uuid, credit_voucher) hashmap"
  voucher_by_hash :: "(str, uuid) hashmap"
  idempotency :: "(str, tenant_id \<times> str) hashmap"
  waitlist :: "waitlist_entry list"
  name_index :: "(tenant_id \<times> str, database_id) hashmap"
  leases :: "(str, uuid \<times> int) hashmap"
  config :: "(str, str) hashmap"

definition inner_default :: inner where
  "inner_default =
    \<lparr>databases = [], tenants = [], api_keys = [], data_nodes = [], usage = [],
     pricing_versions = [], pricing_rules = [], credit_accounts = [], credit_transactions = [],
     credit_txn_by_ref = [], vouchers = [], voucher_by_hash = [], idempotency = [],
     waitlist = [], name_index = [], leases = [], config = []\<rparr>"

end
