(* ===== verification/Ledger.thy ===== *)
theory Ledger
  imports Metadata_State
begin

text \<open>
  Credits in \<open>InMemoryStore\<close> (\<open>metadata/src/store.rs\<close>): the append-only credit ledger with its
  idempotency references, accounts, and vouchers. The locale \<open>ledger\<close> states what the ledger promises to the code that charges
  tenants: a reference is booked at most once and a booking moves the balance by its amount. It is
  interpreted on the store's own operations.
\<close>

section \<open>Credit accounts and transactions\<close>

definition new_account :: "tenant_id \<Rightarrow> nat \<Rightarrow> credit_account" where
  "new_account t now =
    \<lparr>ca_tenant_id = t, ca_balance_units = 0, ca_reserved_units = 0, ca_updated_at = wrap_i64 (int now)\<rparr>"

text \<open>\<open>entry(tenant).or_insert_with(...)\<close>.\<close>

definition account_entry :: "inner \<Rightarrow> tenant_id \<Rightarrow> nat \<Rightarrow> credit_account" where
  "account_entry s t now =
    (case map_of (credit_accounts s) t of Some a \<Rightarrow> a | None \<Rightarrow> new_account t now)"

definition get_credit_account :: "nat \<Rightarrow> inner \<Rightarrow> tenant_id \<Rightarrow> credit_account \<times> inner" where
  "get_credit_account now s t =
    (let a = account_entry s t now in (a, s\<lparr>credit_accounts := AList.update t a (credit_accounts s)\<rparr>))"

definition clamp_limit :: "int \<Rightarrow> nat" where
  "clamp_limit limit = nat (max 1 (min 1000 limit))"

text \<open>Newest first, ties by descending identifier.\<close>

definition list_credit_transactions ::
  "inner \<Rightarrow> tenant_id \<Rightarrow> int \<Rightarrow> uuid option \<Rightarrow> credit_transaction list" where
  "list_credit_transactions s t limit before =
    take (clamp_limit limit)
      (sort_key (\<lambda>x. (- ct_created_at x, - uint (ct_id x)))
        (filter (\<lambda>x. ct_tenant_id x = t \<and> (case before of Some b \<Rightarrow> ct_id x < b | None \<Rightarrow> True))
          (map snd (credit_transactions s))))"

definition find_transaction_by_reference :: "inner \<Rightarrow> str \<Rightarrow> credit_transaction option" where
  "find_transaction_by_reference s ref =
    (case map_of (credit_txn_by_ref s) ref of
       None \<Rightarrow> None
     | Some i \<Rightarrow> map_of (credit_transactions s) i)"

text \<open>The part of \<open>append_credit_transaction\<close> after the idempotency test; the clock is read
  once to open a missing account and once for the update.\<close>

definition book :: "nat \<Rightarrow> nat \<Rightarrow> inner \<Rightarrow> credit_transaction \<Rightarrow> credit_transaction \<times> inner" where
  "book now1 now2 s x =
    (let a = account_entry s (ct_tenant_id x) now1;
         bal = saturating_add_i64 (ca_balance_units a) (ct_amount_units x);
         a' = a\<lparr>ca_balance_units := bal, ca_updated_at := wrap_i64 (int now2)\<rparr>;
         x' = x\<lparr>ct_balance_after := Some bal\<rparr>
     in (x', s\<lparr>credit_accounts := AList.update (ct_tenant_id x) a' (credit_accounts s),
               credit_txn_by_ref := (case ct_reference_id x of
                   Some ref \<Rightarrow> AList.update ref (ct_id x) (credit_txn_by_ref s)
                 | None \<Rightarrow> credit_txn_by_ref s),
               credit_transactions := AList.update (ct_id x) x' (credit_transactions s)\<rparr>))"

definition append_credit_transaction ::
  "nat \<Rightarrow> nat \<Rightarrow> inner \<Rightarrow> credit_transaction \<Rightarrow> credit_transaction result \<times> inner" where
  "append_credit_transaction now1 now2 s x =
    (case ct_reference_id x of
       None \<Rightarrow> map_prod Inr id (book now1 now2 s x)
     | Some ref \<Rightarrow>
        (case find_transaction_by_reference s ref of
           Some existing \<Rightarrow> (Inr existing, s)
         | None \<Rightarrow> map_prod Inr id (book now1 now2 s x)))"

section \<open>Vouchers\<close>

text \<open>Each round draws a code (\<open>idx\<close>) and an identifier, and reads the clock.\<close>

fun create_vouchers ::
  "(str \<Rightarrow> nat list) \<Rightarrow> inner \<Rightarrow> int \<Rightarrow> str option \<Rightarrow> int option \<Rightarrow> ((nat \<Rightarrow> nat) \<times> uuid \<times> nat) list
    \<Rightarrow> (str \<times> credit_voucher) list \<times> inner" where
  "create_vouchers sha256 s amount campaign expires [] = ([], s)"
| "create_vouchers sha256 s amount campaign expires ((idx, vid, now) # draws) =
    (let code = generate_voucher_code idx;
         h = hash_voucher_code sha256 code;
         v = \<lparr>cv_id = vid, cv_code_hash = h, cv_amount_units = amount, cv_status = VoucherActive,
              cv_campaign = campaign, cv_created_at = wrap_i64 (int now), cv_expires_at = expires,
              cv_redeemed_by = None, cv_redeemed_at = None\<rparr>;
         s' = s\<lparr>voucher_by_hash := AList.update h vid (voucher_by_hash s),
                vouchers := AList.update vid v (vouchers s)\<rparr>;
         (out, s'') = create_vouchers sha256 s' amount campaign expires draws
     in ((code, v) # out, s''))"

definition voucher_txn :: "uuid \<Rightarrow> tenant_id \<Rightarrow> int \<Rightarrow> str \<Rightarrow> int \<Rightarrow> int \<Rightarrow> credit_transaction" where
  "voucher_txn tid t amount h now bal =
    \<lparr>ct_id = tid, ct_tenant_id = t, ct_txn_type = Voucher, ct_amount_units = amount,
     ct_pricing_version = None, ct_reference_id = Some (''voucher:'' @ h),
     ct_description = Some ''voucher redemption'', ct_created_at = now, ct_balance_after = Some bal\<rparr>"

definition redeem_voucher ::
  "nat \<Rightarrow> uuid \<Rightarrow> inner \<Rightarrow> str \<Rightarrow> tenant_id \<Rightarrow> int \<Rightarrow> int result \<times> inner" where
  "redeem_voucher clock tid s h t now =
    (case map_of (voucher_by_hash s) h of
       None \<Rightarrow> (Inl (InvalidRequest ''voucher not found''), s)
     | Some vid \<Rightarrow>
        (case map_of (vouchers s) vid of
           None \<Rightarrow> (Inl (InvalidRequest ''voucher not found''), s)
         | Some v \<Rightarrow>
            (if cv_status v \<noteq> VoucherActive then (Inl (InvalidRequest ''voucher already used or revoked''), s)
             else if (case cv_expires_at v of Some e \<Rightarrow> e < now | None \<Rightarrow> False)
               then (Inl (InvalidRequest ''voucher expired''), s)
             else
               (let amount = cv_amount_units v;
                    v' = v\<lparr>cv_status := VoucherUsed, cv_redeemed_by := Some t, cv_redeemed_at := Some now\<rparr>;
                    a = account_entry s t clock;
                    bal = saturating_add_i64 (ca_balance_units a) amount;
                    a' = a\<lparr>ca_balance_units := bal, ca_updated_at := now\<rparr>
                in (Inr amount,
                    s\<lparr>vouchers := AList.update vid v' (vouchers s),
                      credit_accounts := AList.update t a' (credit_accounts s),
                      credit_txn_by_ref := AList.update (''voucher:'' @ h) tid (credit_txn_by_ref s),
                      credit_transactions := AList.update tid (voucher_txn tid t amount h now bal)
                        (credit_transactions s)\<rparr>)))))"

definition list_vouchers :: "inner \<Rightarrow> int \<Rightarrow> credit_voucher list" where
  "list_vouchers s limit = take (clamp_limit limit) (sort_key cv_created_at (map snd (vouchers s)))"

section \<open>The ledger's bookkeeping invariant\<close>

definition balance_of :: "inner \<Rightarrow> tenant_id \<Rightarrow> int" where
  "balance_of s t = (case map_of (credit_accounts s) t of Some a \<Rightarrow> ca_balance_units a | None \<Rightarrow> 0)"

definition tenant_total :: "inner \<Rightarrow> tenant_id \<Rightarrow> int" where
  "tenant_total s t =
    sum_list (map ct_amount_units (filter (\<lambda>x. ct_tenant_id x = t) (map snd (credit_transactions s))))"

definition refs_ok :: "inner \<Rightarrow> bool" where
  "refs_ok s \<longleftrightarrow>
    list_all (\<lambda>(i, x). ct_id x = i
      \<and> (case ct_reference_id x of Some ref \<Rightarrow> map_of (credit_txn_by_ref s) ref = Some i | None \<Rightarrow> True))
      (credit_transactions s)
    \<and> list_all (\<lambda>(ref, i).
      (case map_of (credit_transactions s) i of Some x \<Rightarrow> ct_reference_id x = Some ref | None \<Rightarrow> False))
      (credit_txn_by_ref s)"

definition ledger_inv :: "inner \<Rightarrow> bool" where
  "ledger_inv s \<longleftrightarrow> distinct (map fst (credit_transactions s)) \<and> distinct (map fst (credit_txn_by_ref s))
    \<and> refs_ok s"

text \<open>The invariant on the two maps.\<close>

definition ref_maps :: "(uuid \<rightharpoonup> credit_transaction) \<Rightarrow> (str \<rightharpoonup> uuid) \<Rightarrow> bool" where
  "ref_maps T R \<longleftrightarrow>
    (\<forall>i x. T i = Some x \<longrightarrow> ct_id x = i \<and> (\<forall>ref. ct_reference_id x = Some ref \<longrightarrow> R ref = Some i))
    \<and> (\<forall>ref i. R ref = Some i \<longrightarrow> (\<exists>x. T i = Some x \<and> ct_reference_id x = Some ref))"

lemma ledger_inv_iff:
  "ledger_inv s \<longleftrightarrow> distinct (map fst (credit_transactions s)) \<and> distinct (map fst (credit_txn_by_ref s))
    \<and> ref_maps (map_of (credit_transactions s)) (map_of (credit_txn_by_ref s))"
proof -
  have all: "list_all (\<lambda>(a, v). P a v) m \<longleftrightarrow> (\<forall>a v. map_of m a = Some v \<longrightarrow> P a v)"
    if "distinct (map fst m)" for P and m :: "('b \<times> 'c) list"
    using that by (auto simp: list_all_iff map_of_eq_Some_iff)
  have opt: "(case x of Some r \<Rightarrow> P r | None \<Rightarrow> False) \<longleftrightarrow> (\<exists>r. x = Some r \<and> P r)"
    "(case y of Some r \<Rightarrow> Q r | None \<Rightarrow> True) \<longleftrightarrow> (\<forall>r. y = Some r \<longrightarrow> Q r)"
    for P Q and x :: "'d option" and y :: "'e option"
    by (auto split: option.splits)
  show ?thesis
  proof (cases "distinct (map fst (credit_transactions s)) \<and> distinct (map fst (credit_txn_by_ref s))")
    case True
    then have d: "distinct (map fst (credit_transactions s))" "distinct (map fst (credit_txn_by_ref s))"
      by auto
    show ?thesis
      unfolding ledger_inv_def refs_ok_def ref_maps_def all [OF d(1)] all [OF d(2)] opt
      using d by simp
  next
    case False
    then show ?thesis
      by (auto simp: ledger_inv_def)
  qed
qed

lemma ref_mapsD:
  assumes "ref_maps T R"
  shows "T i = Some x \<Longrightarrow> ct_id x = i"
    and "T i = Some x \<Longrightarrow> ct_reference_id x = Some ref \<Longrightarrow> R ref = Some i"
    and "R ref = Some i \<Longrightarrow> \<exists>x. T i = Some x \<and> ct_reference_id x = Some ref"
  using assms unfolding ref_maps_def by (blast, blast, blast)

lemma ref_maps_insert:
  assumes inv: "ref_maps T R" and fresh: "T (ct_id x) = None"
    and ref: "\<And>ref. ct_reference_id x = Some ref \<Longrightarrow> R ref = None"
  shows "ref_maps (T(ct_id x \<mapsto> x))
    (case ct_reference_id x of Some ref \<Rightarrow> R(ref \<mapsto> ct_id x) | None \<Rightarrow> R)"
proof -
  have no: "R r \<noteq> Some (ct_id x)" for r
    using ref_mapsD(3) [OF inv] fresh by (metis option.distinct(1))
  have other: "ct_reference_id y \<noteq> ct_reference_id x" if "T i = Some y" "ct_reference_id x = Some r" for i y r
    using ref_mapsD(2) [OF inv that(1)] ref [OF that(2)] that(2) by auto
  show ?thesis
    unfolding ref_maps_def
    using no other
    by (auto dest: ref_mapsD [OF inv] split: option.splits if_splits)
qed

lemma find_ref_None:
  assumes "ledger_inv s"
  shows "find_transaction_by_reference s ref = None \<longleftrightarrow> map_of (credit_txn_by_ref s) ref = None"
proof -
  have inv: "ref_maps (map_of (credit_transactions s)) (map_of (credit_txn_by_ref s))"
    using assms by (simp add: ledger_inv_iff)
  show ?thesis
    unfolding find_transaction_by_reference_def
    by (auto dest: ref_mapsD(3) [OF inv] split: option.splits)
qed

definition fresh_txn :: "inner \<Rightarrow> uuid \<Rightarrow> bool" where
  "fresh_txn s i \<longleftrightarrow> map_of (credit_transactions s) i = None"

lemma book_simps:
  "fst (book n1 n2 s x) = x\<lparr>ct_balance_after :=
      Some (saturating_add_i64 (balance_of s (ct_tenant_id x)) (ct_amount_units x))\<rparr>"
  "map_of (credit_transactions (snd (book n1 n2 s x))) =
    (map_of (credit_transactions s))(ct_id x \<mapsto> fst (book n1 n2 s x))"
  "map_of (credit_txn_by_ref (snd (book n1 n2 s x))) =
    (case ct_reference_id x of Some ref \<Rightarrow> (map_of (credit_txn_by_ref s))(ref \<mapsto> ct_id x)
     | None \<Rightarrow> map_of (credit_txn_by_ref s))"
  "balance_of (snd (book n1 n2 s x)) t =
    (if t = ct_tenant_id x then saturating_add_i64 (balance_of s t) (ct_amount_units x) else balance_of s t)"
  by (auto simp: book_def Let_def balance_of_def account_entry_def new_account_def split: option.splits)

lemma book_inv:
  assumes "ledger_inv s" "fresh_txn s (ct_id x)"
    "\<And>ref. ct_reference_id x = Some ref \<Longrightarrow> map_of (credit_txn_by_ref s) ref = None"
  shows "ledger_inv (snd (book n1 n2 s x))"
proof -
  let ?x = "fst (book n1 n2 s x)"
  have x: "ct_id ?x = ct_id x" "ct_reference_id ?x = ct_reference_id x"
    by (simp_all add: book_simps)
  have "ref_maps ((map_of (credit_transactions s))(ct_id ?x \<mapsto> ?x))
      (case ct_reference_id ?x of Some ref \<Rightarrow> (map_of (credit_txn_by_ref s))(ref \<mapsto> ct_id ?x)
       | None \<Rightarrow> map_of (credit_txn_by_ref s))"
    using assms by (intro ref_maps_insert) (simp_all add: x ledger_inv_iff fresh_txn_def)
  then have "ref_maps (map_of (credit_transactions (snd (book n1 n2 s x))))
      (map_of (credit_txn_by_ref (snd (book n1 n2 s x))))"
    unfolding book_simps(2,3) x .
  moreover have "distinct (map fst (credit_transactions (snd (book n1 n2 s x))))"
      "distinct (map fst (credit_txn_by_ref (snd (book n1 n2 s x))))"
    using assms(1) by (auto simp: ledger_inv_iff book_def Let_def distinct_keys_update split: option.splits)
  ultimately show ?thesis
    by (simp add: ledger_inv_iff)
qed

lemma book_total:
  assumes "fresh_txn s (ct_id x)"
  shows "tenant_total (snd (book n1 n2 s x)) t =
    tenant_total s t + (if ct_tenant_id x = t then ct_amount_units x else 0)"
  using assms
  by (simp add: tenant_total_def book_def Let_def fresh_txn_def update_fresh_key)

lemma book_find:
  assumes "fresh_txn s (ct_id x)" "ledger_inv s"
  shows "ct_reference_id x = Some ref \<Longrightarrow>
      find_transaction_by_reference (snd (book n1 n2 s x)) ref = Some (fst (book n1 n2 s x))"
    and "ct_reference_id x \<noteq> Some ref \<Longrightarrow>
      find_transaction_by_reference (snd (book n1 n2 s x)) ref = find_transaction_by_reference s ref"
proof -
  show "find_transaction_by_reference (snd (book n1 n2 s x)) ref = Some (fst (book n1 n2 s x))"
    if "ct_reference_id x = Some ref"
    using that by (simp add: find_transaction_by_reference_def book_simps(2,3))
  have inv: "ref_maps (map_of (credit_transactions s)) (map_of (credit_txn_by_ref s))"
    using assms(2) by (simp add: ledger_inv_iff)
  have "map_of (credit_txn_by_ref s) ref \<noteq> Some (ct_id x)"
    using ref_mapsD(3) [OF inv] assms(1) unfolding fresh_txn_def by (metis option.distinct(1))
  then show "find_transaction_by_reference (snd (book n1 n2 s x)) ref = find_transaction_by_reference s ref"
    if "ct_reference_id x \<noteq> Some ref"
    using that by (auto simp: find_transaction_by_reference_def book_simps(2,3) split: option.splits)
qed

section \<open>The ledger interface\<close>

text \<open>
  What the code that charges tenants relies on. \<open>append\<close> either fails without effect on the
  books, or returns the transaction already booked under the reference, or books a new one.
\<close>

locale ledger =
  fixes good :: "'s \<Rightarrow> bool"
    and fresh :: "'s \<Rightarrow> uuid \<Rightarrow> bool"
    and append :: "'s \<Rightarrow> credit_transaction \<Rightarrow> credit_transaction result \<times> 's"
    and find_ref :: "'s \<Rightarrow> str \<Rightarrow> credit_transaction option"
    and balance :: "'s \<Rightarrow> tenant_id \<Rightarrow> int"
  assumes append_dup:
      "find_ref s ref = Some y \<Longrightarrow> ct_reference_id x = Some ref \<Longrightarrow> append s x = (Inr y, s)"
    and append_fails: "append s x = (Inl e, s') \<Longrightarrow> s' = s"
    and append_new: "good s \<Longrightarrow> fresh s (ct_id x) \<Longrightarrow> ct_reference_id x = Some ref \<Longrightarrow>
      find_ref s ref = None \<Longrightarrow> append s x = (Inr y, s') \<Longrightarrow>
      good s' \<and> find_ref s' = (find_ref s)(ref \<mapsto> y)
      \<and> (\<forall>i. i \<noteq> ct_id x \<longrightarrow> fresh s' i = fresh s i)
      \<and> balance s' = (balance s)(ct_tenant_id x :=
          saturating_add_i64 (balance s (ct_tenant_id x)) (ct_amount_units x))"
begin

lemma append_keeps:
  assumes "good s" "fresh s (ct_id x)" "ct_reference_id x = Some ref" "append s x = (r, s')"
  shows "good s'"
    and "find_ref s k = Some y \<Longrightarrow> find_ref s' k = Some y"
    and "i \<noteq> ct_id x \<Longrightarrow> fresh s i \<Longrightarrow> fresh s' i"
proof -
  have "good s' \<and> (find_ref s k = Some y \<longrightarrow> find_ref s' k = Some y)
      \<and> (i \<noteq> ct_id x \<and> fresh s i \<longrightarrow> fresh s' i)"
  proof (cases r)
    case (Inl e)
    then show ?thesis
      using append_fails assms by auto
  next
    case (Inr z)
    show ?thesis
    proof (cases "find_ref s ref")
      case None
      then show ?thesis
        using append_new [OF assms(1-3) None] assms(4) Inr by auto
    next
      case (Some w)
      then show ?thesis
        using append_dup [OF Some assms(3)] assms(1,4) by auto
    qed
  qed
  then show "good s'" "find_ref s k = Some y \<Longrightarrow> find_ref s' k = Some y"
      "i \<noteq> ct_id x \<Longrightarrow> fresh s i \<Longrightarrow> fresh s' i"
    by auto
qed

text \<open>Booking under a reference that is already taken never touches any balance.\<close>

lemma append_once:
  assumes "good s" "fresh s (ct_id x)" "ct_reference_id x = Some ref" "append s x = (Inr y, s')"
    "ct_reference_id x' = Some ref"
  shows "append s' x' = (Inr y, s')"
proof (cases "find_ref s ref")
  case None
  then show ?thesis
    using append_new [OF assms(1-3) None assms(4)] append_dup [OF _ assms(5)] by simp
next
  case (Some w)
  then show ?thesis
    using append_dup [OF Some assms(3)] append_dup [OF Some assms(5)] assms(4) by simp
qed

end

interpretation mem_ledger: ledger ledger_inv fresh_txn "append_credit_transaction n1 n2"
  find_transaction_by_reference balance_of
proof unfold_locales
  fix s x ref y and s' :: inner
  assume a: "ledger_inv s" "fresh_txn s (ct_id x)" "ct_reference_id x = Some ref"
    "find_transaction_by_reference s ref = None"
    "append_credit_transaction n1 n2 s x = (Inr y, s')"
  then have e: "y = fst (book n1 n2 s x)" "s' = snd (book n1 n2 s x)"
    by (auto simp: append_credit_transaction_def map_prod_def split: prod.splits)
  have "ledger_inv s'"
    unfolding e using a find_ref_None [OF a(1)] by (intro book_inv) auto
  moreover have "find_transaction_by_reference s' = (find_transaction_by_reference s)(ref \<mapsto> y)"
    unfolding e using book_find [OF a(2,1)] a(3) by fastforce
  moreover have "\<forall>i. i \<noteq> ct_id x \<longrightarrow> fresh_txn s' i = fresh_txn s i"
    unfolding e by (simp add: fresh_txn_def book_simps(2))
  moreover have "balance_of s' = (balance_of s)(ct_tenant_id x :=
      saturating_add_i64 (balance_of s (ct_tenant_id x)) (ct_amount_units x))"
    unfolding e by (auto simp: book_simps(4))
  ultimately show "ledger_inv s'
      \<and> find_transaction_by_reference s' = (find_transaction_by_reference s)(ref \<mapsto> y)
      \<and> (\<forall>i. i \<noteq> ct_id x \<longrightarrow> fresh_txn s' i = fresh_txn s i)
      \<and> balance_of s' = (balance_of s)(ct_tenant_id x :=
          saturating_add_i64 (balance_of s (ct_tenant_id x)) (ct_amount_units x))"
    by blast
qed (auto simp: append_credit_transaction_def map_prod_def split: option.splits prod.splits)

section \<open>Properties of the ledger\<close>

text \<open>A reference is booked at most once: after a transaction with a reference was accepted,
  any further append under the same reference, whatever tenant and amount it names, returns the
  booked transaction and leaves the whole store, balances included, unchanged.\<close>

theorem append_idempotent:
  assumes "ledger_inv s" "fresh_txn s (ct_id x)" "ct_reference_id x = Some ref"
    "append_credit_transaction n1 n2 s x = (Inr y, s')" "ct_reference_id x' = Some ref"
  shows "append_credit_transaction n1 n2 s' x' = (Inr y, s')"
  using assms by (rule mem_ledger.append_once)

definition sample_txn :: "uuid \<Rightarrow> int \<Rightarrow> str option \<Rightarrow> credit_transaction" where
  "sample_txn i amount ref =
    \<lparr>ct_id = i, ct_tenant_id = TenantId 2, ct_txn_type = Usage, ct_amount_units = amount,
     ct_pricing_version = Some 1, ct_reference_id = ref, ct_description = None, ct_created_at = 100,
     ct_balance_after = None\<rparr>"

lemma ledger_inv_default: "ledger_inv inner_default"
  by (simp add: ledger_inv_def refs_ok_def inner_default_def)

theorem append_idempotent_witness:
  "\<exists>y s'. append_credit_transaction 0 0 inner_default (sample_txn 7 (- 30) (Some ''u'')) = (Inr y, s')
    \<and> balance_of s' (TenantId 2) = - 30
    \<and> append_credit_transaction 0 0 s' (sample_txn 8 (- 30) (Some ''u'')) = (Inr y, s')"
proof -
  obtain y s' where a: "append_credit_transaction 0 0 inner_default (sample_txn 7 (- 30) (Some ''u'')) = (Inr y, s')"
      and b: "balance_of s' (TenantId 2) = - 30"
    by (simp add: append_credit_transaction_def find_transaction_by_reference_def book_def sample_txn_def
        inner_default_def balance_of_def account_entry_def new_account_def Let_def map_prod_def
        saturating_add_i64_def i64_max_def i64_min_def)
  have "append_credit_transaction 0 0 s' (sample_txn 8 (- 30) (Some ''u'')) = (Inr y, s')"
    by (rule append_idempotent [OF ledger_inv_default _ _ a])
      (simp_all add: fresh_txn_def inner_default_def sample_txn_def)
  with a b show ?thesis
    by blast
qed

subsection \<open>Vouchers\<close>

definition voucher_of :: "inner \<Rightarrow> str \<Rightarrow> credit_voucher option" where
  "voucher_of s h = (case map_of (voucher_by_hash s) h of None \<Rightarrow> None | Some vid \<Rightarrow> map_of (vouchers s) vid)"

definition redeemable :: "inner \<Rightarrow> str \<Rightarrow> int \<Rightarrow> bool" where
  "redeemable s h now \<longleftrightarrow>
    (case voucher_of s h of
       None \<Rightarrow> False
     | Some v \<Rightarrow> cv_status v = VoucherActive
        \<and> \<not> (case cv_expires_at v of Some e \<Rightarrow> e < now | None \<Rightarrow> False))"

lemma redeem_success_iff:
  "(\<exists>amount s'. redeem_voucher c tid s h t now = (Inr amount, s')) \<longleftrightarrow> redeemable s h now"
  by (auto simp: redeem_voucher_def redeemable_def voucher_of_def Let_def split: option.splits)

lemma redeem_failure: "redeem_voucher c tid s h t now = (Inl e, s') \<Longrightarrow> s' = s"
  by (auto simp: redeem_voucher_def Let_def split: option.splits if_splits)

lemma redeem_success:
  assumes "redeem_voucher c tid s h t now = (Inr amount, s')"
  shows "\<exists>v. voucher_of s h = Some v \<and> amount = cv_amount_units v
      \<and> voucher_of s' h = Some (v\<lparr>cv_status := VoucherUsed, cv_redeemed_by := Some t, cv_redeemed_at := Some now\<rparr>)"
    and "balance_of s' u = (if u = t then saturating_add_i64 (balance_of s u) amount else balance_of s u)"
  using assms
  by (auto simp: redeem_voucher_def voucher_of_def balance_of_def account_entry_def new_account_def Let_def
      split: option.splits if_splits)


definition voucher_example :: inner where
  "voucher_example = inner_default\<lparr>voucher_by_hash := [(''ab'', 9)],
    vouchers := [(9, \<lparr>cv_id = 9, cv_code_hash = ''ab'', cv_amount_units = 500, cv_status = VoucherActive,
      cv_campaign = None, cv_created_at = 0, cv_expires_at = Some 1000, cv_redeemed_by = None,
      cv_redeemed_at = None\<rparr>)]\<rparr>"


subsection \<open>Runs of ledger operations\<close>

datatype ledger_op =
    LAppend nat nat credit_transaction
  | LRedeem nat uuid str tenant_id int
  | LAccount nat tenant_id
  | LVoucher uuid str credit_voucher

text \<open>\<open>LVoucher\<close> is one round of \<open>create_vouchers\<close>.\<close>

definition add_voucher :: "inner \<Rightarrow> uuid \<Rightarrow> str \<Rightarrow> credit_voucher \<Rightarrow> inner" where
  "add_voucher s vid h v =
    s\<lparr>voucher_by_hash := AList.update h vid (voucher_by_hash s), vouchers := AList.update vid v (vouchers s)\<rparr>"

fun ledger_exec :: "ledger_op \<Rightarrow> inner \<Rightarrow> inner" where
  "ledger_exec (LAppend n1 n2 x) s = snd (append_credit_transaction n1 n2 s x)"
| "ledger_exec (LRedeem c tid h t now) s = snd (redeem_voucher c tid s h t now)"
| "ledger_exec (LAccount now t) s = snd (get_credit_account now s t)"
| "ledger_exec (LVoucher vid h v) s = add_voucher s vid h v"

lemma create_vouchers_step:
  "snd (create_vouchers sha256 s amount campaign expires (d # draws)) =
    (let (idx, vid, now) = d;
         h = hash_voucher_code sha256 (generate_voucher_code idx);
         v = \<lparr>cv_id = vid, cv_code_hash = h, cv_amount_units = amount, cv_status = VoucherActive,
              cv_campaign = campaign, cv_created_at = wrap_i64 (int now), cv_expires_at = expires,
              cv_redeemed_by = None, cv_redeemed_at = None\<rparr>
     in snd (create_vouchers sha256 (ledger_exec (LVoucher vid h v) s) amount campaign expires draws))"
  by (cases d) (simp add: Let_def add_voucher_def split: prod.splits)

text \<open>
  What a run relies on: transaction and voucher identifiers and code hashes are drawn fresh, the
  references the server generates for other bookings (\<open>usage:\<close>, \<open>grant:\<close>, \<open>signup_grant:\<close>) do not
  start with \<open>voucher:\<close>, and no balance leaves the \<open>i64\<close> range.
\<close>

fun ledger_op_ok :: "inner \<Rightarrow> ledger_op \<Rightarrow> bool" where
  "ledger_op_ok s (LAppend n1 n2 x) \<longleftrightarrow> fresh_txn s (ct_id x)
    \<and> (case ct_reference_id x of Some ref \<Rightarrow> \<not> starts_with ref ''voucher:'' | None \<Rightarrow> True)
    \<and> in_i64 (balance_of s (ct_tenant_id x) + ct_amount_units x)"
| "ledger_op_ok s (LRedeem c tid h t now) \<longleftrightarrow> fresh_txn s tid
    \<and> (case voucher_of s h of Some v \<Rightarrow> in_i64 (balance_of s t + cv_amount_units v) | None \<Rightarrow> True)"
| "ledger_op_ok s (LAccount now t) \<longleftrightarrow> True"
| "ledger_op_ok s (LVoucher vid h v) \<longleftrightarrow> map_of (vouchers s) vid = None \<and> map_of (voucher_by_hash s) h = None
    \<and> cv_code_hash v = h"

inductive ledger_reachable :: "inner \<Rightarrow> bool" where
  ledger_start: "ledger_reachable inner_default"
| ledger_next: "ledger_reachable s \<Longrightarrow> ledger_op_ok s oper \<Longrightarrow> ledger_reachable (ledger_exec oper s)"

text \<open>A voucher whose redemption is booked is no longer active, and a stored voucher knows its hash.\<close>

definition voucher_maps ::
  "(str \<rightharpoonup> uuid) \<Rightarrow> (uuid \<rightharpoonup> credit_voucher) \<Rightarrow> (str \<rightharpoonup> uuid) \<Rightarrow> bool" where
  "voucher_maps H V R \<longleftrightarrow>
    (\<forall>h vid. H h = Some vid \<longrightarrow> (\<exists>v. V vid = Some v \<and> cv_code_hash v = h))
    \<and> (\<forall>h. R (''voucher:'' @ h) \<noteq> None \<longrightarrow>
        (\<exists>vid v. H h = Some vid \<and> V vid = Some v \<and> cv_status v \<noteq> VoucherActive))"

abbreviation voucher_inv :: "inner \<Rightarrow> bool" where
  "voucher_inv s \<equiv> voucher_maps (map_of (voucher_by_hash s)) (map_of (vouchers s)) (map_of (credit_txn_by_ref s))"

definition balanced :: "inner \<Rightarrow> bool" where
  "balanced s \<longleftrightarrow> (\<forall>t. balance_of s t = tenant_total s t)"

lemma voucher_mapsD:
  assumes "voucher_maps H V R"
  shows "H h = Some vid \<Longrightarrow> \<exists>v. V vid = Some v \<and> cv_code_hash v = h"
    and "R (''voucher:'' @ h) \<noteq> None \<Longrightarrow> \<exists>vid v. H h = Some vid \<and> V vid = Some v \<and> cv_status v \<noteq> VoucherActive"
  using assms unfolding voucher_maps_def by (blast, blast)

lemma voucher_maps_book:
  assumes "voucher_maps H V R" "\<not> starts_with ref ''voucher:''"
  shows "voucher_maps H V (R(ref \<mapsto> i))"
proof -
  have "(R(ref \<mapsto> i)) (''voucher:'' @ h) = R (''voucher:'' @ h)" for h
    using assms(2) starts_with_append [of "''voucher:''" h] by (metis fun_upd_other)
  then show ?thesis
    using assms(1) unfolding voucher_maps_def by simp
qed

lemma voucher_maps_redeem:
  assumes inv: "voucher_maps H V R" and v: "H h = Some vid" "V vid = Some v"
    and v': "cv_status v' \<noteq> VoucherActive" "cv_code_hash v' = cv_code_hash v"
  shows "voucher_maps H (V(vid \<mapsto> v')) (R(''voucher:'' @ h \<mapsto> i))"
  unfolding voucher_maps_def
proof (intro conjI allI impI)
  fix h' vid'
  assume "H h' = Some vid'"
  from voucher_mapsD(1) [OF inv this] obtain x where "V vid' = Some x" "cv_code_hash x = h'"
    by blast
  then show "\<exists>x. (V(vid \<mapsto> v')) vid' = Some x \<and> cv_code_hash x = h'"
    using v(2) v'(2) by (cases "vid' = vid") auto
next
  fix h'
  assume r: "(R(''voucher:'' @ h \<mapsto> i)) (''voucher:'' @ h') \<noteq> None"
  show "\<exists>vid' x. H h' = Some vid' \<and> (V(vid \<mapsto> v')) vid' = Some x \<and> cv_status x \<noteq> VoucherActive"
  proof (cases "h' = h")
    case True
    then show ?thesis
      using v v'(1) by auto
  next
    case False
    then have "R (''voucher:'' @ h') \<noteq> None"
      using r by (simp split: if_splits)
    from voucher_mapsD(2) [OF inv this] v'(1) show ?thesis
      by (metis fun_upd_apply)
  qed
qed

lemma voucher_maps_add:
  assumes inv: "voucher_maps H V R" and new: "V vid = None" "H h = None" "cv_code_hash v = h"
  shows "voucher_maps (H(h \<mapsto> vid)) (V(vid \<mapsto> v)) R"
proof -
  have ne: "H h' \<noteq> Some vid" for h'
    using voucher_mapsD(1) [OF inv] new(1) by (metis option.distinct(1))
  show ?thesis
    unfolding voucher_maps_def
  proof (intro conjI allI impI)
    fix h' vid'
    assume "(H(h \<mapsto> vid)) h' = Some vid'"
    then show "\<exists>x. (V(vid \<mapsto> v)) vid' = Some x \<and> cv_code_hash x = h'"
      using voucher_mapsD(1) [OF inv] ne new(3) by (auto split: if_splits)
  next
    fix h'
    assume "R (''voucher:'' @ h') \<noteq> None"
    from voucher_mapsD(2) [OF inv this] obtain vid' x where
      "H h' = Some vid'" "V vid' = Some x" "cv_status x \<noteq> VoucherActive"
      by blast
    with new show "\<exists>vid' x. (H(h \<mapsto> vid)) h' = Some vid' \<and> (V(vid \<mapsto> v)) vid' = Some x
        \<and> cv_status x \<noteq> VoucherActive"
      by (metis fun_upd_other option.distinct(1))
  qed
qed

lemma append_cases:
  assumes "ledger_inv s"
  obtains y where "append_credit_transaction n1 n2 s x = (Inr y, s)"
  | "append_credit_transaction n1 n2 s x = (Inr (fst (book n1 n2 s x)), snd (book n1 n2 s x))"
    "\<And>ref. ct_reference_id x = Some ref \<Longrightarrow> map_of (credit_txn_by_ref s) ref = None"
proof (cases "\<exists>ref y. ct_reference_id x = Some ref \<and> find_transaction_by_reference s ref = Some y")
  case True
  then show ?thesis
    using that(1) by (auto simp: append_credit_transaction_def)
next
  case False
  then have "append_credit_transaction n1 n2 s x = (Inr (fst (book n1 n2 s x)), snd (book n1 n2 s x))"
    by (auto simp: append_credit_transaction_def map_prod_def split: option.splits prod.splits)
  with False show ?thesis
    using that(2) find_ref_None [OF assms] by (metis option.exhaust)
qed

lemma append_voucher_inv:
  assumes "ledger_inv s" "voucher_inv s" "ledger_op_ok s (LAppend n1 n2 x)"
  shows "voucher_inv (snd (append_credit_transaction n1 n2 s x))"
proof (cases rule: append_cases [OF assms(1), of n1 n2 x])
  case (1 y)
  then show ?thesis
    using assms(2) by simp
next
  case 2
  have "voucher_by_hash (snd (book n1 n2 s x)) = voucher_by_hash s" "vouchers (snd (book n1 n2 s x)) = vouchers s"
    by (simp_all add: book_def Let_def)
  then show ?thesis
    using 2(1) assms(2,3) voucher_maps_book by (simp add: book_simps(3) split: option.splits)
qed

lemma append_balanced:
  assumes "ledger_inv s" "balanced s" "ledger_op_ok s (LAppend n1 n2 x)"
  shows "balanced (snd (append_credit_transaction n1 n2 s x))"
proof (cases rule: append_cases [OF assms(1), of n1 n2 x])
  case (1 y)
  then show ?thesis
    using assms(2) by simp
next
  case 2
  then show ?thesis
    using assms(2,3) by (auto simp: balanced_def book_simps(4) book_total saturating_add_i64_exact)
qed

lemma append_ledger_inv:
  assumes "ledger_inv s" "fresh_txn s (ct_id x)"
  shows "ledger_inv (snd (append_credit_transaction n1 n2 s x))"
proof (cases rule: append_cases [OF assms(1), of n1 n2 x])
  case (1 y)
  then show ?thesis
    using assms(1) by simp
next
  case 2
  then show ?thesis
    using book_inv [OF assms, of n1 n2] by simp
qed

text \<open>A successful redemption is a booking of the voucher transaction beside the voucher update.\<close>

lemma redeem_as_book:
  assumes "redeem_voucher c tid s h t now = (Inr amount, s')"
  obtains vid v bal where
    "map_of (voucher_by_hash s) h = Some vid" "map_of (vouchers s) vid = Some v"
    "cv_status v = VoucherActive" "amount = cv_amount_units v"
    "bal = saturating_add_i64 (balance_of s t) amount"
    "voucher_by_hash s' = voucher_by_hash s"
    "vouchers s' = AList.update vid (v\<lparr>cv_status := VoucherUsed, cv_redeemed_by := Some t,
        cv_redeemed_at := Some now\<rparr>) (vouchers s)"
    "credit_txn_by_ref s' = AList.update (''voucher:'' @ h) tid (credit_txn_by_ref s)"
    "credit_transactions s' = AList.update tid (voucher_txn tid t amount h now bal) (credit_transactions s)"
  using assms that
  by (auto simp: redeem_voucher_def balance_of_def account_entry_def new_account_def Let_def
      split: option.splits if_splits)

lemma redeem_inv:
  assumes inv: "ledger_inv s" "voucher_inv s" "balanced s"
    and ok: "ledger_op_ok s (LRedeem c tid h t now)"
    and red: "redeem_voucher c tid s h t now = (Inr amount, s')"
  shows "ledger_inv s'" "voucher_inv s'" "balanced s'"
proof -
  from red obtain vid v bal where
    v: "map_of (voucher_by_hash s) h = Some vid" "map_of (vouchers s) vid = Some v"
      "cv_status v = VoucherActive" "amount = cv_amount_units v"
    and s': "voucher_by_hash s' = voucher_by_hash s"
      "vouchers s' = AList.update vid (v\<lparr>cv_status := VoucherUsed, cv_redeemed_by := Some t,
          cv_redeemed_at := Some now\<rparr>) (vouchers s)"
      "credit_txn_by_ref s' = AList.update (''voucher:'' @ h) tid (credit_txn_by_ref s)"
      "credit_transactions s' = AList.update tid (voucher_txn tid t amount h now bal) (credit_transactions s)"
    by (rule redeem_as_book)
  let ?x = "voucher_txn tid t amount h now bal"
  have x: "ct_id ?x = tid" "ct_reference_id ?x = Some (''voucher:'' @ h)" "ct_amount_units ?x = amount"
      "ct_tenant_id ?x = t"
    by (simp_all add: voucher_txn_def)
  have fresh: "map_of (credit_transactions s) tid = None"
    using ok by (simp add: fresh_txn_def)
  have noref: "map_of (credit_txn_by_ref s) (''voucher:'' @ h) = None"
    using voucher_mapsD(2) [OF inv(2), of h] v(1-3) by (metis option.inject)
  have "ref_maps ((map_of (credit_transactions s))(ct_id ?x \<mapsto> ?x))
      (case ct_reference_id ?x of Some ref \<Rightarrow> (map_of (credit_txn_by_ref s))(ref \<mapsto> ct_id ?x)
       | None \<Rightarrow> map_of (credit_txn_by_ref s))"
    using inv(1) fresh noref unfolding ledger_inv_iff by (intro ref_maps_insert) (simp_all add: x del: append.simps)
  then show "ledger_inv s'"
    using inv(1) by (simp add: ledger_inv_iff s' x distinct_keys_update)
  show "voucher_inv s'"
    unfolding s' map_of_update using inv(2) v(1,2) by (rule voucher_maps_redeem) simp_all
  have "in_i64 (balance_of s t + amount)"
    using ok v by (simp add: voucher_of_def)
  then have "balance_of s' u = balance_of s u + (if u = t then amount else 0)" for u
    using redeem_success(2) [OF red] by (simp add: saturating_add_i64_exact)
  moreover have "tenant_total s' u = tenant_total s u + (if u = t then amount else 0)" for u
    unfolding tenant_total_def s' update_fresh_key [OF fresh] by (simp add: x)
  ultimately show "balanced s'"
    using inv(3) by (simp add: balanced_def)
qed

lemma account_frame:
  "balance_of (snd (get_credit_account now s t)) u = balance_of s u"
  "tenant_total (snd (get_credit_account now s t)) u = tenant_total s u"
  by (auto simp: get_credit_account_def balance_of_def account_entry_def new_account_def tenant_total_def
      Let_def split: option.splits)

lemma ledger_exec_inv:
  assumes inv: "ledger_inv s" "voucher_inv s" "balanced s" and ok: "ledger_op_ok s oper"
  shows "ledger_inv (ledger_exec oper s) \<and> voucher_inv (ledger_exec oper s) \<and> balanced (ledger_exec oper s)"
proof (cases oper)
  case (LAppend n1 n2 x)
  then show ?thesis
    using append_ledger_inv append_voucher_inv append_balanced inv ok by simp
next
  case (LRedeem c tid h t now)
  obtain r s' where r: "redeem_voucher c tid s h t now = (r, s')"
    by fastforce
  show ?thesis
  proof (cases r)
    case (Inl e)
    then show ?thesis
      using redeem_failure [OF r [unfolded Inl]] inv r LRedeem by simp
  next
    case (Inr amount)
    then show ?thesis
      using redeem_inv [OF inv ok [unfolded LRedeem] r [unfolded Inr]] r LRedeem by simp
  qed
next
  case (LAccount now t)
  have "credit_transactions (snd (get_credit_account now s t)) = credit_transactions s"
      "credit_txn_by_ref (snd (get_credit_account now s t)) = credit_txn_by_ref s"
      "voucher_by_hash (snd (get_credit_account now s t)) = voucher_by_hash s"
      "vouchers (snd (get_credit_account now s t)) = vouchers s"
    by (simp_all add: get_credit_account_def Let_def)
  then show ?thesis
    using LAccount inv by (simp add: ledger_inv_iff balanced_def account_frame)
next
  case (LVoucher vid h v)
  have "balance_of (add_voucher s vid h v) = balance_of s" "tenant_total (add_voucher s vid h v) = tenant_total s"
      "ledger_inv (add_voucher s vid h v) = ledger_inv s"
    by (auto simp: add_voucher_def balance_of_def tenant_total_def ledger_inv_iff)
  then show ?thesis
    using LVoucher inv ok voucher_maps_add by (simp add: balanced_def add_voucher_def)
qed

lemma ledger_reachable_inv:
  "ledger_reachable s \<Longrightarrow> ledger_inv s \<and> voucher_inv s \<and> balanced s"
proof (induction rule: ledger_reachable.induct)
  case ledger_start
  then show ?case
    using ledger_inv_default
    by (simp add: voucher_maps_def balanced_def balance_of_def tenant_total_def inner_default_def)
next
  case (ledger_next s oper)
  then show ?case
    using ledger_exec_inv by blast
qed

text \<open>C15: the books balance: after any sequence of bookings, voucher redemptions, account openings
  and voucher creations, every tenant's balance is the sum of its ledger entries, and no two ledger
  entries carry the same reference.\<close>

theorem ledger_balances:
  assumes "ledger_reachable s"
  shows "balance_of s t = tenant_total s t
    \<and> (map_of (credit_transactions s) i = Some x \<and> map_of (credit_transactions s) j = Some y
        \<and> ct_reference_id x = Some ref \<and> ct_reference_id y = Some ref \<longrightarrow> i = j)"
proof -
  note inv = ledger_reachable_inv [OF assms]
  have maps: "ref_maps (map_of (credit_transactions s)) (map_of (credit_txn_by_ref s))"
    using inv by (simp add: ledger_inv_iff)
  have "i = j" if "map_of (credit_transactions s) i = Some x" "map_of (credit_transactions s) j = Some y"
      "ct_reference_id x = Some ref" "ct_reference_id y = Some ref"
    using ref_mapsD(2) [OF maps that(1,3)] ref_mapsD(2) [OF maps that(2,4)] by simp
  moreover have "balance_of s t = tenant_total s t"
    using inv by (simp add: balanced_def)
  ultimately show ?thesis
    by blast
qed

definition ledger_example :: inner where
  "ledger_example = ledger_exec (LAppend 0 0 (sample_txn 8 (- 30) (Some ''u'')))
    (ledger_exec (LAppend 0 0 (sample_txn 7 100 None)) inner_default)"

theorem ledger_balances_witness:
  "balance_of ledger_example (TenantId 2) = 70 \<and> tenant_total ledger_example (TenantId 2) = 70"
proof -
  have "ledger_reachable ledger_example"
    unfolding ledger_example_def
    by (intro ledger_next ledger_start)
      (simp_all add: append_credit_transaction_def find_transaction_by_reference_def book_def sample_txn_def
        inner_default_def balance_of_def account_entry_def new_account_def Let_def map_prod_def
        fresh_txn_def saturating_add_i64_def i64_max_def i64_min_def in_i64_def starts_with_def)
  from ledger_balances [OF this, THEN conjunct1, of "TenantId 2"] show ?thesis
    by (simp add: ledger_example_def append_credit_transaction_def find_transaction_by_reference_def book_def
        sample_txn_def inner_default_def balance_of_def account_entry_def new_account_def Let_def
        map_prod_def saturating_add_i64_def i64_max_def i64_min_def)
qed

end
