(* ===== verification/Usage_Pricing.thy ===== *)
theory Usage_Pricing
  imports Metadata_State
begin

text \<open>
  Usage counters and pricing versions in \<open>InMemoryStore\<close> (\<open>metadata/src/store.rs\<close>): adding to and
  setting a counter, the range query the usage API and the settlement read, publishing a pricing
  version and reading the active one. The lemmas show that totals add up and that publishing
  switches the active price list atomically.
\<close>

section \<open>Usage counters\<close>

definition usage_add :: "inner \<Rightarrow> usage_key \<Rightarrow> nat \<Rightarrow> inner" where
  "usage_add s k delta =
    s\<lparr>usage := AList.update k
      (wrap_u64 (int (case map_of (usage s) k of Some v \<Rightarrow> v | None \<Rightarrow> 0) + int delta)) (usage s)\<rparr>"

definition usage_set :: "inner \<Rightarrow> usage_key \<Rightarrow> nat \<Rightarrow> inner" where
  "usage_set s k v = s\<lparr>usage := AList.update k v (usage s)\<rparr>"

definition bucket_of :: "usage_key \<Rightarrow> nat \<Rightarrow> usage_bucket" where
  "bucket_of k v =
    \<lparr>ub_tenant_id = uk_tenant_id k, ub_cell_id = uk_cell_id k, ub_metric = uk_metric k,
     ub_bucket_start = uk_bucket_start k, ub_value = v\<rparr>"

definition usage_match ::
  "tenant_id \<Rightarrow> database_id option \<Rightarrow> usage_metric option \<Rightarrow> int \<Rightarrow> int \<Rightarrow> usage_key \<Rightarrow> bool" where
  "usage_match t cell metric from_b to_b k \<longleftrightarrow>
    uk_tenant_id k = t
    \<and> (case cell of Some c \<Rightarrow> uk_cell_id k = Some c | None \<Rightarrow> True)
    \<and> (case metric of Some m \<Rightarrow> uk_metric k = m | None \<Rightarrow> True)
    \<and> from_b \<le> uk_bucket_start k \<and> uk_bucket_start k \<le> to_b"

definition query_usage ::
  "inner \<Rightarrow> tenant_id \<Rightarrow> database_id option \<Rightarrow> usage_metric option \<Rightarrow> int \<Rightarrow> int \<Rightarrow> usage_bucket list" where
  "query_usage s t cell metric from_b to_b =
    sort_key (\<lambda>b. (ub_bucket_start b, metric_as_str (ub_metric b), ub_cell_id b))
      (map (\<lambda>(k, v). bucket_of k v)
        (filter (\<lambda>(k, v). usage_match t cell metric from_b to_b k) (usage s)))"

section \<open>Pricing versions\<close>

definition max_version :: "(int, pricing_version) hashmap \<Rightarrow> int" where
  "max_version m = (case map fst m of [] \<Rightarrow> 0 | v # vs \<Rightarrow> fold max vs v)"

definition create_pricing_version :: "nat \<Rightarrow> inner \<Rightarrow> pricing_rule list \<Rightarrow> pricing_version \<times> inner" where
  "create_pricing_version now s rules =
    (let version = wrap_i64 (max_version (pricing_versions s) + 1);
         t = wrap_i64 (int now);
         old = map (\<lambda>(k, v). (k, v\<lparr>pv_status := PricingInactive\<rparr>)) (pricing_versions s);
         rec = \<lparr>pv_version = version, pv_status = PricingActive, pv_effective_at = t, pv_created_at = t\<rparr>
     in (rec, s\<lparr>pricing_versions := AList.update version rec old,
               pricing_rules := AList.update version rules (pricing_rules s)\<rparr>))"

definition get_active_pricing :: "inner \<Rightarrow> pricing_version \<times> pricing_rule list" where
  "get_active_pricing s =
    (case List.find (\<lambda>(v, r). pv_status r = PricingActive) (pricing_versions s) of
       Some (v, rec) \<Rightarrow> (rec, case map_of (pricing_rules s) v of Some rs \<Rightarrow> rs | None \<Rightarrow> [])
     | None \<Rightarrow>
        (\<lparr>pv_version = 0, pv_status = PricingActive, pv_effective_at = 0, pv_created_at = 0\<rparr>, []))"

definition list_pricing_versions :: "inner \<Rightarrow> pricing_version list" where
  "list_pricing_versions s = sort_key pv_version (map snd (pricing_versions s))"

section \<open>Properties of pricing versions\<close>

lemma fold_max_ge_start: "(v :: int) \<le> fold max vs v"
proof (induction vs arbitrary: v)
  case (Cons a vs)
  from Cons [of "max a v"] show ?case
    by simp
qed simp

lemma fold_max_ge: "x \<in> set vs \<Longrightarrow> (x :: int) \<le> fold max vs v"
proof (induction vs arbitrary: v)
  case (Cons a vs)
  then show ?case
    using fold_max_ge_start [of "max a v" vs] by auto
qed simp

lemma max_version_ge:
  assumes "map_of m k = Some v"
  shows "k \<le> max_version m"
proof -
  have k: "k \<in> set (map fst m)"
    using assms by (metis domI dom_map_of_conv_image_fst set_map)
  then obtain v vs where vs: "map fst m = v # vs"
    by (cases "map fst m") auto
  then have "k = v \<or> k \<in> set vs"
    using k by (metis set_ConsD)
  then show ?thesis
    unfolding max_version_def vs using fold_max_ge fold_max_ge_start by auto
qed

lemma find_all_inactive:
  "List.find (\<lambda>(v, r). pv_status r = PricingActive)
    (map (\<lambda>(k, v). (k, v\<lparr>pv_status := PricingInactive\<rparr>)) m @ [(k, rec)])
   = (if pv_status rec = PricingActive then Some (k, rec) else None)"
  by (induction m) auto

lemma create_pricing_simps:
  assumes "create_pricing_version now s rules = (rec, s')" "i64_min \<le> max_version (pricing_versions s)"
    "max_version (pricing_versions s) < i64_max"
  shows "pv_version rec = max_version (pricing_versions s) + 1" "pv_status rec = PricingActive"
    and "pricing_versions s' =
      map (\<lambda>(k, v). (k, v\<lparr>pv_status := PricingInactive\<rparr>)) (pricing_versions s) @ [(pv_version rec, rec)]"
    and "pricing_rules s' = AList.update (pv_version rec) rules (pricing_rules s)"
    and "map_of (pricing_versions s) k = Some v \<Longrightarrow> k < pv_version rec"
proof -
  let ?n = "max_version (pricing_versions s) + 1"
  let ?old = "map (\<lambda>(k, v). (k, v\<lparr>pv_status := PricingInactive\<rparr>)) (pricing_versions s)"
  have n: "wrap_i64 ?n = ?n"
    using assms(2,3) by (intro wrap_i64_id) (simp add: in_i64_def)
  show rec: "pv_version rec = ?n" "pv_status rec = PricingActive"
    using assms(1) n by (auto simp: create_pricing_version_def Let_def)
  have s': "pricing_versions s' = AList.update ?n rec ?old"
    using assms(1) n by (auto simp: create_pricing_version_def Let_def)
  show below: "k < pv_version rec" if "map_of (pricing_versions s) k = Some v" for k v
    using max_version_ge [OF that] rec(1) by simp
  have "map_of ?old ?n = None"
    using below [of ?n] rec(1) by (cases "map_of (pricing_versions s) ?n") (auto simp: map_of_map_values)
  then show "pricing_versions s' = ?old @ [(pv_version rec, rec)]"
    unfolding s' rec(1) by (rule update_fresh_key)
  show "pricing_rules s' = AList.update (pv_version rec) rules (pricing_rules s)"
    using assms(1) n rec by (auto simp: create_pricing_version_def Let_def)
qed

lemma pricing_activates:
  assumes "create_pricing_version now s rules = (rec, s')" "i64_min \<le> max_version (pricing_versions s)"
    "max_version (pricing_versions s) < i64_max"
  shows "get_active_pricing s' = (rec, rules)"
  unfolding get_active_pricing_def create_pricing_simps(3) [OF assms] find_all_inactive
  using create_pricing_simps(2,4) [OF assms] by simp

text \<open>Publishing a pricing version switches the price list atomically: the new version has a
  number above every earlier one, it and exactly its rules are what the active-pricing query returns
  from then on, every other version is inactive, and the rules of earlier versions stay as they were.\<close>

theorem pricing_switch:
  assumes "create_pricing_version now s rules = (rec, s')" "i64_min \<le> max_version (pricing_versions s)"
    "max_version (pricing_versions s) < i64_max"
  shows "(\<forall>k v. map_of (pricing_versions s) k = Some v \<longrightarrow> k < pv_version rec)
    \<and> get_active_pricing s' = (rec, rules)
    \<and> (\<forall>(k, v) \<in> set (pricing_versions s'). pv_status v = PricingActive \<longrightarrow> k = pv_version rec)
    \<and> (\<forall>k. k \<noteq> pv_version rec \<longrightarrow> map_of (pricing_rules s') k = map_of (pricing_rules s) k)"
proof (intro conjI)
  show "\<forall>k v. map_of (pricing_versions s) k = Some v \<longrightarrow> k < pv_version rec"
    using create_pricing_simps(5) [OF assms] by blast
  show "get_active_pricing s' = (rec, rules)"
    by (rule pricing_activates [OF assms])
  show "\<forall>(k, v) \<in> set (pricing_versions s'). pv_status v = PricingActive \<longrightarrow> k = pv_version rec"
    unfolding create_pricing_simps(3) [OF assms] by auto
  show "\<forall>k. k \<noteq> pv_version rec \<longrightarrow> map_of (pricing_rules s') k = map_of (pricing_rules s) k"
    unfolding create_pricing_simps(4) [OF assms] by simp
qed

theorem pricing_switch_witness:
  "\<exists>rec s'. create_pricing_version 100 inner_default [] = (rec, s') \<and> pv_version rec = 1
    \<and> get_active_pricing s' = (rec, [])"
proof -
  obtain rec s' where c: "create_pricing_version 100 inner_default [] = (rec, s')"
    by fastforce
  have "i64_min \<le> max_version (pricing_versions inner_default)" "max_version (pricing_versions inner_default) < i64_max"
    by (simp_all add: max_version_def inner_default_def i64_min_def i64_max_def)
  then have "get_active_pricing s' = (rec, [])"
    using pricing_switch [OF c] by blast
  moreover have "pv_version rec = 1"
    using c by (auto simp: create_pricing_version_def max_version_def inner_default_def wrap_i64_def Let_def)
  ultimately show ?thesis
    using c by blast
qed

section \<open>Usage totals\<close>

definition usage_total :: "inner \<Rightarrow> tenant_id \<Rightarrow> usage_metric \<Rightarrow> int \<Rightarrow> int \<Rightarrow> nat" where
  "usage_total s t m from_b to_b = sum_list (map ub_value (query_usage s t None (Some m) from_b to_b))"

lemma sum_list_insort_key: "sum_list (map f (insort_key g x xs)) = (f x :: nat) + sum_list (map f xs)"
  by (induction xs) auto

lemma sum_list_sort_key: "sum_list (map f (sort_key g xs)) = sum_list (map (f :: _ \<Rightarrow> nat) xs)"
  by (induction xs) (auto simp: sum_list_insort_key)

lemma query_usage_mem:
  assumes "distinct (map fst (usage s))"
  shows "b \<in> set (query_usage s t c m f u) \<longleftrightarrow>
    (\<exists>k v. map_of (usage s) k = Some v \<and> usage_match t c m f u k \<and> b = bucket_of k v)"
  using assms by (auto simp: query_usage_def image_iff)

definition match_value :: "(usage_key \<Rightarrow> bool) \<Rightarrow> (usage_key, nat) hashmap \<Rightarrow> nat" where
  "match_value P m = sum_list (map snd (filter (\<lambda>(k, v). P k) m))"

lemma usage_total_eq: "usage_total s t m f u = match_value (usage_match t None (Some m) f u) (usage s)"
proof -
  have "(\<lambda>x. ub_value (case x of (k, v) \<Rightarrow> bucket_of k v)) = snd"
    by (auto simp: bucket_of_def)
  then show ?thesis
    unfolding usage_total_def query_usage_def sum_list_sort_key match_value_def
    by (simp add: o_def)
qed

lemma match_value_update:
  assumes "distinct (map fst m)" "old = (case map_of m k of Some v \<Rightarrow> v | None \<Rightarrow> 0)"
  shows "match_value P (AList.update k (old + d) m) = match_value P m + (if P k then d else 0)"
  using assms
proof (induction m)
  case Nil
  then show ?case
    by (simp add: match_value_def)
next
  case (Cons x m)
  then show ?case
    by (cases x) (auto simp: match_value_def split: option.splits)
qed

text \<open>Metering adds up: adding \<open>delta\<close> to a usage key raises the total of exactly the queries
  (tenant, metric and bucket range) that cover the key, by \<open>delta\<close>, and changes no other total.\<close>

theorem usage_add_total:
  assumes "distinct (map fst (usage s))"
    "(case map_of (usage s) k of Some v \<Rightarrow> v | None \<Rightarrow> 0) + delta \<le> u64_max"
  shows "usage_total (usage_add s k delta) t m f u =
    usage_total s t m f u + (if usage_match t None (Some m) f u k then delta else 0)"
proof -
  let ?old = "case map_of (usage s) k of Some v \<Rightarrow> v | None \<Rightarrow> 0"
  have "usage (usage_add s k delta) = AList.update k (?old + delta) (usage s)"
    unfolding usage_add_def using wrap_u64_id [OF assms(2)] by simp
  then show ?thesis
    unfolding usage_total_eq using match_value_update [OF assms(1) refl] by simp
qed

definition sample_key :: "usage_metric \<Rightarrow> int \<Rightarrow> usage_key" where
  "sample_key m b = \<lparr>uk_tenant_id = TenantId 2, uk_cell_id = None, uk_metric = m, uk_bucket_start = b\<rparr>"

theorem usage_add_total_witness:
  "usage_total (usage_add (usage_add inner_default (sample_key KvRead 60) 5) (sample_key KvRead 60) 3)
    (TenantId 2) KvRead 0 60 = 8"
proof -
  have "usage_total (usage_add inner_default (sample_key KvRead 60) 5) (TenantId 2) KvRead 0 60 = 5"
    by (simp add: usage_total_eq usage_add_def match_value_def usage_match_def sample_key_def
        inner_default_def wrap_u64_def)
  then show ?thesis
    using usage_add_total [of "usage_add inner_default (sample_key KvRead 60) 5" "sample_key KvRead 60" 3
        "TenantId 2" KvRead 0 60]
    by (simp add: usage_add_def usage_match_def sample_key_def inner_default_def wrap_u64_def u64_max_def)
qed

end
