(* ===== verification/Pricing_Manager.thy ===== *)
theory Pricing_Manager
  imports Usage_Pricing
begin

text \<open>
  The pricing manager of the API server (\<open>api-server/src/pricing.rs\<close>): it caches the active price
  list, replaces it when a new valid version is published, and seeds the default storage price on a
  deployment that has none.
\<close>

section \<open>The pricing manager\<close>

text \<open>\<open>refresh\<close>: replace the cached price list when the active version is valid and different.\<close>

definition config_of :: "pricing_version \<Rightarrow> pricing_rule list \<Rightarrow> pricing_config" where
  "config_of v rules =
    \<lparr>pc_version = pv_version v, pc_effective_at = pv_effective_at v,
     pc_rules = fold (\<lambda>r m. AList.update (pr_metric r) (pr_unit_size r, pr_price_units r) m) rules []\<rparr>"

definition refresh :: "pricing_config \<Rightarrow> pricing_version \<times> pricing_rule list \<Rightarrow> bool \<times> pricing_config" where
  "refresh current active =
    (case active of (v, rules) \<Rightarrow>
      (if pv_status v \<noteq> PricingActive then (False, current)
       else if list_ex (\<lambda>r. pr_unit_size r \<le> 0 \<or> pr_price_units r \<le> 0) rules then (False, current)
       else if pc_version current = pv_version v then (False, current)
       else (True, config_of v rules)))"

text \<open>\<open>env\<close> is the value of the environment variable that overrides the default storage price.\<close>

definition seed_default_pricing :: "str option \<Rightarrow> nat \<Rightarrow> inner \<Rightarrow> inner" where
  "seed_default_pricing env now s =
    (if 0 < pv_version (fst (get_active_pricing s)) then s
     else (let price = (case Option.bind env parse_i64 of
             Some v \<Rightarrow> if 0 < v then v else DEFAULT_STORAGE_PRICE_UNITS_PER_GB_HOUR
           | None \<Rightarrow> DEFAULT_STORAGE_PRICE_UNITS_PER_GB_HOUR)
       in snd (create_pricing_version now s
            [\<lparr>pr_pricing_version = 0, pr_metric = StorageByteSecs, pr_unit_size = BYTE_SECS_PER_GB_HOUR,
              pr_price_units = price\<rparr>])))"

section \<open>Properties\<close>

definition valid_rules :: "pricing_rule list \<Rightarrow> bool" where
  "valid_rules rules \<longleftrightarrow> \<not> list_ex (\<lambda>r. pr_unit_size r \<le> 0 \<or> pr_price_units r \<le> 0) rules"

definition rule_price :: "pricing_rule list \<Rightarrow> usage_metric \<Rightarrow> (int \<times> int) option" where
  "rule_price rules m =
    map_option (\<lambda>r. (pr_unit_size r, pr_price_units r)) (List.find (\<lambda>r. pr_metric r = m) (rev rules))"


lemma config_rules: "map_of (pc_rules (config_of v rules)) m = rule_price rules m"
  by (induction rules rule: rev_induct) (auto simp: config_of_def rule_price_def)

text \<open>Prices switch without a restart and never to an invalid list: after a version is
  published, a refresh installs exactly its rules (the last rule of a metric wins) when every unit
  size and price is positive and the version differs from the cached one, and otherwise keeps the
  cached list; a second refresh changes nothing.\<close>

theorem refresh_hot_switch:
  assumes "create_pricing_version now s rules = (rec, s')" "i64_min \<le> max_version (pricing_versions s)"
    "max_version (pricing_versions s) < i64_max" "refresh current (get_active_pricing s') = (changed, cfg)"
  shows "(changed \<longleftrightarrow> valid_rules rules \<and> pc_version current \<noteq> pv_version rec)
    \<and> (changed \<longrightarrow> pc_version cfg = pv_version rec \<and> (\<forall>m. map_of (pc_rules cfg) m = rule_price rules m))
    \<and> (\<not> changed \<longrightarrow> cfg = current)
    \<and> refresh cfg (get_active_pricing s') = (False, cfg)"
proof -
  have active: "get_active_pricing s' = (rec, rules)"
    using pricing_activates [OF assms(1-3)] .
  have "pv_status rec = PricingActive"
    using assms(1) by (auto simp: create_pricing_version_def Let_def)
  moreover have "pc_version (config_of rec rules) = pv_version rec"
    by (simp add: config_of_def)
  ultimately show ?thesis
    using assms(4) config_rules unfolding active refresh_def valid_rules_def
    by (auto split: if_splits)
qed

theorem refresh_hot_switch_witness:
  "\<exists>rec s' cfg. create_pricing_version 5 inner_default
      [\<lparr>pr_pricing_version = 0, pr_metric = KvRead, pr_unit_size = 10, pr_price_units = 3\<rparr>] = (rec, s')
    \<and> refresh pricing_config_empty (get_active_pricing s') = (True, cfg) \<and> rate cfg KvRead 20 = 6"
proof -
  let ?rules = "[\<lparr>pr_pricing_version = 0, pr_metric = KvRead, pr_unit_size = 10, pr_price_units = 3\<rparr>]"
  obtain rec s' where c: "create_pricing_version 5 inner_default ?rules = (rec, s')"
    by fastforce
  obtain ch cfg where r: "refresh pricing_config_empty (get_active_pricing s') = (ch, cfg)"
    by fastforce
  have v: "pv_version rec = 1"
    using c by (auto simp: create_pricing_version_def max_version_def inner_default_def wrap_i64_def Let_def)
  have m: "i64_min \<le> max_version (pricing_versions inner_default)" "max_version (pricing_versions inner_default) < i64_max"
    by (simp_all add: max_version_def inner_default_def i64_min_def i64_max_def)
  note sw = refresh_hot_switch [OF c m r]
  have ch: "ch"
    using sw [THEN conjunct1] by (simp add: valid_rules_def pricing_config_empty_def v)
  then have "map_of (pc_rules cfg) KvRead = Some (10, 3)"
    using sw [THEN conjunct2, THEN conjunct1] by (simp add: rule_price_def)
  then have "rate cfg KvRead 20 = 6"
    by (simp add: rate_def i64_max_def)
  with c r ch show ?thesis
    by auto
qed

text \<open>seeding the default storage price is repeatable and never overrides an existing price
  list: it leaves a store with an active version alone, and after seeding once a second seeding
  changes nothing.\<close>

theorem seed_repeatable:
  assumes "0 \<le> max_version (pricing_versions s)" "max_version (pricing_versions s) < i64_max"
  shows "(0 < pv_version (fst (get_active_pricing s)) \<longrightarrow> seed_default_pricing env now s = s)
    \<and> seed_default_pricing env' now' (seed_default_pricing env now s) = seed_default_pricing env now s"
proof -
  have pos: "0 < pv_version (fst (get_active_pricing (snd (create_pricing_version now s rules))))" for rules
  proof -
    obtain rec s' where c: "create_pricing_version now s rules = (rec, s')"
      by fastforce
    have "i64_min \<le> max_version (pricing_versions s)"
      using assms(1) by (simp add: i64_min_def)
    from pricing_activates [OF c this assms(2)] have "fst (get_active_pricing s') = rec"
      by simp
    moreover have "pv_version rec = max_version (pricing_versions s) + 1"
      using c assms wrap_i64_id [of "max_version (pricing_versions s) + 1"]
      by (auto simp: create_pricing_version_def Let_def in_i64_def i64_min_def)
    ultimately show ?thesis
      using c assms(1) by simp
  qed
  then show ?thesis
    by (simp add: seed_default_pricing_def Let_def)
qed

theorem seed_repeatable_witness:
  "seed_default_pricing None 9 (seed_default_pricing (Some ''25'') 5 inner_default) =
    seed_default_pricing (Some ''25'') 5 inner_default"
  using seed_repeatable [of inner_default "Some ''25''" 5 None 9]
  by (simp add: max_version_def inner_default_def i64_max_def)

end
