(* ===== verification/Control_Records.thy ===== *)
theory Control_Records
  imports Metadata_State
begin

text \<open>
  The smaller tables of \<open>InMemoryStore\<close> (\<open>metadata/src/store.rs\<close>): tenants, API keys and their
  bootstrap, data-node registrations, leader leases, operator configuration, idempotency keys and
  the waitlist. The lemmas show that a lease has one holder until it expires, that an API key
  authenticates exactly between creation and revocation, and that bootstrapping is repeatable.
\<close>

section \<open>Tenants and API keys\<close>

definition create_tenant :: "nat \<Rightarrow> inner \<Rightarrow> tenant_id \<Rightarrow> tenant_record \<times> inner" where
  "create_tenant now s t =
    (let r = \<lparr>tr_id = t, tr_created_at = now, tr_status = ''active''\<rparr>
     in (r, s\<lparr>tenants := AList.update t r (tenants s)\<rparr>))"

definition list_tenants :: "inner \<Rightarrow> tenant_record list" where
  "list_tenants s = sort_key tr_created_at (map snd (tenants s))"

definition create_api_key ::
  "nat \<Rightarrow> uuid \<Rightarrow> inner \<Rightarrow> tenant_id \<Rightarrow> str \<Rightarrow> str \<Rightarrow> api_key_record \<times> inner" where
  "create_api_key now kid s t key_hash name =
    (let r = \<lparr>ak_id = kid, ak_tenant_id = t, ak_name = name, ak_key_hash = key_hash,
              ak_created_at = now, ak_revoked_at = None\<rparr>
     in (r, s\<lparr>api_keys := AList.update kid r (api_keys s)\<rparr>))"

definition lookup_api_key_by_hash :: "inner \<Rightarrow> str \<Rightarrow> api_key_record option" where
  "lookup_api_key_by_hash s h =
    List.find (\<lambda>k. ak_key_hash k = h \<and> ak_revoked_at k = None) (map snd (api_keys s))"

text \<open>One round of the bootstrap loop per key; each round draws a tenant, a key identifier and
  reads the clock for both records.\<close>

fun bootstrap_api_keys ::
  "(str \<Rightarrow> nat list) \<Rightarrow> inner \<Rightarrow> (str \<times> uuid \<times> uuid \<times> nat \<times> nat) list \<Rightarrow> inner" where
  "bootstrap_api_keys sha256 s [] = s"
| "bootstrap_api_keys sha256 s ((key, tid, kid, now1, now2) # keys) =
    (let h = hash sha256 key
     in if lookup_api_key_by_hash s h \<noteq> None then bootstrap_api_keys sha256 s keys
        else (let s1 = snd (create_tenant now1 s (TenantId tid));
                  s2 = snd (create_api_key now2 kid s1 (TenantId tid) h ''bootstrap'')
              in bootstrap_api_keys sha256 s2 keys))"

definition list_api_keys :: "inner \<Rightarrow> tenant_id \<Rightarrow> api_key_record list" where
  "list_api_keys s t = sort_key ak_created_at (filter (\<lambda>k. ak_tenant_id k = t) (map snd (api_keys s)))"

definition revoke_api_key :: "nat \<Rightarrow> inner \<Rightarrow> tenant_id \<Rightarrow> uuid \<Rightarrow> unit result \<times> inner" where
  "revoke_api_key now s t kid =
    (case map_of (api_keys s) kid of
       None \<Rightarrow> (Inl ApiKeyNotFound, s)
     | Some k \<Rightarrow>
        (if ak_tenant_id k \<noteq> t then (Inl ApiKeyNotFound, s)
         else (Inr (), s\<lparr>api_keys := AList.update kid (k\<lparr>ak_revoked_at := Some now\<rparr>) (api_keys s)\<rparr>)))"

section \<open>Data nodes\<close>

definition upsert_data_node :: "nat \<Rightarrow> inner \<Rightarrow> node_id \<Rightarrow> str \<Rightarrow> nat \<Rightarrow> inner" where
  "upsert_data_node now s i addr capacity =
    (let r = (case map_of (data_nodes s) i of
         Some r \<Rightarrow> r\<lparr>dn_addr := addr, dn_capacity := capacity, dn_last_heartbeat_at := now\<rparr>
       | None \<Rightarrow> \<lparr>dn_id = i, dn_addr = addr, dn_capacity = capacity, dn_active_conns = 0,
                  dn_last_heartbeat_at = now, dn_created_at = now\<rparr>)
     in s\<lparr>data_nodes := AList.update i r (data_nodes s)\<rparr>)"

definition heartbeat_data_node :: "nat \<Rightarrow> inner \<Rightarrow> node_id \<Rightarrow> nat \<Rightarrow> bool \<times> inner" where
  "heartbeat_data_node now s i active_conns =
    (case map_of (data_nodes s) i of
       None \<Rightarrow> (False, s)
     | Some r \<Rightarrow>
        (True, s\<lparr>data_nodes := AList.update i
          (r\<lparr>dn_active_conns := active_conns, dn_last_heartbeat_at := now\<rparr>) (data_nodes s)\<rparr>))"

definition unregister_data_node :: "inner \<Rightarrow> node_id \<Rightarrow> bool \<times> inner" where
  "unregister_data_node s i =
    (map_of (data_nodes s) i \<noteq> None, s\<lparr>data_nodes := AList.delete i (data_nodes s)\<rparr>)"

definition list_data_nodes :: "inner \<Rightarrow> data_node_record list" where
  "list_data_nodes s = map snd (data_nodes s)"

section \<open>Leases, configuration, idempotency keys, waitlist\<close>

definition try_acquire_lease :: "inner \<Rightarrow> str \<Rightarrow> uuid \<Rightarrow> int \<Rightarrow> int \<Rightarrow> bool \<times> inner" where
  "try_acquire_lease s name owner now ttl_secs =
    (let held = (case map_of (leases s) name of
         Some (cur, expiry) \<Rightarrow> cur = owner \<or> expiry < now
       | None \<Rightarrow> True)
     in (held, if held then s\<lparr>leases := AList.update name (owner, wrap_i64 (now + ttl_secs)) (leases s)\<rparr>
               else s))"

definition get_config :: "inner \<Rightarrow> str \<Rightarrow> str option" where
  "get_config s k = map_of (config s) k"

definition set_config :: "inner \<Rightarrow> str \<Rightarrow> str \<Rightarrow> inner" where
  "set_config s k v = s\<lparr>config := AList.update k v (config s)\<rparr>"

definition save_idempotency :: "inner \<Rightarrow> str \<Rightarrow> tenant_id \<Rightarrow> str \<Rightarrow> str option \<times> inner" where
  "save_idempotency s key t payload =
    (case map_of (idempotency s) key of
       Some (_, existing) \<Rightarrow> (Some existing, s)
     | None \<Rightarrow> (None, s\<lparr>idempotency := AList.update key (t, payload) (idempotency s)\<rparr>))"

definition create_waitlist_entry :: "inner \<Rightarrow> str \<Rightarrow> int \<Rightarrow> inner" where
  "create_waitlist_entry s email now =
    (if list_all (\<lambda>e. wl_email e \<noteq> email) (waitlist s)
     then s\<lparr>waitlist := waitlist s @ [\<lparr>wl_email = email, wl_created_at = now\<rparr>]\<rparr>
     else s)"

definition list_waitlist :: "inner \<Rightarrow> int \<Rightarrow> waitlist_entry list" where
  "list_waitlist s limit = take (nat (max 1 (min 1000 limit))) (sort_key wl_created_at (waitlist s))"

section \<open>Leases\<close>

text \<open>A sequence of attempts on one lease: owner, clock reading and time to live of each.\<close>

fun lease_attempts :: "inner \<Rightarrow> str \<Rightarrow> (uuid \<times> int \<times> int) list \<Rightarrow> bool list \<times> inner" where
  "lease_attempts s name [] = ([], s)"
| "lease_attempts s name ((owner, now, ttl) # as) =
    (let (b, s') = try_acquire_lease s name owner now ttl;
         (bs, s'') = lease_attempts s' name as
     in (b # bs, s''))"

lemma lease_refused:
  assumes "map_of (leases s) name = Some (owner, expiry)" "\<forall>(o', now, ttl) \<in> set as. o' \<noteq> owner \<and> now \<le> expiry"
  shows "lease_attempts s name as = (replicate (length as) False, s)"
  using assms(2) by (induction as) (auto simp: try_acquire_lease_def assms(1) Let_def)

text \<open>A lease has one holder: once an owner has acquired it for \<open>ttl\<close> seconds, no sequence of
  attempts by other owners whose clocks have not passed the expiry succeeds or changes the store, and
  the holder can renew at any time.\<close>

theorem lease_exclusive:
  assumes "try_acquire_lease s name owner now ttl = (True, s')" "in_i64 (now + ttl)"
    "\<forall>(o', now', ttl') \<in> set as. o' \<noteq> owner \<and> now' \<le> now + ttl"
  shows "lease_attempts s' name as = (replicate (length as) False, s')
    \<and> fst (try_acquire_lease s' name owner later ttl') = True"
proof -
  have held: "map_of (leases s') name = Some (owner, now + ttl)"
    using assms(1,2) by (auto simp: try_acquire_lease_def Let_def wrap_i64_id split: if_splits option.splits)
  then show ?thesis
    using lease_refused [OF held assms(3)] by (simp add: try_acquire_lease_def Let_def)
qed

theorem lease_exclusive_witness:
  "\<exists>s'. try_acquire_lease inner_default ''sampler'' 1 100 60 = (True, s')
    \<and> lease_attempts s' ''sampler'' [(2, 120, 60), (3, 160, 60)] = ([False, False], s')"
proof -
  obtain s' where s': "try_acquire_lease inner_default ''sampler'' 1 100 60 = (True, s')"
    by (simp add: try_acquire_lease_def inner_default_def Let_def)
  have "lease_attempts s' ''sampler'' [(2, 120, 60), (3, 160, 60)] = (replicate (length [(2 :: uuid, 120 :: int, 60 :: int), (3, 160, 60)]) False, s')"
    by (rule lease_exclusive [OF s', THEN conjunct1]) (auto simp: in_i64_def i64_min_def i64_max_def)
  with s' show ?thesis
    by simp
qed

section \<open>API keys\<close>

lemma lookup_None_iff:
  "lookup_api_key_by_hash s h = None \<longleftrightarrow>
    (\<forall>k \<in> set (map snd (api_keys s)). ak_key_hash k = h \<longrightarrow> ak_revoked_at k \<noteq> None)"
  unfolding lookup_api_key_by_hash_def find_None_iff by auto

lemma lookup_SomeD:
  "lookup_api_key_by_hash s h = Some k \<Longrightarrow>
    k \<in> set (map snd (api_keys s)) \<and> ak_key_hash k = h \<and> ak_revoked_at k = None"
  unfolding lookup_api_key_by_hash_def find_Some_iff by (metis nth_mem)

lemma find_append_single:
  "List.find P (xs @ [x]) = (case List.find P xs of Some y \<Rightarrow> Some y | None \<Rightarrow> if P x then Some x else None)"
  by (induction xs) auto

lemma create_api_key_lookup:
  assumes "map_of (api_keys s) kid = None" "create_api_key now kid s t h name = (k, s')"
  shows "lookup_api_key_by_hash s' h' =
    (case lookup_api_key_by_hash s h' of Some y \<Rightarrow> Some y | None \<Rightarrow> if h' = h then Some k else None)"
  using assms
  by (auto simp: create_api_key_def lookup_api_key_by_hash_def Let_def update_fresh_key find_append_single
      split: option.splits)

text \<open>An API key authenticates from its creation until its owner revokes it: with a fresh
  identifier and an unused hash the new key is what the hash resolves to, another tenant's attempt
  to revoke it fails without effect, and after the owner's revocation the hash resolves to nothing.\<close>

theorem api_key_lifecycle:
  assumes "distinct (map fst (api_keys s))" "map_of (api_keys s) kid = None"
    "\<forall>k \<in> set (map snd (api_keys s)). ak_key_hash k \<noteq> h"
    "create_api_key now kid s t h name = (k, s')"
  shows "lookup_api_key_by_hash s' h = Some k
    \<and> (u \<noteq> t \<longrightarrow> revoke_api_key now' s' u kid = (Inl ApiKeyNotFound, s'))
    \<and> fst (revoke_api_key now' s' t kid) = Inr ()
    \<and> lookup_api_key_by_hash (snd (revoke_api_key now' s' t kid)) h = None"
proof -
  have none: "lookup_api_key_by_hash s h = None"
    unfolding lookup_None_iff using assms(3) by auto
  have keys: "api_keys s' = api_keys s @ [(kid, k)]" and k: "ak_tenant_id k = t" "ak_key_hash k = h"
    using assms(2,4) by (auto simp: create_api_key_def Let_def update_fresh_key)
  have look: "map_of (api_keys s') kid = Some k"
    using assms(2) by (simp add: keys map_add_def)
  have "api_keys (snd (revoke_api_key now' s' t kid)) = api_keys s @ [(kid, k\<lparr>ak_revoked_at := Some now'\<rparr>)]"
    using look k update_last_key [OF assms(2)] by (simp add: revoke_api_key_def keys)
  then have "lookup_api_key_by_hash (snd (revoke_api_key now' s' t kid)) h = None"
    using none by (simp add: lookup_api_key_by_hash_def find_append_single)
  moreover have "lookup_api_key_by_hash s' h = Some k"
    using create_api_key_lookup [OF assms(2,4), of h] none by simp
  ultimately show ?thesis
    using look k by (auto simp: revoke_api_key_def)
qed

theorem api_key_lifecycle_witness:
  "\<exists>k s'. create_api_key 100 7 inner_default (TenantId 2) ''h'' ''ci'' = (k, s')
    \<and> lookup_api_key_by_hash s' ''h'' = Some k
    \<and> lookup_api_key_by_hash (snd (revoke_api_key 200 s' (TenantId 2) 7)) ''h'' = None"
proof -
  obtain k s' where c: "create_api_key 100 7 inner_default (TenantId 2) ''h'' ''ci'' = (k, s')"
    by fastforce
  then show ?thesis
    using api_key_lifecycle [OF _ _ _ c] by (simp add: inner_default_def)
qed

lemma bootstrap_step_lookup:
  assumes "map_of (api_keys s) kid = None"
  shows "lookup_api_key_by_hash (snd (create_api_key now2 kid (snd (create_tenant now1 s t)) t h n)) h' =
    (case lookup_api_key_by_hash s h' of Some y \<Rightarrow> Some y
     | None \<Rightarrow> if h' = h then Some (fst (create_api_key now2 kid (snd (create_tenant now1 s t)) t h n)) else None)"
proof -
  have s: "api_keys (snd (create_tenant now1 s t)) = api_keys s"
    by (simp add: create_tenant_def Let_def)
  then have "lookup_api_key_by_hash (snd (create_tenant now1 s t)) h' = lookup_api_key_by_hash s h'"
    by (simp add: lookup_api_key_by_hash_def)
  then show ?thesis
    using create_api_key_lookup [of "snd (create_tenant now1 s t)" kid now2 t h n _ _ h'] assms s
    by (metis prod.collapse)
qed

text \<open>The key identifiers a bootstrap draws are new and pairwise different.\<close>

definition bootstrap_fresh :: "inner \<Rightarrow> (str \<times> uuid \<times> uuid \<times> nat \<times> nat) list \<Rightarrow> bool" where
  "bootstrap_fresh s keys \<longleftrightarrow> distinct (map (\<lambda>(k, tid, kid, n1, n2). kid) keys)
    \<and> (\<forall>(k, tid, kid, n1, n2) \<in> set keys. map_of (api_keys s) kid = None)"

lemma bootstrap_finds:
  assumes "bootstrap_fresh s keys"
  shows "(lookup_api_key_by_hash s h \<noteq> None \<longrightarrow> lookup_api_key_by_hash (bootstrap_api_keys sha256 s keys) h \<noteq> None)
    \<and> (\<forall>(key, r) \<in> set keys. lookup_api_key_by_hash (bootstrap_api_keys sha256 s keys) (hash sha256 key) \<noteq> None)"
  using assms
proof (induction keys arbitrary: s h)
  case Nil
  then show ?case
    by simp
next
  case (Cons x keys)
  obtain key tid kid now1 now2 where x: "x = (key, tid, kid, now1, now2)"
    by (metis prod.collapse)
  let ?h = "hash sha256 key"
  define s2 where "s2 = snd (create_api_key now2 kid (snd (create_tenant now1 s (TenantId tid))) (TenantId tid) ?h ''bootstrap'')"
  have fresh: "map_of (api_keys s) kid = None" "bootstrap_fresh s keys" "bootstrap_fresh s2 keys"
    using Cons.prems
    by (auto simp: x bootstrap_fresh_def s2_def create_api_key_def create_tenant_def Let_def image_iff split: prod.splits)
  show ?case
  proof (cases "lookup_api_key_by_hash s ?h = None")
    case False
    then have e: "bootstrap_api_keys sha256 s (x # keys) = bootstrap_api_keys sha256 s keys"
      by (simp add: x)
    show ?thesis
      unfolding e using Cons.IH [OF fresh(2)] False by (auto simp: x)
  next
    case True
    then have e: "bootstrap_api_keys sha256 s (x # keys) = bootstrap_api_keys sha256 s2 keys"
      by (simp add: x s2_def Let_def)
    have "lookup_api_key_by_hash s2 h' \<noteq> None" if "lookup_api_key_by_hash s h' \<noteq> None \<or> h' = ?h" for h'
      using bootstrap_step_lookup [OF fresh(1), of now2 now1 "TenantId tid" ?h "''bootstrap''" h'] that
      by (auto simp: s2_def split: option.splits)
    then show ?thesis
      unfolding e using Cons.IH [OF fresh(3)] by (auto simp: x)
  qed
qed

lemma bootstrap_noop:
  "(\<forall>(key, r) \<in> set keys. lookup_api_key_by_hash s (hash sha256 key) \<noteq> None) \<Longrightarrow>
    bootstrap_api_keys sha256 s keys = s"
  by (induction sha256 s keys rule: bootstrap_api_keys.induct) auto

text \<open>Bootstrapping the configured API keys makes every one of them authenticate, keeps the keys
  that already did, and is repeatable: running it again with the same keys changes nothing.\<close>

theorem bootstrap_repeatable:
  assumes "bootstrap_fresh s keys" "s' = bootstrap_api_keys sha256 s keys" "map fst keys' = map fst keys"
  shows "(\<forall>(key, r) \<in> set keys. lookup_api_key_by_hash s' (hash sha256 key) \<noteq> None)
    \<and> (lookup_api_key_by_hash s h \<noteq> None \<longrightarrow> lookup_api_key_by_hash s' h \<noteq> None)
    \<and> bootstrap_api_keys sha256 s' keys' = s'"
proof -
  have f: "\<forall>(key, r) \<in> set keys. lookup_api_key_by_hash s' (hash sha256 key) \<noteq> None"
    using bootstrap_finds [OF assms(1)] assms(2) by blast
  have "\<forall>(key, r) \<in> set keys'. lookup_api_key_by_hash s' (hash sha256 key) \<noteq> None"
  proof (rule ballI, rule prod.split [THEN iffD2], intro allI impI)
    fix x key r
    assume "x \<in> set keys'" "x = (key, r)"
    then have "key \<in> fst ` set keys"
      using assms(3) by (metis fst_conv image_eqI image_set)
    with f show "lookup_api_key_by_hash s' (hash sha256 key) \<noteq> None"
      by auto
  qed
  then show ?thesis
    using f bootstrap_finds [OF assms(1), of h sha256] assms(2) bootstrap_noop by blast
qed

theorem bootstrap_repeatable_witness:
  "\<exists>s'. s' = bootstrap_api_keys (\<lambda>k. map of_char k) inner_default [(''a'', 1, 2, 3, 3), (''b'', 4, 5, 6, 6)]
    \<and> lookup_api_key_by_hash s' (hash (\<lambda>k. map of_char k) ''b'') \<noteq> None
    \<and> bootstrap_api_keys (\<lambda>k. map of_char k) s' [(''a'', 7, 8, 9, 9), (''b'', 10, 11, 12, 12)] = s'"
  using bootstrap_repeatable [of inner_default "[(''a'', 1, 2, 3, 3), (''b'', 4, 5, 6, 6)]" _
      "\<lambda>k. map of_char k" "[(''a'', 7, 8, 9, 9), (''b'', 10, 11, 12, 12)]"]
  by (auto simp: bootstrap_fresh_def inner_default_def simp del: bootstrap_api_keys.simps)

end
