(* ===== verification/Settlement.thy ===== *)
theory Settlement
  imports Ledger Pricing_Manager Control_Records
begin

text \<open>
  Turning usage into charges (\<open>api-server/src/settlement.rs\<close>): one settlement pass. It is written over the three metadata methods it calls (listing tenants, querying
  usage, appending a transaction), which are arguments, so that the lemmas of the \<open>ledger\<close>
  interface apply; the properties are stated for the in-memory store.
\<close>

section \<open>One settlement pass\<close>

definition settle_reference :: "(uuid \<Rightarrow> str) \<Rightarrow> tenant_id \<Rightarrow> usage_metric \<Rightarrow> int \<Rightarrow> int \<Rightarrow> str" where
  "settle_reference sh t m lastb version =
    ''usage:'' @ sh (tenant_uuid t) @ '':'' @ metric_as_str m @ '':'' @ show_int lastb @ '':'' @ show_int version"

definition settle_txn ::
  "(uuid \<Rightarrow> str) \<Rightarrow> pricing_config \<Rightarrow> uuid \<Rightarrow> tenant_id \<Rightarrow> usage_metric \<Rightarrow> nat \<Rightarrow> int \<Rightarrow> int \<Rightarrow> credit_transaction" where
  "settle_txn sh cfg i t m amount lastb now =
    \<lparr>ct_id = i, ct_tenant_id = t, ct_txn_type = Usage,
     ct_amount_units = - rate cfg m amount,
     ct_pricing_version = Some (pc_version cfg),
     ct_reference_id = Some (settle_reference sh t m lastb (pc_version cfg)),
     ct_description = Some (''usage '' @ metric_as_str m @ ''('' @ show_nat amount @ '')''),
     ct_created_at = now, ct_balance_after = None\<rparr>"

text \<open>The per-metric sums over the cells of a tenant, accumulated in \<open>u64\<close>.\<close>

definition by_metric :: "usage_bucket list \<Rightarrow> (usage_metric, nat) hashmap" where
  "by_metric buckets =
    fold (\<lambda>b m. AList.update (ub_metric b)
      (wrap_u64 (int (case map_of m (ub_metric b) of Some v \<Rightarrow> v | None \<Rightarrow> 0) + int (ub_value b))) m) buckets []"

text \<open>A metric is charged when it is not the storage snapshot and its price is not zero.\<close>

definition charged :: "pricing_config \<Rightarrow> usage_metric \<times> nat \<Rightarrow> bool" where
  "charged cfg mt \<longleftrightarrow> fst mt \<noteq> StorageBytes \<and> rate cfg (fst mt) (snd mt) \<noteq> 0"

text \<open>The loop over a tenant's metrics; \<open>fresh n\<close> is the \<open>n\<close>-th identifier the pass draws.\<close>

fun settle_metrics ::
  "('s \<Rightarrow> credit_transaction \<Rightarrow> credit_transaction result \<times> 's) \<Rightarrow> (uuid \<Rightarrow> str) \<Rightarrow> (nat \<Rightarrow> uuid)
    \<Rightarrow> pricing_config \<Rightarrow> tenant_id \<Rightarrow> int \<Rightarrow> int \<Rightarrow> (usage_metric \<times> nat) list \<Rightarrow> nat \<times> nat \<times> 's \<Rightarrow> nat \<times> nat \<times> 's" where
  "settle_metrics book_entry sh fresh cfg t lastb now [] st = st"
| "settle_metrics book_entry sh fresh cfg t lastb now ((m, amount) # ms) (written, drawn, s) =
    (if \<not> charged cfg (m, amount) then settle_metrics book_entry sh fresh cfg t lastb now ms (written, drawn, s)
     else (case book_entry s (settle_txn sh cfg (fresh drawn) t m amount lastb now) of
         (Inr entry, s') \<Rightarrow> settle_metrics book_entry sh fresh cfg t lastb now ms (Suc written, Suc drawn, s')
       | (Inl e, s') \<Rightarrow> settle_metrics book_entry sh fresh cfg t lastb now ms (written, Suc drawn, s')))"

fun settle_tenants ::
  "('s \<Rightarrow> tenant_id \<Rightarrow> int \<Rightarrow> int \<Rightarrow> usage_bucket list result)
    \<Rightarrow> ('s \<Rightarrow> credit_transaction \<Rightarrow> credit_transaction result \<times> 's) \<Rightarrow> (uuid \<Rightarrow> str) \<Rightarrow> (nat \<Rightarrow> uuid)
    \<Rightarrow> pricing_config \<Rightarrow> int \<Rightarrow> int \<Rightarrow> int \<Rightarrow> tenant_id list \<Rightarrow> nat \<times> nat \<times> 's \<Rightarrow> (nat \<times> nat) result \<times> 's" where
  "settle_tenants query book_entry sh fresh cfg lastb to_b now [] (written, drawn, s) = (Inr (written, drawn), s)"
| "settle_tenants query book_entry sh fresh cfg lastb to_b now (t # ts) (written, drawn, s) =
    (case query s t lastb to_b of
       Inl e \<Rightarrow> (Inl e, s)
     | Inr buckets \<Rightarrow>
         settle_tenants query book_entry sh fresh cfg lastb to_b now ts
           (settle_metrics book_entry sh fresh cfg t lastb now (by_metric buckets) (written, drawn, s)))"

definition tenants_to_settle :: "tenant_record list \<Rightarrow> tenant_id list" where
  "tenants_to_settle recs =
    map tr_id recs @ (if list_ex (\<lambda>r. tr_id r = DEFAULT_TENANT) recs then [] else [DEFAULT_TENANT])"

text \<open>
  The result is the number of entries written or the error, the new watermark, and the store.
  \<open>last_settled\<close> is the watermark kept in memory, 0 after a start.
\<close>

definition settle_once ::
  "('s \<Rightarrow> tenant_record list result) \<Rightarrow> ('s \<Rightarrow> tenant_id \<Rightarrow> int \<Rightarrow> int \<Rightarrow> usage_bucket list result)
    \<Rightarrow> ('s \<Rightarrow> credit_transaction \<Rightarrow> credit_transaction result \<times> 's) \<Rightarrow> (uuid \<Rightarrow> str) \<Rightarrow> (nat \<Rightarrow> uuid)
    \<Rightarrow> pricing_config \<Rightarrow> int \<Rightarrow> int \<Rightarrow> 's \<Rightarrow> nat result \<times> int \<times> 's" where
  "settle_once list_t query book_entry sh fresh cfg now last_settled s =
    (let current_bucket = bucket_start now;
         lastb = (if last_settled = 0 then wrap_i64 (current_bucket - 60) else last_settled)
     in if current_bucket \<le> lastb then (Inr 0, last_settled, s)
        else (case list_t s of
            Inl e \<Rightarrow> (Inl e, last_settled, s)
          | Inr recs \<Rightarrow>
             (case settle_tenants query book_entry sh fresh cfg lastb (wrap_i64 (current_bucket - 60)) now
                     (tenants_to_settle recs) (0, 0, s) of
                (Inl e, s') \<Rightarrow> (Inl e, last_settled, s')
              | (Inr (written, drawn), s') \<Rightarrow> (Inr written, current_bucket, s'))))"

text \<open>The pass over the in-memory store, whose three methods cannot fail.\<close>

definition mem_settle_once ::
  "(uuid \<Rightarrow> str) \<Rightarrow> (nat \<Rightarrow> uuid) \<Rightarrow> pricing_config \<Rightarrow> int \<Rightarrow> int \<Rightarrow> inner \<Rightarrow> nat result \<times> int \<times> inner" where
  "mem_settle_once sh fresh cfg now =
    settle_once (\<lambda>s. Inr (list_tenants s)) (\<lambda>s t f u. Inr (query_usage s t None None f u))
      (append_credit_transaction (nat now) (nat now)) sh fresh cfg now"

section \<open>Appending a batch\<close>

text \<open>A ledger whose appends do not fail, and what it does with a batch of referenced entries.\<close>

definition append_all ::
  "('s \<Rightarrow> credit_transaction \<Rightarrow> credit_transaction result \<times> 's) \<Rightarrow> credit_transaction list \<Rightarrow> 's \<Rightarrow> 's" where
  "append_all book_entry xs s = fold (\<lambda>x s. snd (book_entry s x)) xs s"

definition referenced :: "credit_transaction list \<Rightarrow> bool" where
  "referenced xs \<longleftrightarrow> (\<forall>x \<in> set xs. ct_reference_id x \<noteq> None)"

lemma append_all_simps [simp]:
  "append_all f [] s = s"
  "append_all f (x # xs) s = append_all f xs (snd (f s x))"
  "append_all f (xs @ ys) s = append_all f ys (append_all f xs s)"
  by (simp_all add: append_all_def)

locale reliable_ledger = ledger +
  assumes append_ok: "\<exists>y. fst (append s x) = Inr y"
begin

lemma append_all_noop:
  "(\<And>x. x \<in> set xs \<Longrightarrow> \<exists>ref y. ct_reference_id x = Some ref \<and> find_ref s ref = Some y) \<Longrightarrow>
    append_all append xs s = s"
proof (induction xs)
  case (Cons x xs)
  obtain ref y where "ct_reference_id x = Some ref" "find_ref s ref = Some y"
    using Cons.prems [of x] by auto
  then have "append s x = (Inr y, s)"
    by (simp add: append_dup)
  with Cons show ?case
    by simp
qed simp

lemma append_books:
  assumes "good s" "fresh s (ct_id x)" "ct_reference_id x = Some ref"
  shows "find_ref (snd (append s x)) ref \<noteq> None"
proof -
  obtain y s' where a: "append s x = (Inr y, s')"
    using append_ok [of s x] by (metis prod.collapse)
  show ?thesis
    using append_new [OF assms _ a] append_dup [OF _ assms(3)] a by (cases "find_ref s ref") auto
qed

lemma append_all_inv:
  assumes "good s" "referenced xs" "distinct (map ct_id xs)" "\<forall>x \<in> set xs. fresh s (ct_id x)"
  shows "good (append_all append xs s)"
    and "find_ref s k = Some y \<Longrightarrow> find_ref (append_all append xs s) k = Some y"
    and "x \<in> set xs \<Longrightarrow> ct_reference_id x = Some ref \<Longrightarrow> find_ref (append_all append xs s) ref \<noteq> None"
    and "i \<notin> ct_id ` set xs \<Longrightarrow> fresh s i \<Longrightarrow> fresh (append_all append xs s) i"
proof -
  have "good (append_all append xs s)
      \<and> (find_ref s k = Some y \<longrightarrow> find_ref (append_all append xs s) k = Some y)
      \<and> (x \<in> set xs \<and> ct_reference_id x = Some ref \<longrightarrow> find_ref (append_all append xs s) ref \<noteq> None)
      \<and> (i \<notin> ct_id ` set xs \<and> fresh s i \<longrightarrow> fresh (append_all append xs s) i)"
    using assms
  proof (induction xs arbitrary: s y k)
    case (Cons a xs)
    obtain r s' where a: "append s a = (r, s')"
      by fastforce
    obtain aref where aref: "ct_reference_id a = Some aref"
      using Cons.prems(2) by (auto simp: referenced_def)
    note keep = append_keeps [OF Cons.prems(1) _ aref a]
    have fresh_a: "fresh s (ct_id a)"
      using Cons.prems(4) by simp
    have "\<forall>x \<in> set xs. ct_id x \<noteq> ct_id a"
      using Cons.prems(3) by (force simp: image_iff)
    then have prems: "good s'" "referenced xs" "distinct (map ct_id xs)" "\<forall>x \<in> set xs. fresh s' (ct_id x)"
      using keep(1,3) fresh_a Cons.prems(2-4) by (auto simp: referenced_def)
    have booked: "find_ref s' aref \<noteq> None"
      using append_books [OF Cons.prems(1) fresh_a aref] a by simp
    show ?case
      using Cons.IH [OF prems] keep(2,3) fresh_a booked aref a by auto
  qed simp
  then show "good (append_all append xs s)"
    "find_ref s k = Some y \<Longrightarrow> find_ref (append_all append xs s) k = Some y"
    "x \<in> set xs \<Longrightarrow> ct_reference_id x = Some ref \<Longrightarrow> find_ref (append_all append xs s) ref \<noteq> None"
    "i \<notin> ct_id ` set xs \<Longrightarrow> fresh s i \<Longrightarrow> fresh (append_all append xs s) i"
    by auto
qed

lemma append_all_frame:
  assumes "good s" "referenced xs" "distinct (map ct_id xs)" "\<forall>x \<in> set xs. fresh s (ct_id x)"
    "find_ref s k = None" "\<forall>x \<in> set xs. ct_reference_id x \<noteq> Some k"
  shows "find_ref (append_all append xs s) k = None"
  using assms
proof (induction xs arbitrary: s)
  case (Cons a xs)
  obtain y s' where a: "append s a = (Inr y, s')"
    using append_ok [of s a] by (metis prod.collapse)
  obtain aref where aref: "ct_reference_id a = Some aref"
    using Cons.prems(2) by (auto simp: referenced_def)
  have fresh_a: "fresh s (ct_id a)"
    using Cons.prems(4) by simp
  note keep = append_keeps [OF Cons.prems(1) fresh_a aref a]
  have ne: "\<forall>x \<in> set xs. ct_id x \<noteq> ct_id a"
    using Cons.prems(3) by (force simp: image_iff)
  have "find_ref s' k = None"
    using append_new [OF Cons.prems(1) fresh_a aref _ a] append_dup [OF _ aref] a Cons.prems(5,6) aref
    by (cases "find_ref s aref") auto
  with Cons keep ne a show ?case
    by (auto simp: referenced_def)
qed simp

text \<open>A batch that was booked once is booked for good: every later batch under the same references
  leaves the store as it is.\<close>

lemma append_all_replay:
  assumes "good s" "referenced xs" "distinct (map ct_id xs)" "\<forall>x \<in> set xs. fresh s (ct_id x)"
    "\<forall>y \<in> set ys. ct_reference_id y \<in> ct_reference_id ` set xs"
  shows "append_all append ys (append_all append xs s) = append_all append xs s"
proof (rule append_all_noop)
  fix y
  assume "y \<in> set ys"
  then obtain x where x: "x \<in> set xs" "ct_reference_id y = ct_reference_id x"
    using assms(5) by auto
  then obtain ref where ref: "ct_reference_id x = Some ref"
    using assms(2) by (auto simp: referenced_def)
  show "\<exists>ref z. ct_reference_id y = Some ref \<and> find_ref (append_all append xs s) ref = Some z"
    using append_all_inv(3) [OF assms(1-4) x(1) ref] x(2) ref by auto
qed

text \<open>A batch of new debits lowers each balance by the sum of its entries.\<close>

lemma append_all_balance:
  assumes "good s" "referenced xs" "distinct (map ct_id xs)" "\<forall>x \<in> set xs. fresh s (ct_id x)"
    "distinct (map ct_reference_id xs)"
    "\<forall>x \<in> set xs. \<forall>ref. ct_reference_id x = Some ref \<longrightarrow> find_ref s ref = None"
    "\<forall>x \<in> set xs. ct_amount_units x \<le> 0"
    "i64_min \<le> balance s t + sum_list (map ct_amount_units (filter (\<lambda>x. ct_tenant_id x = t) xs))"
    "balance s t \<le> i64_max"
  shows "balance (append_all append xs s) t =
    balance s t + sum_list (map ct_amount_units (filter (\<lambda>x. ct_tenant_id x = t) xs))"
  using assms
proof (induction xs arbitrary: s)
  case (Cons a xs)
  obtain y s' where a: "append s a = (Inr y, s')"
    using append_ok [of s a] by (metis prod.collapse)
  obtain aref where aref: "ct_reference_id a = Some aref" "find_ref s aref = None"
    using Cons.prems(2,6) by (auto simp: referenced_def)
  have fresh_a: "fresh s (ct_id a)"
    using Cons.prems(4) by simp
  note new = append_new [OF Cons.prems(1) fresh_a aref a]
  let ?rest = "sum_list (map ct_amount_units (filter (\<lambda>x. ct_tenant_id x = t) xs))"
  have le: "?rest \<le> 0"
    using Cons.prems(7) by (intro sum_list_nonpos) auto
  have bal: "balance s' t = balance s t + (if ct_tenant_id a = t then ct_amount_units a else 0)"
  proof (cases "ct_tenant_id a = t")
    case True
    have "in_i64 (balance s t + ct_amount_units a)"
      using Cons.prems(7-9) le True by (simp add: in_i64_def)
    then show ?thesis
      using new True by (simp add: saturating_add_i64_exact)
  next
    case False
    then show ?thesis
      using new by simp
  qed
  have ne: "\<forall>x \<in> set xs. ct_id x \<noteq> ct_id a \<and> ct_reference_id x \<noteq> Some aref"
    using Cons.prems(3,5) aref(1) by (force simp: image_iff)
  have "balance (append_all append xs s') t = balance s' t + ?rest"
  proof (rule Cons.IH)
    show "\<forall>x \<in> set xs. fresh s' (ct_id x)"
      using Cons.prems(4) new ne by auto
    show "\<forall>x \<in> set xs. \<forall>ref. ct_reference_id x = Some ref \<longrightarrow> find_ref s' ref = None"
      using Cons.prems(6) new ne by auto
    show "i64_min \<le> balance s' t + ?rest" "balance s' t \<le> i64_max"
      using Cons.prems(7-9) bal by (auto split: if_splits)
  qed (use Cons.prems new in \<open>auto simp: referenced_def\<close>)
  then show ?case
    using bal a by simp
qed simp

end

interpretation mem_books: reliable_ledger ledger_inv fresh_txn "append_credit_transaction n1 n2"
  find_transaction_by_reference balance_of
  by unfold_locales
    (auto simp: append_credit_transaction_def map_prod_def split: option.splits prod.splits)

section \<open>The pass as one batch\<close>

text \<open>The entries a pass tries to book, as a function of the store it starts from.\<close>

fun settle_list ::
  "(uuid \<Rightarrow> str) \<Rightarrow> (nat \<Rightarrow> uuid) \<Rightarrow> pricing_config \<Rightarrow> tenant_id \<Rightarrow> int \<Rightarrow> int \<Rightarrow> (usage_metric \<times> nat) list
    \<Rightarrow> nat \<Rightarrow> credit_transaction list" where
  "settle_list sh fresh cfg t lastb now [] d = []"
| "settle_list sh fresh cfg t lastb now ((m, amount) # ms) d =
    (if \<not> charged cfg (m, amount) then settle_list sh fresh cfg t lastb now ms d
     else settle_txn sh cfg (fresh d) t m amount lastb now # settle_list sh fresh cfg t lastb now ms (Suc d))"

fun pass_list ::
  "(tenant_id \<Rightarrow> (usage_metric \<times> nat) list) \<Rightarrow> (uuid \<Rightarrow> str) \<Rightarrow> (nat \<Rightarrow> uuid) \<Rightarrow> pricing_config \<Rightarrow> int \<Rightarrow> int
    \<Rightarrow> tenant_id list \<Rightarrow> nat \<Rightarrow> credit_transaction list" where
  "pass_list ms sh fresh cfg lastb now [] d = []"
| "pass_list ms sh fresh cfg lastb now (t # ts) d =
    (let L = settle_list sh fresh cfg t lastb now (ms t) d
     in L @ pass_list ms sh fresh cfg lastb now ts (d + length L))"

lemma settle_metrics_eq:
  assumes "\<And>s x. \<exists>y. fst (app s x) = Inr y"
  shows "settle_metrics app sh fresh cfg t lastb now ms (w, d, s) =
    (let L = settle_list sh fresh cfg t lastb now ms d in (w + length L, d + length L, append_all app L s))"
proof (induction ms arbitrary: w d s)
  case (Cons x ms)
  obtain m amount where x: "x = (m, amount)"
    by fastforce
  obtain y s' where "app s (settle_txn sh cfg (fresh d) t m amount lastb now) = (Inr y, s')"
    using assms by (metis prod.collapse)
  with Cons show ?case
    by (simp add: x Let_def)
qed simp

lemma append_usage [simp]: "usage (snd (append_credit_transaction n1 n2 s x)) = usage s"
  by (simp add: append_credit_transaction_def book_def Let_def map_prod_def split: option.splits prod.splits)

lemma append_all_usage [simp]: "usage (append_all (append_credit_transaction n1 n2) xs s) = usage s"
  by (induction xs arbitrary: s) simp_all

lemma append_tenants [simp]: "tenants (snd (append_credit_transaction n1 n2 s x)) = tenants s"
  by (simp add: append_credit_transaction_def book_def Let_def map_prod_def split: option.splits prod.splits)

lemma append_all_tenants [simp]: "tenants (append_all (append_credit_transaction n1 n2) xs s) = tenants s"
  by (induction xs arbitrary: s) simp_all

lemma append_all_query [simp]:
  "query_usage (append_all (append_credit_transaction n1 n2) xs s) t c m f u = query_usage s t c m f u"
  by (simp add: query_usage_def)

definition window_metrics :: "inner \<Rightarrow> int \<Rightarrow> int \<Rightarrow> tenant_id \<Rightarrow> (usage_metric \<times> nat) list" where
  "window_metrics s lastb to_b t = by_metric (query_usage s t None None lastb to_b)"

lemma settle_tenants_eq:
  "settle_tenants (\<lambda>s t f u. Inr (query_usage s t None None f u)) (append_credit_transaction n1 n2)
      sh fresh cfg lastb to_b now ts (w, d, s) =
    (let L = pass_list (window_metrics s lastb to_b) sh fresh cfg lastb now ts d
     in (Inr (w + length L, d + length L), append_all (append_credit_transaction n1 n2) L s))"
proof (induction ts arbitrary: w d s)
  case (Cons t ts)
  let ?L = "settle_list sh fresh cfg t lastb now (window_metrics s lastb to_b t) d"
  let ?s = "append_all (append_credit_transaction n1 n2) ?L s"
  have w: "window_metrics ?s lastb to_b = window_metrics s lastb to_b"
    by (simp add: window_metrics_def fun_eq_iff)
  have step: "settle_metrics (append_credit_transaction n1 n2) sh fresh cfg t lastb now
      (by_metric (query_usage s t None None lastb to_b)) (w, d, s) = (w + length ?L, d + length ?L, ?s)"
    using settle_metrics_eq [OF mem_books.append_ok] by (simp add: Let_def window_metrics_def)
  show ?case
    using Cons [of "w + length ?L" "d + length ?L" ?s]
    by (simp add: step w Let_def add.assoc)
qed simp

lemma settle_list_ids:
  "map ct_id (settle_list sh fresh cfg t lastb now ms d) =
    map fresh [d..<d + length (settle_list sh fresh cfg t lastb now ms d)]"
proof (induction ms arbitrary: d)
  case (Cons x ms)
  obtain m amount where x: "x = (m, amount)"
    by fastforce
  show ?case
    using Cons [of "Suc d"] Cons [of d]
    by (simp add: x settle_txn_def upt_conv_Cons del: upt_Suc)
qed simp

lemma pass_list_ids:
  "map ct_id (pass_list ms sh fresh cfg lastb now ts d) =
    map fresh [d..<d + length (pass_list ms sh fresh cfg lastb now ts d)]"
proof (induction ts arbitrary: d)
  case (Cons t ts)
  let ?n = "length (settle_list sh fresh cfg t lastb now (ms t) d)"
  let ?m = "length (pass_list ms sh fresh cfg lastb now ts (d + ?n))"
  have "[d..<d + (?n + ?m)] = [d..<d + ?n] @ [d + ?n..<d + ?n + ?m]"
    by (metis add.assoc le_add1 upt_add_eq_append)
  then show ?case
    using Cons [of "d + ?n"] settle_list_ids [of sh fresh cfg t lastb now "ms t" d]
    by (simp add: Let_def)
qed simp

lemma settle_list_mem:
  "x \<in> set (settle_list sh fresh cfg t lastb now ms d) \<Longrightarrow>
    \<exists>m a i. (m, a) \<in> set ms \<and> charged cfg (m, a) \<and> x = settle_txn sh cfg i t m a lastb now"
proof (induction ms arbitrary: d)
  case (Cons y ms)
  obtain m a where y: "y = (m, a)"
    by fastforce
  show ?case
  proof (cases "\<exists>d. x \<in> set (settle_list sh fresh cfg t lastb now ms d)")
    case True
    then show ?thesis
      using Cons.IH by (metis list.set_intros(2))
  next
    case False
    then show ?thesis
      using Cons.prems by (auto simp: y split: if_splits)
  qed
qed simp

lemma settle_list_refs:
  "map ct_reference_id (settle_list sh fresh cfg t lastb now ms d) =
    map (\<lambda>(m, a). Some (settle_reference sh t m lastb (pc_version cfg))) (filter (charged cfg) ms)"
  by (induction ms arbitrary: d) (auto simp: settle_txn_def)

lemma pass_list_refs:
  "map ct_reference_id (pass_list ms sh fresh cfg lastb now ts d) =
    concat (map (\<lambda>t. map (\<lambda>(m, a). Some (settle_reference sh t m lastb (pc_version cfg)))
      (filter (charged cfg) (ms t))) ts)"
  by (induction ts arbitrary: d) (auto simp: Let_def settle_list_refs)

lemma pass_list_mem:
  "x \<in> set (pass_list ms sh fresh cfg lastb now ts d) \<Longrightarrow>
    \<exists>t \<in> set ts. \<exists>m a i. (m, a) \<in> set (ms t) \<and> charged cfg (m, a) \<and> x = settle_txn sh cfg i t m a lastb now"
proof (induction ts arbitrary: d)
  case (Cons t ts)
  then show ?case
    using settle_list_mem [of x sh fresh cfg t lastb now "ms t" d] by (fastforce simp: Let_def)
qed simp

section \<open>Repeating a pass\<close>

definition window_start :: "int \<Rightarrow> int \<Rightarrow> int" where
  "window_start last_settled now =
    (if last_settled = 0 then wrap_i64 (bucket_start now - 60) else last_settled)"

abbreviation pass_entries ::
  "(uuid \<Rightarrow> str) \<Rightarrow> (nat \<Rightarrow> uuid) \<Rightarrow> pricing_config \<Rightarrow> int \<Rightarrow> int \<Rightarrow> inner \<Rightarrow> credit_transaction list" where
  "pass_entries sh fresh cfg now last_settled s \<equiv>
    pass_list (window_metrics s (window_start last_settled now) (wrap_i64 (bucket_start now - 60)))
      sh fresh cfg (window_start last_settled now) now (tenants_to_settle (list_tenants s)) 0"

lemma mem_settle_once_eq:
  "mem_settle_once sh fresh cfg now last_settled s =
    (if bucket_start now \<le> window_start last_settled now then (Inr 0, last_settled, s)
     else (let L = pass_entries sh fresh cfg now last_settled s
           in (Inr (length L), bucket_start now, append_all (append_credit_transaction (nat now) (nat now)) L s)))"
  by (simp add: mem_settle_once_def settle_once_def settle_tenants_eq window_start_def Let_def)

text \<open>The identifiers a pass draws are pairwise different and not in use.\<close>

definition ids_fresh :: "(nat \<Rightarrow> uuid) \<Rightarrow> nat \<Rightarrow> inner \<Rightarrow> bool" where
  "ids_fresh fresh n s \<longleftrightarrow> distinct (map fresh [0..<n]) \<and> list_all (\<lambda>i. fresh_txn s (fresh i)) [0..<n]"

lemma pass_list_fresh:
  assumes "ids_fresh fresh (length (pass_list ms sh fresh cfg lastb now ts 0)) s"
  shows "referenced (pass_list ms sh fresh cfg lastb now ts 0)"
    and "distinct (map ct_id (pass_list ms sh fresh cfg lastb now ts 0))"
    and "\<forall>x \<in> set (pass_list ms sh fresh cfg lastb now ts 0). fresh_txn s (ct_id x)"
proof -
  let ?L = "pass_list ms sh fresh cfg lastb now ts 0"
  have ids: "map ct_id ?L = map fresh [0..<length ?L]"
    using pass_list_ids [of ms sh fresh cfg lastb now ts 0] by simp
  then show "distinct (map ct_id ?L)"
    using assms by (simp add: ids_fresh_def)
  show "referenced ?L"
    unfolding referenced_def using pass_list_mem by (fastforce simp: settle_txn_def)
  have "ct_id x \<in> fresh ` {0..<length ?L}" if "x \<in> set ?L" for x
    using that ids by (metis image_eqI list.set_map set_upt)
  then show "\<forall>x \<in> set ?L. fresh_txn s (ct_id x)"
    using assms unfolding ids_fresh_def list_all_iff set_upt by (metis imageE)
qed

text \<open>C14: Running a pass again from the same watermark within the same minute, as after a crash before
  the new watermark was kept, charges nobody twice: a second pass over an already settled window leaves the whole
  store unchanged, whatever identifiers it draws.\<close>

theorem settle_repeat_no_charge:
  assumes "ledger_inv s" "mem_settle_once sh fresh cfg now last_settled s = (r, wm, s')"
    "ids_fresh fresh (length (pass_entries sh fresh cfg now last_settled s)) s"
    "bucket_start now' = bucket_start now"
  shows "\<exists>r' wm'. mem_settle_once sh fresh' cfg now' last_settled s' = (r', wm', s')"
proof (cases "bucket_start now \<le> window_start last_settled now")
  case True
  moreover have "bucket_start now' \<le> window_start last_settled now'"
    using True unfolding window_start_def assms(4) .
  ultimately show ?thesis
    using assms(2) by (simp add: mem_settle_once_eq)
next
  case False
  let ?app = "append_credit_transaction (nat now) (nat now)"
  let ?L = "pass_entries sh fresh cfg now last_settled s"
  have w: "window_start last_settled now' = window_start last_settled now"
    using assms(4) by (simp add: window_start_def)
  have s': "s' = append_all ?app ?L s"
    using assms(2) False unfolding mem_settle_once_eq Let_def by auto
  let ?L' = "pass_entries sh fresh' cfg now' last_settled s'"
  have "window_metrics s' = window_metrics s" "list_tenants s' = list_tenants s"
    unfolding s' by (simp_all add: fun_eq_iff window_metrics_def list_tenants_def)
  then have refs: "ct_reference_id ` set ?L' = ct_reference_id ` set ?L"
    unfolding set_map [symmetric] pass_list_refs w assms(4) by simp
  note batch = pass_list_fresh [OF assms(3)]
  have booked: "\<exists>ref y. ct_reference_id x = Some ref \<and> find_transaction_by_reference s' ref = Some y"
    if "x \<in> set ?L'" for x
  proof -
    have "ct_reference_id x \<in> ct_reference_id ` set ?L"
      using imageI [OF that, of ct_reference_id] unfolding refs .
    then obtain z where z: "ct_reference_id x = ct_reference_id z" "z \<in> set ?L"
      by (rule imageE)
    have "ct_reference_id z \<noteq> None"
      using batch(1) z(2) unfolding referenced_def by (rule bspec)
    then obtain ref where ref: "ct_reference_id z = Some ref"
      by (cases "ct_reference_id z") simp_all
    have "find_transaction_by_reference s' ref \<noteq> None"
      unfolding s' by (rule mem_books.append_all_inv(3) [OF assms(1) batch z(2) ref])
    then show ?thesis
      using z(1) ref by (cases "find_transaction_by_reference s' ref") simp_all
  qed
  have "append_all (append_credit_transaction (nat now') (nat now')) ?L' s' = s'"
    using booked by (rule mem_books.append_all_noop)
  moreover have "mem_settle_once sh fresh' cfg now' last_settled s' =
      (Inr (length ?L'), bucket_start now', append_all (append_credit_transaction (nat now') (nat now')) ?L' s')"
    using False unfolding mem_settle_once_eq Let_def w assms(4) by simp
  ultimately show ?thesis
    by simp
qed

definition settle_example :: inner where
  "settle_example = inner_default
    \<lparr>tenants := [(TenantId 2, \<lparr>tr_id = TenantId 2, tr_created_at = 0, tr_status = ''active''\<rparr>)],
     usage := [(sample_key KvRead 0, 4), (sample_key KvRead 60, 3)]\<rparr>"

definition settle_pricing :: pricing_config where
  "settle_pricing = \<lparr>pc_version = 1, pc_effective_at = 0, pc_rules = [(KvRead, (1, 2))]\<rparr>"

definition settle_ids :: "nat \<Rightarrow> uuid" where
  "settle_ids n = 100 + of_nat n"

lemma settle_example_inv: "ledger_inv settle_example"
  by (simp add: settle_example_def ledger_inv_def refs_ok_def inner_default_def)

lemma settle_example_window:
  "window_metrics settle_example f u t =
    (if t = TenantId 2
     then (if f \<le> 0 \<and> 0 \<le> u then (if f \<le> 60 \<and> 60 \<le> u then [(KvRead, 7)] else [(KvRead, 4)])
           else (if f \<le> 60 \<and> 60 \<le> u then [(KvRead, 3)] else []))
     else [])"
  by (simp add: window_metrics_def query_usage_def settle_example_def sample_key_def usage_match_def
      inner_default_def bucket_of_def by_metric_def wrap_u64_def)

lemma settle_example_tenants:
  "tenants_to_settle (list_tenants settle_example) = [TenantId 2, DEFAULT_TENANT]"
  by (simp add: tenants_to_settle_def list_tenants_def settle_example_def DEFAULT_TENANT_def)

lemma settle_example_entries:
  "pass_entries uuid_dec fresh settle_pricing 125 0 settle_example =
    [settle_txn uuid_dec settle_pricing (fresh 0) (TenantId 2) KvRead 3 60 125]"
  by (simp add: settle_example_window settle_example_tenants window_start_def bucket_start_def BUCKET_SECS_def
      wrap_i64_def charged_def rate_def settle_pricing_def i64_max_def DEFAULT_TENANT_def Let_def)

theorem settle_repeat_no_charge_witness:
  "\<exists>r wm s'. mem_settle_once uuid_dec settle_ids settle_pricing 125 0 settle_example = (r, wm, s')
    \<and> (\<exists>r' wm'. mem_settle_once uuid_dec (\<lambda>n. 0) settle_pricing 130 0 s' = (r', wm', s'))"
proof -
  obtain r wm s' where p: "mem_settle_once uuid_dec settle_ids settle_pricing 125 0 settle_example = (r, wm, s')"
    using prod_cases3 by blast
  have "ids_fresh settle_ids (length (pass_entries uuid_dec settle_ids settle_pricing 125 0 settle_example)) settle_example"
    unfolding settle_example_entries
    by (simp add: ids_fresh_def fresh_txn_def settle_example_def inner_default_def)
  from settle_repeat_no_charge [OF settle_example_inv p this, of 130 "\<lambda>n. 0"] p show ?thesis
    by (simp add: bucket_start_def BUCKET_SECS_def wrap_i64_def)
qed

end
