(* ===== verification/Settlement_Charges.thy ===== *)
theory Settlement_Charges
  imports Settlement
begin

text \<open>
  What a settlement pass charges (\<open>api-server/src/settlement.rs\<close>): the amount is exactly the
  price of the usage in the window, successive windows are adjacent while the watermark survives,
  and a restart after a window of several minutes charges the last minute again.
\<close>

section \<open>Exact charges\<close>

definition all_metrics :: "usage_metric list" where
  "all_metrics = [KvRead, KvWrite, SqlRead, SqlWrite, Requests, BytesIn, BytesOut, StorageBytes, StorageByteSecs]"

lemma all_metrics: "m \<in> set all_metrics" "distinct all_metrics"
  by (cases m) (simp_all add: all_metrics_def)

text \<open>The charge of a tenant for a window: every metric but the storage snapshot, at its price.\<close>

definition window_charge :: "pricing_config \<Rightarrow> inner \<Rightarrow> tenant_id \<Rightarrow> int \<Rightarrow> int \<Rightarrow> int" where
  "window_charge cfg s t f u =
    sum_list (map (\<lambda>m. rate cfg m (usage_total s t m f u)) (filter (\<lambda>m. m \<noteq> StorageBytes) all_metrics))"

definition metric_sum :: "usage_bucket list \<Rightarrow> usage_metric \<Rightarrow> nat" where
  "metric_sum bs m = sum_list (map ub_value (filter (\<lambda>b. ub_metric b = m) bs))"

lemma by_metric_snoc:
  "by_metric (bs @ [b]) = AList.update (ub_metric b)
    (wrap_u64 (int (case map_of (by_metric bs) (ub_metric b) of Some v \<Rightarrow> v | None \<Rightarrow> 0) + int (ub_value b)))
    (by_metric bs)"
  by (simp add: by_metric_def)

lemma by_metric_lookup:
  assumes "sum_list (map ub_value bs) \<le> u64_max"
  shows "(case map_of (by_metric bs) m of Some v \<Rightarrow> v | None \<Rightarrow> 0) = metric_sum bs m"
    and "distinct (map fst (by_metric bs))"
proof -
  have "(\<forall>m. (case map_of (by_metric bs) m of Some v \<Rightarrow> v | None \<Rightarrow> 0) = metric_sum bs m)
      \<and> distinct (map fst (by_metric bs))"
    using assms
  proof (induction bs rule: rev_induct)
    case Nil
    show ?case
      by (simp add: by_metric_def metric_sum_def)
  next
    case (snoc b bs)
    have le: "metric_sum bs (ub_metric b) \<le> sum_list (map ub_value bs)"
      unfolding metric_sum_def by (induction bs) auto
    have IH: "(case map_of (by_metric bs) m of Some v \<Rightarrow> v | None \<Rightarrow> 0) = metric_sum bs m"
        "distinct (map fst (by_metric bs))" for m
      using snoc by auto
    have "wrap_u64 (int (metric_sum bs (ub_metric b)) + int (ub_value b)) = metric_sum bs (ub_metric b) + ub_value b"
      using wrap_u64_id [of "metric_sum bs (ub_metric b) + ub_value b"] le snoc.prems by simp
    then have upd: "by_metric (bs @ [b]) =
        AList.update (ub_metric b) (metric_sum bs (ub_metric b) + ub_value b) (by_metric bs)"
      unfolding by_metric_snoc IH(1) by simp
    show ?case
      unfolding upd using IH by (auto simp: metric_sum_def distinct_keys_update)
  qed
  then show "(case map_of (by_metric bs) m of Some v \<Rightarrow> v | None \<Rightarrow> 0) = metric_sum bs m"
    "distinct (map fst (by_metric bs))"
    by auto
qed

lemma sum_over_keys:
  fixes g :: "'k \<Rightarrow> 'v \<Rightarrow> int"
  assumes "distinct (map fst xs)" "distinct ks" "\<And>k. k \<in> set ks"
  shows "sum_list (map (\<lambda>(k, v). g k v) xs) =
    sum_list (map (\<lambda>k. case map_of xs k of Some v \<Rightarrow> g k v | None \<Rightarrow> 0) ks)"
  using assms(1)
proof (induction xs)
  case Nil
  show ?case
    by simp
next
  case (Cons x xs)
  obtain k v where x: "x = (k, v)"
    by fastforce
  have none: "map_of xs k = None"
    using Cons.prems by (simp add: x map_of_eq_None_iff)
  have "(case map_of (x # xs) k' of Some v \<Rightarrow> g k' v | None \<Rightarrow> 0) =
      (if k' = k then g k v else 0) + (case map_of xs k' of Some v \<Rightarrow> g k' v | None \<Rightarrow> 0)" for k'
    using none by (simp add: x)
  then have "sum_list (map (\<lambda>k. case map_of (x # xs) k of Some v \<Rightarrow> g k v | None \<Rightarrow> 0) ks) =
      (\<Sum>k' \<in> set ks. (if k' = k then g k v else 0))
      + sum_list (map (\<lambda>k. case map_of xs k of Some v \<Rightarrow> g k v | None \<Rightarrow> 0) ks)"
    by (simp only: sum_list_addf sum_list_distinct_conv_sum_set [OF assms(2)] sum.distrib)
  also have "(\<Sum>k' \<in> set ks. (if k' = k then g k v else 0)) = g k v"
    using assms(3) by (simp add: sum.delta)
  finally show ?case
    using Cons by (simp add: x)
qed

lemma metric_sum_query: "metric_sum (query_usage s t None None f u) m = usage_total s t m f u"
proof -
  have filt: "sum_list (map ub_value (filter P (sort_key g xs))) = sum_list (map ub_value (filter P xs))" for P g xs
    using sum_list_sort_key [of "\<lambda>b. if P b then ub_value b else 0" g xs]
    by (simp add: sum_list_map_filter')
  have "sum_list (map ub_value (filter (\<lambda>b. ub_metric b = m) (map (\<lambda>(k, v). bucket_of k v)
      (filter (\<lambda>(k, v). usage_match t None None f u k) xs)))) =
    sum_list (map snd (filter (\<lambda>(k, v). usage_match t None (Some m) f u k) xs))" for xs
    by (induction xs) (auto simp: usage_match_def bucket_of_def)
  then show ?thesis
    unfolding metric_sum_def query_usage_def filt usage_total_eq match_value_def .
qed

definition window_fits :: "inner \<Rightarrow> int \<Rightarrow> int \<Rightarrow> tenant_id \<Rightarrow> bool" where
  "window_fits s f u t \<longleftrightarrow> sum_list (map ub_value (query_usage s t None None f u)) \<le> u64_max"

lemma rate_zero [simp]: "rate cfg m 0 = 0"
  by (simp add: rate_def split: option.splits)

lemma window_metrics_charge:
  assumes "window_fits s f u t"
  shows "sum_list (map (\<lambda>(m, a). if m = StorageBytes then 0 else rate cfg m a) (window_metrics s f u t)) =
      window_charge cfg s t f u"
    and "distinct (map fst (window_metrics s f u t))"
proof -
  let ?q = "query_usage s t None None f u"
  note bm = by_metric_lookup [OF assms [unfolded window_fits_def]]
  show "distinct (map fst (window_metrics s f u t))"
    using bm(2) by (simp add: window_metrics_def)
  have "sum_list (map (\<lambda>(m, a). if m = StorageBytes then 0 else rate cfg m a) (by_metric ?q)) =
      sum_list (map (\<lambda>m. case map_of (by_metric ?q) m of
        Some a \<Rightarrow> (if m = StorageBytes then 0 else rate cfg m a) | None \<Rightarrow> 0) all_metrics)"
    by (rule sum_over_keys [OF bm(2) all_metrics(2,1)])
  also have "\<dots> = sum_list (map (\<lambda>m. if m \<noteq> StorageBytes then rate cfg m (usage_total s t m f u) else 0) all_metrics)"
  proof (intro arg_cong [where f = sum_list] map_cong refl)
    fix m
    show "(case map_of (by_metric ?q) m of Some a \<Rightarrow> if m = StorageBytes then 0 else rate cfg m a | None \<Rightarrow> 0) =
        (if m \<noteq> StorageBytes then rate cfg m (usage_total s t m f u) else 0)"
      using bm(1) [of m] unfolding metric_sum_query [symmetric]
      by (auto split: option.splits)
  qed
  finally show "sum_list (map (\<lambda>(m, a). if m = StorageBytes then 0 else rate cfg m a) (window_metrics s f u t)) =
      window_charge cfg s t f u"
    by (simp add: window_metrics_def window_charge_def sum_list_map_filter')
qed

lemma settle_list_sum:
  "sum_list (map ct_amount_units (settle_list sh fresh cfg t lastb now ms d)) =
    - sum_list (map (\<lambda>(m, a). if m = StorageBytes then 0 else rate cfg m a) ms)"
  by (induction ms arbitrary: d) (auto simp: settle_txn_def charged_def)

lemma settle_list_tenant: "x \<in> set (settle_list sh fresh cfg t lastb now ms d) \<Longrightarrow> ct_tenant_id x = t"
  using settle_list_mem by (fastforce simp: settle_txn_def)

lemma pass_list_sum:
  assumes "distinct ts"
  shows "sum_list (map ct_amount_units (filter (\<lambda>x. ct_tenant_id x = t)
      (pass_list ms sh fresh cfg lastb now ts d))) =
    (if t \<in> set ts then - sum_list (map (\<lambda>(m, a). if m = StorageBytes then 0 else rate cfg m a) (ms t)) else 0)"
  using assms
proof (induction ts arbitrary: d)
  case (Cons t' ts)
  let ?L = "settle_list sh fresh cfg t' lastb now (ms t') d"
  have "filter (\<lambda>x. ct_tenant_id x = t) ?L = (if t = t' then ?L else [])"
    using settle_list_tenant by (auto simp: filter_empty_conv intro: filter_True)
  with Cons show ?case
    by (auto simp: Let_def settle_list_sum)
qed simp

text \<open>The UUID text holds no colon, so that references can be taken apart again.\<close>

definition colon_free :: "(uuid \<Rightarrow> str) \<Rightarrow> bool" where
  "colon_free sh \<longleftrightarrow> inj sh \<and> (\<forall>u. CHR '':'' \<notin> set (sh u))"

lemma colon_split:
  assumes "a @ CHR '':'' # x = b @ CHR '':'' # y" "CHR '':'' \<notin> set a" "CHR '':'' \<notin> set b"
  shows "a = b \<and> x = y"
  using assms
proof (induction a arbitrary: b)
  case Nil
  then show ?case
    by (cases b) auto
next
  case (Cons c a)
  then show ?case
    by (cases b) auto
qed

lemma metric_no_colon: "CHR '':'' \<notin> set (metric_as_str m)"
  by (cases m) simp_all

lemma show_int_no_colon: "CHR '':'' \<notin> set (show_int n)"
  using show_nat_digits [of "CHR '':''"] by (auto simp: show_int_def is_digit_def)

lemma settle_reference_inj:
  assumes "colon_free sh" "settle_reference sh t m l v = settle_reference sh t' m' l' v'"
  shows "t = t' \<and> m = m' \<and> show_int l = show_int l'"
proof -
  have "sh (tenant_uuid t) @ CHR '':'' # metric_as_str m @ CHR '':'' # show_int l @ CHR '':'' # show_int v
      = sh (tenant_uuid t') @ CHR '':'' # metric_as_str m' @ CHR '':'' # show_int l' @ CHR '':'' # show_int v'"
    using assms(2) by (simp add: settle_reference_def)
  from colon_split [OF this] assms(1) have u: "sh (tenant_uuid t) = sh (tenant_uuid t')"
    and rest: "metric_as_str m @ CHR '':'' # show_int l @ CHR '':'' # show_int v
        = metric_as_str m' @ CHR '':'' # show_int l' @ CHR '':'' # show_int v'"
    by (auto simp: colon_free_def)
  note m = colon_split [OF rest metric_no_colon metric_no_colon]
  note l = colon_split [OF m [THEN conjunct2] show_int_no_colon show_int_no_colon]
  have "metric_parse (metric_as_str m) = metric_parse (metric_as_str m')"
    using m by simp
  then have "m = m'"
    by simp
  moreover have "tenant_uuid t = tenant_uuid t'"
    using u assms(1) by (auto simp: colon_free_def dest: injD)
  ultimately show ?thesis
    using l by (simp add: tenant_id.expand)
qed

lemma pass_refs_distinct:
  assumes "colon_free sh" "distinct ts" "\<forall>t \<in> set ts. distinct (map fst (ms t))"
  shows "distinct (map ct_reference_id (pass_list ms sh fresh cfg lastb now ts d))"
proof -
  let ?r = "\<lambda>t (m, a :: nat). Some (settle_reference sh t m lastb (pc_version cfg))"
  have one: "distinct (map (?r t) (filter (charged cfg) (ms t)))" if "t \<in> set ts" for t
  proof -
    have "distinct (map fst (filter (charged cfg) (ms t)))"
      using assms(3) that by (intro distinct_map_filter) blast
    moreover have "inj (\<lambda>m. Some (settle_reference sh t m lastb (pc_version cfg)))"
      using settle_reference_inj [OF assms(1)] by (auto intro!: injI)
    ultimately have "distinct (map (\<lambda>m. Some (settle_reference sh t m lastb (pc_version cfg)))
        (map fst (filter (charged cfg) (ms t))))"
      by (subst distinct_map) (auto intro: inj_on_subset)
    moreover have "map (?r t) (filter (charged cfg) (ms t)) =
        map (\<lambda>m. Some (settle_reference sh t m lastb (pc_version cfg))) (map fst (filter (charged cfg) (ms t)))"
      by auto
    ultimately show ?thesis
      by (simp only:)
  qed
  have two: "set (map (?r t) xs) \<inter> set (map (?r t') ys) = {}" if "t \<noteq> t'" for t t' xs ys
    using settle_reference_inj [OF assms(1)] that by fastforce
  show ?thesis
    unfolding pass_list_refs using assms(2) one
  proof (induction ts)
    case (Cons t ts)
    then show ?case
      using two [of t] by (fastforce simp: Cons)
  qed simp
qed

lemma settle_charge:
  assumes inv: "ledger_inv s" and pass: "mem_settle_once sh fresh cfg now last_settled s = (r, wm, s')"
    and win: "window_start last_settled now < bucket_start now"
    and ids: "ids_fresh fresh (length (pass_entries sh fresh cfg now last_settled s)) s"
    and colons: "colon_free sh"
    and tens: "distinct (tenants_to_settle (list_tenants s))"
    and fits: "\<forall>t \<in> set (tenants_to_settle (list_tenants s)).
      window_fits s (window_start last_settled now) (wrap_i64 (bucket_start now - 60)) t"
    and new: "\<forall>t m. find_transaction_by_reference s
      (settle_reference sh t m (window_start last_settled now) (pc_version cfg)) = None"
    and range: "i64_min \<le> balance_of s t
        - window_charge cfg s t (window_start last_settled now) (wrap_i64 (bucket_start now - 60))"
      "i64_min \<le> balance_of s t" "balance_of s t \<le> i64_max"
  shows "balance_of s' t = balance_of s t -
      (if t \<in> set (tenants_to_settle (list_tenants s))
       then window_charge cfg s t (window_start last_settled now) (wrap_i64 (bucket_start now - 60)) else 0)
    \<and> wm = bucket_start now"
proof -
  let ?f = "window_start last_settled now" and ?u = "wrap_i64 (bucket_start now - 60)"
  let ?ts = "tenants_to_settle (list_tenants s)"
  let ?L = "pass_entries sh fresh cfg now last_settled s"
  have s': "s' = append_all (append_credit_transaction (nat now) (nat now)) ?L s" and wm: "wm = bucket_start now"
    using pass win unfolding mem_settle_once_eq Let_def by auto
  note batch = pass_list_fresh [OF ids]
  have mem: "\<exists>t m a i. charged cfg (m, a) \<and> x = settle_txn sh cfg i t m a ?f now" if "x \<in> set ?L" for x
    using pass_list_mem [OF that] by blast
  have sum: "sum_list (map ct_amount_units (filter (\<lambda>x. ct_tenant_id x = t) ?L)) =
      - (if t \<in> set ?ts then window_charge cfg s t ?f ?u else 0)"
    unfolding pass_list_sum [OF tens] using fits window_metrics_charge(1) by simp
  have "balance_of (append_all (append_credit_transaction (nat now) (nat now)) ?L s) t =
      balance_of s t + sum_list (map ct_amount_units (filter (\<lambda>x. ct_tenant_id x = t) ?L))"
  proof (rule mem_books.append_all_balance [OF inv batch])
    show "distinct (map ct_reference_id ?L)"
      using colons tens fits window_metrics_charge(2) by (intro pass_refs_distinct) auto
    show "\<forall>x \<in> set ?L. \<forall>ref. ct_reference_id x = Some ref \<longrightarrow> find_transaction_by_reference s ref = None"
      using mem new by (fastforce simp: settle_txn_def)
    show "\<forall>x \<in> set ?L. ct_amount_units x \<le> 0"
      using mem rate_nonneg by (fastforce simp: settle_txn_def)
    show "i64_min \<le> balance_of s t + sum_list (map ct_amount_units (filter (\<lambda>x. ct_tenant_id x = t) ?L))"
      unfolding sum using range by simp
    show "balance_of s t \<le> i64_max"
      by (rule range(3))
  qed
  then show ?thesis
    unfolding s' wm sum by simp
qed

text \<open>C1: one settlement pass charges exactly what was used: when the window's references are not
  yet booked and nothing overflows, every settled tenant's balance falls by the price of its usage
  in the window, metric by metric (the storage snapshot is never charged), nobody else's balance
  changes, and the watermark moves to the current minute.\<close>

theorem settle_exact_charge:
  assumes inv: "ledger_inv s" and pass: "mem_settle_once sh fresh cfg now last_settled s = (r, wm, s')"
    and win: "window_start last_settled now < bucket_start now"
    and ids: "ids_fresh fresh (length (pass_entries sh fresh cfg now last_settled s)) s"
    and colons: "colon_free sh"
    and tens: "distinct (tenants_to_settle (list_tenants s))"
    and fits: "\<forall>t \<in> set (tenants_to_settle (list_tenants s)).
      window_fits s (window_start last_settled now) (wrap_i64 (bucket_start now - 60)) t"
    and new: "\<forall>t m. find_transaction_by_reference s
      (settle_reference sh t m (window_start last_settled now) (pc_version cfg)) = None"
    and range: "i64_min \<le> balance_of s t
        - window_charge cfg s t (window_start last_settled now) (wrap_i64 (bucket_start now - 60))"
      "i64_min \<le> balance_of s t" "balance_of s t \<le> i64_max"
  shows "balance_of s' t = balance_of s t -
      (if t \<in> set (tenants_to_settle (list_tenants s))
       then window_charge cfg s t (window_start last_settled now) (wrap_i64 (bucket_start now - 60)) else 0)
    \<and> wm = bucket_start now"
  by (rule settle_charge [OF assms])

lemma colon_free_dec: "colon_free uuid_dec"
proof -
  have "inj uuid_dec"
    unfolding uuid_dec_def by (intro injI) (metis show_nat_inj word_unat_eq_iff)
  moreover have "CHR '':'' \<notin> set (uuid_dec u)" for u
    using show_nat_digits [of "CHR '':''" "unat u"] by (auto simp: uuid_dec_def is_digit_def)
  ultimately show ?thesis
    by (simp add: colon_free_def)
qed

theorem settle_exact_charge_witness:
  "\<exists>r s'. mem_settle_once uuid_dec settle_ids settle_pricing 125 0 settle_example = (r, 120, s')
    \<and> balance_of s' (TenantId 2) = - 6 \<and> balance_of s' DEFAULT_TENANT = 0"
proof -
  obtain r wm s' where p: "mem_settle_once uuid_dec settle_ids settle_pricing 125 0 settle_example = (r, wm, s')"
    using prod_cases3 by blast
  have b: "bucket_start 125 = 120" "window_start 0 125 = 60" "wrap_i64 (120 - 60) = 60"
    by (simp_all add: bucket_start_def window_start_def BUCKET_SECS_def wrap_i64_def)
  have ids: "ids_fresh settle_ids (length (pass_entries uuid_dec settle_ids settle_pricing 125 0 settle_example)) settle_example"
    unfolding settle_example_entries
    by (simp add: ids_fresh_def fresh_txn_def settle_example_def inner_default_def)
  have fits: "window_fits settle_example 60 60 t" for t
    by (simp add: window_fits_def query_usage_def settle_example_def sample_key_def usage_match_def
        inner_default_def bucket_of_def u64_max_def)
  have bal: "balance_of settle_example t = 0" "find_transaction_by_reference settle_example ref = None" for t ref
    by (simp_all add: balance_of_def find_transaction_by_reference_def settle_example_def inner_default_def)
  have charge: "window_charge settle_pricing settle_example (TenantId 2) 60 60 = 6"
      "window_charge settle_pricing settle_example DEFAULT_TENANT 60 60 = 0"
    by (simp_all add: window_charge_def all_metrics_def usage_total_eq match_value_def settle_example_def
        sample_key_def usage_match_def inner_default_def rate_def settle_pricing_def i64_max_def DEFAULT_TENANT_def)
  have "distinct [TenantId 2, DEFAULT_TENANT]"
    by (simp add: DEFAULT_TENANT_def)
  note ex = settle_exact_charge [OF settle_example_inv p _ ids colon_free_dec,
      unfolded b settle_example_tenants bal, OF _ this _ _ _ _ _]
  have "balance_of s' (TenantId 2) = - 6 \<and> wm = 120"
    using ex [of "TenantId 2"] fits charge by (simp add: i64_min_def i64_max_def)
  moreover have "balance_of s' DEFAULT_TENANT = 0"
    using ex [of DEFAULT_TENANT] fits charge by (simp add: i64_min_def i64_max_def)
  ultimately show ?thesis
    using p by auto
qed

section \<open>Windows\<close>

text \<open>Successive passes settle adjacent windows: when a pass at time \<open>now\<close> leaves its watermark
  for a pass at a later time \<open>now'\<close>, a minute bucket belongs to the second pass's window exactly when
  it lies between the two current minutes, and to no bucket of the first window, so that no minute is
  settled twice or skipped while the watermark survives.\<close>

theorem settle_windows_adjacent:
  assumes "0 < bucket_start now" "0 \<le> now" "in_i64 now" "0 \<le> now'" "in_i64 now'"
    "bucket_start now < bucket_start now'" "b mod 60 = 0"
  shows "window_start (bucket_start now) now' = bucket_start now
    \<and> (window_start (bucket_start now) now' \<le> b \<and> b \<le> wrap_i64 (bucket_start now' - 60)
        \<longleftrightarrow> bucket_start now \<le> b \<and> b < bucket_start now')
    \<and> (b \<le> wrap_i64 (bucket_start now - 60) \<longrightarrow> b < window_start (bucket_start now) now')"
proof -
  note b1 = bucket_start_bounds [OF assms(2,3)] and b2 = bucket_start_bounds [OF assms(4,5)]
  have r1: "wrap_i64 (bucket_start now - 60) = bucket_start now - 60"
    using b1 assms(1,3) by (intro wrap_i64_id) (simp add: in_i64_def i64_min_def)
  have r2: "wrap_i64 (bucket_start now' - 60) = bucket_start now' - 60"
    using b2 assms(1,5,6) by (intro wrap_i64_id) (simp add: in_i64_def i64_min_def)
  have "b \<le> bucket_start now' - 60 \<longleftrightarrow> b < bucket_start now'"
  proof
    assume "b < bucket_start now'"
    then have "b div 60 * 60 < bucket_start now' div 60 * 60"
      using b2(3) assms(7) by (simp add: BUCKET_SECS_def minus_mod_eq_div_mult [symmetric])
    then have "b div 60 + 1 \<le> bucket_start now' div 60"
      by simp
    then have "(b div 60 + 1) * 60 \<le> bucket_start now' div 60 * 60"
      by simp
    then show "b \<le> bucket_start now' - 60"
      using b2(3) assms(7) by (simp add: BUCKET_SECS_def minus_mod_eq_div_mult [symmetric] distrib_right)
  qed simp
  then show ?thesis
    unfolding r1 r2 window_start_def using assms(1) by auto
qed

theorem settle_windows_adjacent_witness:
  "window_start (bucket_start 125) 250 = 120 \<and> (120 \<le> (180 :: int) \<and> 180 \<le> wrap_i64 (bucket_start 250 - 60))"
  using settle_windows_adjacent [of 125 250 180]
  by (simp add: bucket_start_def BUCKET_SECS_def wrap_i64_def in_i64_def i64_min_def i64_max_def)

text \<open>C40: the reference of an entry names only the start of its window, so losing the watermark is
  not always harmless: after a pass over a window of several minutes, a restart within the same
  minute settles the last of these minutes once more under a different reference, and every tenant
  pays for that minute twice.\<close>

theorem settle_restart_double_charge:
  assumes inv: "ledger_inv s" and pass: "mem_settle_once sh fresh cfg now L s = (r, wm, s')"
    and again: "mem_settle_once sh fresh' cfg now' 0 s' = (r', wm', s'')"
    and time: "0 \<le> now" "in_i64 now" "0 < L" "L < bucket_start now - 60" "bucket_start now' = bucket_start now"
    and ids: "ids_fresh fresh (length (pass_entries sh fresh cfg now L s)) s"
      "ids_fresh fresh' (length (pass_entries sh fresh' cfg now' 0 s')) s'"
    and colons: "colon_free sh" and tens: "distinct (tenants_to_settle (list_tenants s))"
      "t \<in> set (tenants_to_settle (list_tenants s))"
    and fits: "\<forall>t \<in> set (tenants_to_settle (list_tenants s)). window_fits s L (bucket_start now - 60) t
      \<and> window_fits s (bucket_start now - 60) (bucket_start now - 60) t"
    and new: "\<forall>t m b. find_transaction_by_reference s (settle_reference sh t m b (pc_version cfg)) = None"
    and range: "balance_of s t \<le> i64_max"
      "i64_min \<le> balance_of s t - window_charge cfg s t L (bucket_start now - 60)
        - window_charge cfg s t (bucket_start now - 60) (bucket_start now - 60)"
  shows "balance_of s'' t = balance_of s t - window_charge cfg s t L (bucket_start now - 60)
    - window_charge cfg s t (bucket_start now - 60) (bucket_start now - 60)"
proof -
  let ?c = "bucket_start now"
  have nonneg: "0 \<le> window_charge cfg x t f u" for x f u
    unfolding window_charge_def using rate_nonneg by (auto intro!: sum_list_nonneg)
  have r: "wrap_i64 (?c - 60) = ?c - 60"
    using time bucket_start_bounds [OF time(1,2)] by (intro wrap_i64_id) (simp add: in_i64_def i64_min_def)
  have w1: "window_start L now = L" and w2: "window_start 0 now' = ?c - 60"
    using time(3,5) r by (simp_all add: window_start_def)
  have first: "balance_of s' t = balance_of s t - window_charge cfg s t L (?c - 60)"
    using settle_charge [OF inv pass _ ids(1) colons tens(1), of t] time(4) fits new range tens(2)
      nonneg [of s L "?c - 60"] nonneg [of s "?c - 60" "?c - 60"]
    unfolding w1 r by (simp add: in_i64_def)
  let ?L = "pass_entries sh fresh cfg now L s"
  note batch = pass_list_fresh [OF ids(1)]
  have s': "s' = append_all (append_credit_transaction (nat now) (nat now)) ?L s"
    using pass time(4) unfolding mem_settle_once_eq Let_def w1 by auto
  have same: "usage s' = usage s" "tenants s' = tenants s"
    unfolding s' by simp_all
  have lists: "list_tenants s' = list_tenants s" "\<And>t f u. window_fits s' f u t = window_fits s f u t"
      "\<And>t f u. window_charge cfg s' t f u = window_charge cfg s t f u"
    using same by (simp_all add: list_tenants_def window_fits_def window_charge_def usage_total_eq query_usage_def)
  have inv': "ledger_inv s'"
    unfolding s' by (rule mem_books.append_all_inv(1) [OF inv batch])
  have new': "find_transaction_by_reference s' (settle_reference sh t m (?c - 60) (pc_version cfg)) = None" for t m
    unfolding s'
  proof (rule mem_books.append_all_frame [OF inv batch])
    show "\<forall>x \<in> set ?L. ct_reference_id x \<noteq> Some (settle_reference sh t m (?c - 60) (pc_version cfg))"
    proof
      fix x
      assume "x \<in> set ?L"
      from pass_list_mem [OF this] obtain t' m' where "ct_reference_id x = Some (settle_reference sh t' m' L (pc_version cfg))"
        unfolding w1 by (auto simp: settle_txn_def)
      moreover have "show_int L \<noteq> show_int (?c - 60)"
        using show_int_inj [of L "?c - 60"] time bucket_start_bounds [OF time(1,2)] by (auto simp: in_i64_def i64_min_def)
      ultimately show "ct_reference_id x \<noteq> Some (settle_reference sh t m (?c - 60) (pc_version cfg))"
        using settle_reference_inj [OF colons, of t' m' L "pc_version cfg" t m "?c - 60" "pc_version cfg"] by auto
    qed
  qed (use new in blast)
  have "balance_of s'' t = balance_of s' t - window_charge cfg s' t (?c - 60) (?c - 60)"
    using settle_charge [OF inv' again _ ids(2) colons, of t, unfolded w2 time(5) r lists(1)]
      tens fits new' range first nonneg [of s L "?c - 60"] nonneg [of s "?c - 60" "?c - 60"]
    by (simp add: lists)
  then show ?thesis
    using first lists(3) by simp
qed

definition restart_example :: inner where
  "restart_example = settle_example\<lparr>usage := [(sample_key KvRead 60, 4), (sample_key KvRead 120, 3)]\<rparr>"

lemma restart_example_facts:
  "ledger_inv restart_example"
  "tenants_to_settle (list_tenants restart_example) = [TenantId 2, DEFAULT_TENANT]"
  "window_fits restart_example f u t"
  "balance_of restart_example t = 0"
  "find_transaction_by_reference restart_example ref = None"
  "fresh_txn restart_example i"
  by (simp_all add: restart_example_def settle_example_def ledger_inv_def refs_ok_def inner_default_def
      tenants_to_settle_def list_tenants_def DEFAULT_TENANT_def window_fits_def query_usage_def sample_key_def
      usage_match_def bucket_of_def u64_max_def balance_of_def find_transaction_by_reference_def fresh_txn_def)

lemma restart_example_window:
  "window_metrics restart_example 60 120 t = (if t = TenantId 2 then [(KvRead, 7)] else [])"
  "window_metrics restart_example 120 120 t = (if t = TenantId 2 then [(KvRead, 3)] else [])"
  by (simp_all add: window_metrics_def query_usage_def restart_example_def sample_key_def usage_match_def
      bucket_of_def by_metric_def wrap_u64_def)

lemma restart_example_charge:
  "window_charge settle_pricing restart_example (TenantId 2) 60 120 = 14"
  "window_charge settle_pricing restart_example (TenantId 2) 120 120 = 6"
  by (simp_all add: window_charge_def all_metrics_def usage_total_eq match_value_def restart_example_def
      sample_key_def usage_match_def rate_def settle_pricing_def i64_max_def)

theorem settle_restart_double_charge_witness:
  "\<exists>r wm s' r' wm' s''. mem_settle_once uuid_dec settle_ids settle_pricing 185 60 restart_example = (r, wm, s')
    \<and> mem_settle_once uuid_dec (\<lambda>n. 200 + of_nat n) settle_pricing 190 0 s' = (r', wm', s'')
    \<and> balance_of s'' (TenantId 2) = - 20"
proof -
  let ?f' = "\<lambda>n. 200 + of_nat n :: uuid"
  obtain r wm s' where p: "mem_settle_once uuid_dec settle_ids settle_pricing 185 60 restart_example = (r, wm, s')"
    using prod_cases3 by blast
  obtain r' wm' s'' where q: "mem_settle_once uuid_dec ?f' settle_pricing 190 0 s' = (r', wm', s'')"
    using prod_cases3 by blast
  have b: "bucket_start 185 = 180" "bucket_start 190 = 180" "wrap_i64 120 = 120"
    by (simp_all add: bucket_start_def BUCKET_SECS_def wrap_i64_def)
  have w: "window_start 60 185 = 60" "window_start 0 190 = 120"
    by (simp_all add: window_start_def b)
  let ?e = "[settle_txn uuid_dec settle_pricing (settle_ids 0) (TenantId 2) KvRead 7 60 185]"
  have e: "pass_entries uuid_dec settle_ids settle_pricing 185 60 restart_example = ?e"
    by (simp add: w b restart_example_facts restart_example_window charged_def rate_def settle_pricing_def
        i64_max_def DEFAULT_TENANT_def)
  have s': "s' = append_all (append_credit_transaction 185 185) ?e restart_example"
    using p unfolding mem_settle_once_eq Let_def e by (simp add: w b)
  have "window_metrics s' = window_metrics restart_example" "list_tenants s' = list_tenants restart_example"
    unfolding s' by (simp_all only: fun_eq_iff window_metrics_def list_tenants_def append_all_query
        append_all_tenants simp_thms)
  then have "length (pass_entries uuid_dec ?f' settle_pricing 190 0 s') = 1"
    by (simp add: w b restart_example_facts restart_example_window charged_def rate_def settle_pricing_def
        i64_max_def DEFAULT_TENANT_def)
  moreover have "fresh_txn s' (?f' 0)"
    unfolding s' by (rule mem_books.append_all_inv(4) [OF restart_example_facts(1)])
      (simp_all add: restart_example_facts referenced_def settle_txn_def settle_ids_def)
  ultimately have ids': "ids_fresh ?f' (length (pass_entries uuid_dec ?f' settle_pricing 190 0 s')) s'"
    by (simp add: ids_fresh_def)
  have ids: "ids_fresh settle_ids (length (pass_entries uuid_dec settle_ids settle_pricing 185 60 restart_example)) restart_example"
    unfolding e by (simp add: ids_fresh_def restart_example_facts)
  have "balance_of s'' (TenantId 2) = balance_of restart_example (TenantId 2)
      - window_charge settle_pricing restart_example (TenantId 2) 60 (bucket_start 185 - 60)
      - window_charge settle_pricing restart_example (TenantId 2) (bucket_start 185 - 60) (bucket_start 185 - 60)"
    by (rule settle_restart_double_charge [OF restart_example_facts(1) p q _ _ _ _ _ ids ids' colon_free_dec])
      (simp_all add: b restart_example_facts restart_example_charge i64_max_def i64_min_def in_i64_def DEFAULT_TENANT_def)
  then show ?thesis
    using p q by (auto simp: b restart_example_facts restart_example_charge)
qed

end
