(* ===== verification/State_Result.thy ===== *)
theory State_Result
  imports Common_Types
begin

text \<open>
  Sequencing of fallible operations on a state.  A Rust function that takes a
  connection or \<open>&self\<close> and returns \<open>Result<T>\<close> is a function from the state to
  the result and the state it leaves; \<open>x?\<close> followed by the rest of the body is
  \<open>try_then x rest\<close>, which returns early with the error and keeps the effects
  made before it.
\<close>

type_synonym ('s, 'a) op = "'s \<Rightarrow> 'a result \<times> 's"

definition try_then :: "('s, 'a) op \<Rightarrow> ('a \<Rightarrow> ('s, 'b) op) \<Rightarrow> ('s, 'b) op" where
  "try_then m f = (\<lambda>s. case m s of (Inl e, s') \<Rightarrow> (Inl e, s') | (Inr a, s') \<Rightarrow> f a s')"

definition done_with :: "'a \<Rightarrow> ('s, 'a) op" where
  "done_with a = (\<lambda>s. (Inr a, s))"

definition raise :: "combee_error \<Rightarrow> ('s, 'a) op" where
  "raise e = (\<lambda>s. (Inl e, s))"

text \<open>A guard of the source: \<open>if c { return Err(e) }\<close>.\<close>

definition refuse_if :: "bool \<Rightarrow> combee_error \<Rightarrow> ('s, unit) op" where
  "refuse_if c e = (if c then raise e else done_with ())"

text \<open>\<open>let _ = m;\<close>: the error is dropped, the effects stay.\<close>

definition ignoring :: "('s, 'a) op \<Rightarrow> ('s, unit) op" where
  "ignoring m = (\<lambda>s. (Inr (), snd (m s)))"

text \<open>A loop over a list whose body may return early with an error.\<close>

fun for_each :: "('x \<Rightarrow> ('s, 'a) op) \<Rightarrow> 'x list \<Rightarrow> ('s, 'a list) op" where
  "for_each f [] s = (Inr [], s)"
| "for_each f (x # xs) s = (case f x s of
      (Inl e, s') \<Rightarrow> (Inl e, s')
    | (Inr a, s') \<Rightarrow> (case for_each f xs s' of (Inl e, s'') \<Rightarrow> (Inl e, s'') | (Inr r, s'') \<Rightarrow> (Inr (a # r), s'')))"

named_theorems op_defs \<open>unfolding of the sequencing operators\<close>

declare try_then_def [op_defs] done_with_def [op_defs] raise_def [op_defs] refuse_if_def [op_defs] ignoring_def [op_defs]

lemma try_then_Inr_iff:
  "try_then m f s = (Inr b, s') \<longleftrightarrow> (\<exists>a t. m s = (Inr a, t) \<and> f a t = (Inr b, s'))"
  by (auto simp: try_then_def split: prod.splits sum.splits)

lemma try_then_assoc: "try_then (try_then m f) g = try_then m (\<lambda>a. try_then (f a) g)"
  by (auto simp: try_then_def fun_eq_iff split: prod.splits sum.splits)

text \<open>A predicate kept by the body is kept by the loop, whether or not it ends early.\<close>

lemma for_each_keeps:
  assumes "\<And>x s. x \<in> set xs \<Longrightarrow> P s \<Longrightarrow> P (snd (f x s))" "P s"
  shows "P (snd (for_each f xs s))"
  using assms
proof (induction xs arbitrary: s)
  case (Cons x xs)
  have "P (snd (f x s))"
    using Cons.prems by simp
  then have "P (snd (for_each f xs (snd (f x s))))"
    using Cons.IH Cons.prems(1) by simp
  then show ?case
    using \<open>P (snd (f x s))\<close> by (auto split: prod.splits sum.splits)
qed simp

lemma for_each_length: "for_each f xs s = (Inr r, s') \<Longrightarrow> length r = length xs"
  by (induction xs arbitrary: s r) (fastforce split: prod.splits sum.splits)+

lemma for_each_seq:
  "for_each f [] = done_with []"
  "for_each f (x # xs) = try_then (f x) (\<lambda>a. try_then (for_each f xs) (\<lambda>r. done_with (a # r)))"
  by (auto simp: fun_eq_iff op_defs split: prod.splits sum.splits)

end
