(* ===== verification/Kv_Store.thy ===== *)
theory Kv_Store
  imports State_Result
begin

text \<open>
  The KV store of a cell (\<open>data-node/src/kv.rs\<close>, \<open>ttl.rs\<close>): the table \<open>__sys_kv\<close>, the SQL
  statements the source issues on it, and the operations built from them.  A connection carries
  the table, the rest of the database (the user's tables, of an arbitrary type) and the outcomes
  of the statements still to run: a statement whose outcome is \<open>Some e\<close> fails with the SQLite
  message \<open>e\<close> and changes nothing.  Every reading of the clock is an argument, in the order the
  code reads it.  \<open>i64\<close> arithmetic wraps, as in a release build.
\<close>

section \<open>Expiry\<close>

definition is_expired :: "int option \<Rightarrow> int \<Rightarrow> bool" where
  "is_expired expires_at now = (case expires_at of Some e \<Rightarrow> e \<le> now | None \<Rightarrow> False)"

definition ttl_or_remaining :: "int option \<Rightarrow> int \<Rightarrow> int option" where
  "ttl_or_remaining expires_at now = map_option (\<lambda>e. max (wrap_i64 (e - now)) 0) expires_at"

definition expires_at_from :: "nat option \<Rightarrow> int \<Rightarrow> int option" where
  "expires_at_from ttl_seconds now = map_option (\<lambda>s. wrap_i64 (now + wrap_i64 (int s))) ttl_seconds"

lemma is_expired_simps [simp]: "\<not> is_expired None now" "is_expired (Some e) now \<longleftrightarrow> e \<le> now"
  by (simp_all add: is_expired_def)

lemma is_expired_mono: "is_expired e now \<Longrightarrow> now \<le> now' \<Longrightarrow> is_expired e now'"
  by (cases e) auto

section \<open>Validity of UTF-8\<close>

definition byte_in :: "nat \<Rightarrow> nat \<Rightarrow> char \<Rightarrow> bool" where
  "byte_in lo hi c \<longleftrightarrow> lo \<le> (of_char c :: nat) \<and> (of_char c :: nat) \<le> hi"

text \<open>\<open>String::from_utf8\<close>: no overlong forms, no surrogates, nothing above U+10FFFF.\<close>

fun utf8_valid :: "str \<Rightarrow> bool" where
  "utf8_valid [] = True"
| "utf8_valid (a # s) =
    (if byte_in 0 127 a then utf8_valid s
     else case s of
         b # s1 \<Rightarrow>
           if byte_in 194 223 a then byte_in 128 191 b \<and> utf8_valid s1
           else (case s1 of
               c # s2 \<Rightarrow>
                 if byte_in 224 224 a then byte_in 160 191 b \<and> byte_in 128 191 c \<and> utf8_valid s2
                 else if byte_in 237 237 a then byte_in 128 159 b \<and> byte_in 128 191 c \<and> utf8_valid s2
                 else if byte_in 225 239 a then byte_in 128 191 b \<and> byte_in 128 191 c \<and> utf8_valid s2
                 else (case s2 of
                     d # s3 \<Rightarrow>
                       byte_in 128 191 c \<and> byte_in 128 191 d \<and> utf8_valid s3 \<and>
                       (byte_in 240 240 a \<and> byte_in 144 191 b \<or> byte_in 241 243 a \<and> byte_in 128 191 b \<or>
                        byte_in 244 244 a \<and> byte_in 128 143 b)
                   | [] \<Rightarrow> False)
             | [] \<Rightarrow> False)
       | [] \<Rightarrow> False)"

lemma utf8_valid_ascii: "(\<forall>c \<in> set s. byte_in 0 127 c) \<Longrightarrow> utf8_valid s"
  by (induction s) auto

lemma byte_in_digit: "is_digit c \<Longrightarrow> byte_in 0 127 c"
  by (simp add: is_digit_def byte_in_def)

lemma utf8_valid_show_int [simp]: "utf8_valid (show_int n)"
proof -
  have "byte_in 0 127 c" if "c \<in> set (show_int n)" for c
    using that by (auto simp: show_int_def byte_in_def split: if_splits dest!: show_nat_digits byte_in_digit)
  then show ?thesis
    by (simp add: utf8_valid_ascii)
qed

section \<open>The table and its statements\<close>

record kv_row =
  kv_value :: str
  kv_expires_at :: "int option"
  kv_version :: int

type_synonym kv_table = "(str, kv_row) hashmap"

record 'u conn =
  sys_kv :: kv_table
  user_db :: 'u
  faults :: "str option list"

definition run_stmt :: "(kv_table \<Rightarrow> 'a \<times> kv_table) \<Rightarrow> ('u conn, 'a) op" where
  "run_stmt st = (\<lambda>c. case faults c of
      Some e # fs \<Rightarrow> (Inl (Sql e), c\<lparr>faults := fs\<rparr>)
    | None # fs \<Rightarrow> (Inr (fst (st (sys_kv c))), c\<lparr>sys_kv := snd (st (sys_kv c)), faults := fs\<rparr>)
    | [] \<Rightarrow> (Inr (fst (st (sys_kv c))), c\<lparr>sys_kv := snd (st (sys_kv c))\<rparr>))"

definition SELECT_ROW :: "str \<Rightarrow> kv_table \<Rightarrow> (str \<times> int option) option \<times> kv_table" where
  "SELECT_ROW key t = (map_option (\<lambda>r. (kv_value r, kv_expires_at r)) (map_of t key), t)"

definition UPSERT :: "str \<Rightarrow> str \<Rightarrow> int option \<Rightarrow> kv_table \<Rightarrow> nat \<times> kv_table" where
  "UPSERT key v e t =
    (1, AList.update key \<lparr>kv_value = v, kv_expires_at = e,
        kv_version = (case map_of t key of None \<Rightarrow> 1 | Some r \<Rightarrow> kv_version r + 1)\<rparr> t)"

definition INSERT_IF_ABSENT :: "str \<Rightarrow> str \<Rightarrow> int option \<Rightarrow> kv_table \<Rightarrow> nat \<times> kv_table" where
  "INSERT_IF_ABSENT key v e t = (case map_of t key of
      None \<Rightarrow> (1, AList.update key \<lparr>kv_value = v, kv_expires_at = e, kv_version = 1\<rparr> t)
    | Some _ \<Rightarrow> (0, t))"

definition UPDATE_IF_PRESENT :: "str \<Rightarrow> str \<Rightarrow> int option \<Rightarrow> kv_table \<Rightarrow> nat \<times> kv_table" where
  "UPDATE_IF_PRESENT key v e t = (case map_of t key of
      None \<Rightarrow> (0, t)
    | Some r \<Rightarrow> (1, AList.update key \<lparr>kv_value = v, kv_expires_at = e, kv_version = kv_version r + 1\<rparr> t))"

definition DELETE_KEY :: "str \<Rightarrow> kv_table \<Rightarrow> nat \<times> kv_table" where
  "DELETE_KEY key t = (if map_of t key = None then 0 else 1, AList.delete key t)"

definition UPDATE_EXPIRY :: "str \<Rightarrow> int option \<Rightarrow> kv_table \<Rightarrow> nat \<times> kv_table" where
  "UPDATE_EXPIRY key e t = (case map_of t key of
      None \<Rightarrow> (0, t)
    | Some r \<Rightarrow> (1, AList.update key (r\<lparr>kv_expires_at := e, kv_version := kv_version r + 1\<rparr>) t))"

text \<open>\<open>DELETE ... WHERE key IN (SELECT key ... LIMIT n)\<close>; a negative limit is no limit.\<close>

definition DELETE_EXPIRED :: "int \<Rightarrow> int \<Rightarrow> kv_table \<Rightarrow> nat \<times> kv_table" where
  "DELETE_EXPIRED now lim t =
    (let ks = map fst (filter (\<lambda>(k, r). is_expired (kv_expires_at r) now) t);
         ks = (if lim < 0 then ks else take (nat lim) ks)
     in (length ks, filter (\<lambda>(k, r). k \<notin> set ks) t))"

section \<open>Operations on keys\<close>

record kv_entry =
  ke_value :: str
  ke_ttl_seconds :: "int option"

record kv_set_item =
  si_key :: str
  si_value :: str
  si_ttl_seconds :: "nat option"

definition read_row :: "str \<Rightarrow> ('u conn, (str \<times> int option) option) op" where
  "read_row key = run_stmt (SELECT_ROW key)"

definition del_kv :: "str \<Rightarrow> ('u conn, bool) op" where
  "del_kv key = try_then (run_stmt (DELETE_KEY key)) (\<lambda>n. done_with (n > 0))"

definition read_with_expiry :: "int \<Rightarrow> str \<Rightarrow> ('u conn, (str \<times> int option) option) op" where
  "read_with_expiry now key = try_then (read_row key) (\<lambda>row. case row of
      Some (v, expires_at) \<Rightarrow>
        if \<not> is_expired expires_at now then
          (if utf8_valid v then done_with (Some (v, expires_at))
           else raise (InvalidRequest ''stored value is not valid UTF-8''))
        else try_then (ignoring (del_kv key)) (\<lambda>_. done_with None)
    | None \<Rightarrow> done_with None)"

text \<open>\<open>get\<close> reads the clock before \<open>read_with_expiry\<close> does.\<close>

definition get_kv :: "int \<Rightarrow> int \<Rightarrow> str \<Rightarrow> ('u conn, kv_entry option) op" where
  "get_kv now now' key = try_then (read_with_expiry now' key) (\<lambda>row. case row of
      Some (v, expires_at) \<Rightarrow> done_with (Some \<lparr>ke_value = v, ke_ttl_seconds = ttl_or_remaining expires_at now\<rparr>)
    | None \<Rightarrow> done_with None)"

definition set_kv :: "int \<Rightarrow> str \<Rightarrow> str \<Rightarrow> nat option \<Rightarrow> bool \<Rightarrow> bool \<Rightarrow> ('u conn, bool) op" where
  "set_kv now key v ttl_seconds nx xx =
    (if key = [] then raise (InvalidRequest ''key must not be empty'')
     else let expires_at = expires_at_from ttl_seconds now in
       try_then
         (if nx then run_stmt (INSERT_IF_ABSENT key v expires_at)
          else if xx then run_stmt (UPDATE_IF_PRESENT key v expires_at)
          else try_then (run_stmt (UPSERT key v expires_at)) (\<lambda>_. done_with 1))
         (\<lambda>changed. done_with (changed > 0)))"

definition exists_kv :: "int \<Rightarrow> str \<Rightarrow> ('u conn, bool) op" where
  "exists_kv now key = try_then (read_row key) (\<lambda>row. case row of
      Some (_, expires_at) \<Rightarrow> done_with (\<not> is_expired expires_at now)
    | None \<Rightarrow> done_with False)"

text \<open>The batch operations read the clock anew for each item: the items come with their readings.\<close>

definition mget_kv :: "((int \<times> int) \<times> str) list \<Rightarrow> ('u conn, str option list) op" where
  "mget_kv keys = for_each (\<lambda>((now, now'), key).
      try_then (get_kv now now' key) (\<lambda>e. done_with (map_option ke_value e))) keys"

definition mset_kv :: "(int \<times> kv_set_item) list \<Rightarrow> ('u conn, unit) op" where
  "mset_kv items = try_then
      (for_each (\<lambda>(now, it). set_kv now (si_key it) (si_value it) (si_ttl_seconds it) False False) items)
      (\<lambda>_. done_with ())"

definition ttl_kv :: "int \<Rightarrow> str \<Rightarrow> ('u conn, int option) op" where
  "ttl_kv now key = try_then (read_row key) (\<lambda>row. case row of
      Some (_, Some expires_at) \<Rightarrow>
        if \<not> is_expired (Some expires_at) now then done_with (Some (max (wrap_i64 (expires_at - now)) 0))
        else done_with None
    | Some (_, None) \<Rightarrow> done_with (Some (- 1))
    | None \<Rightarrow> done_with None)"

definition expire_kv :: "int \<Rightarrow> int \<Rightarrow> str \<Rightarrow> nat option \<Rightarrow> ('u conn, bool) op" where
  "expire_kv now now' key ttl_seconds = try_then (exists_kv now key) (\<lambda>ex.
      if \<not> ex then done_with False
      else try_then (run_stmt (UPDATE_EXPIRY key (expires_at_from ttl_seconds now'))) (\<lambda>_. done_with True))"

text \<open>\<open>dbg\<close> is the \<open>Debug\<close> rendering of a string, which occurs in an error message only.\<close>

definition incr_target ::
  "(str \<Rightarrow> str) \<Rightarrow> int \<Rightarrow> str \<Rightarrow> int \<Rightarrow> nat option \<Rightarrow> ('u conn, int \<times> int option) op" where
  "incr_target dbg now key delta ttl_seconds = try_then (read_row key) (\<lambda>row. case row of
      Some (v, old_expires) \<Rightarrow>
        if \<not> is_expired old_expires now then
          (if \<not> utf8_valid v then raise (InvalidRequest ''value is not an integer'')
           else case parse_i64 v of
               None \<Rightarrow> raise (InvalidRequest (''value is not an integer: '' @ dbg v))
             | Some old \<Rightarrow> (case checked_add_i64 old delta of
                   None \<Rightarrow> raise (InvalidRequest ''integer overflow'')
                 | Some new \<Rightarrow> done_with (new,
                     case expires_at_from ttl_seconds now of Some e \<Rightarrow> Some e | None \<Rightarrow> old_expires)))
        else try_then (ignoring (del_kv key)) (\<lambda>_. done_with (delta, expires_at_from ttl_seconds now))
    | None \<Rightarrow> done_with (delta, expires_at_from ttl_seconds now))"

definition incr_kv :: "(str \<Rightarrow> str) \<Rightarrow> int \<Rightarrow> str \<Rightarrow> int \<Rightarrow> nat option \<Rightarrow> ('u conn, int) op" where
  "incr_kv dbg now key delta ttl_seconds =
    (if key = [] then raise (InvalidRequest ''key must not be empty'')
     else try_then (incr_target dbg now key delta ttl_seconds) (\<lambda>(new_value, expires_at).
       try_then (run_stmt (UPSERT key (show_int new_value) expires_at)) (\<lambda>_. done_with new_value)))"

definition gc_expired :: "int \<Rightarrow> int \<Rightarrow> ('u conn, nat) op" where
  "gc_expired now lim = run_stmt (DELETE_EXPIRED now lim)"

section \<open>Prefix scan\<close>

text \<open>
  SQLite's \<open>LIKE\<close>: \<open>%\<close> stands for any number of characters, \<open>_\<close> for one, every other byte for
  itself up to ASCII case.  \<open>skip_char\<close> steps over one UTF-8 character.
\<close>

definition skip_char :: "str \<Rightarrow> str" where
  "skip_char t = (case t of
      [] \<Rightarrow> []
    | c # cs \<Rightarrow> if byte_in 192 255 c then dropWhile (byte_in 128 191) cs else cs)"

lemma skip_char_shorter: "t \<noteq> [] \<Longrightarrow> length (skip_char t) < length t"
  using length_dropWhile_le [of "byte_in 128 191" "tl t"]
  by (cases t) (auto simp: skip_char_def split: if_splits)

function like :: "str \<Rightarrow> str \<Rightarrow> bool" where
  "like [] t \<longleftrightarrow> t = []"
| "like (p # ps) t \<longleftrightarrow>
    (if p = CHR ''%'' then like ps t \<or> (if t = [] then False else like (p # ps) (skip_char t))
     else if t = [] then False
     else if p = CHR ''_'' then like ps (skip_char t)
     else ascii_lower p = ascii_lower (hd t) \<and> like ps (tl t))"
  by pat_completeness auto
termination
  using skip_char_shorter
  by (relation "measure (\<lambda>(p, t). length p + length t)") (auto intro: less_SucI)

declare like.simps(2) [simp del]

record kv_scan_result =
  sr_keys :: "str list"
  sr_next_cursor :: str

definition SELECT_KEYS :: "int \<Rightarrow> str \<Rightarrow> str \<Rightarrow> nat \<Rightarrow> kv_table \<Rightarrow> str list \<times> kv_table" where
  "SELECT_KEYS now pfx cursor lim t =
    (take lim (sort (map fst (filter (\<lambda>(k, r).
        (case kv_expires_at r of None \<Rightarrow> True | Some e \<Rightarrow> e > now) \<and> like (pfx @ ''%'') k \<and>
        (cursor = [] \<or> k > cursor)) t))), t)"

definition scan_kv :: "int \<Rightarrow> str \<Rightarrow> nat \<Rightarrow> str \<Rightarrow> ('u conn, kv_scan_result) op" where
  "scan_kv now pfx limit cursor =
    (let limit = max 1 (min limit 1000) in
     try_then (run_stmt (SELECT_KEYS now pfx cursor (limit + 1))) (\<lambda>rows.
       let more = length rows > limit; keys = take limit rows in
       done_with \<lparr>sr_keys = keys,
         sr_next_cursor = (if more then (if keys = [] then [] else last keys) else [])\<rparr>))"

section \<open>What a key holds\<close>

text \<open>The contract of the store: the value and expiry a key has at a time, if it is not expired.\<close>

definition live :: "int \<Rightarrow> kv_table \<Rightarrow> str \<Rightarrow> (str \<times> int option) option" where
  "live now t k = (case map_of t k of
      Some r \<Rightarrow> if is_expired (kv_expires_at r) now then None else Some (kv_value r, kv_expires_at r)
    | None \<Rightarrow> None)"

definition kv_inv :: "kv_table \<Rightarrow> bool" where
  "kv_inv t \<longleftrightarrow> distinct (map fst t) \<and> [] \<notin> set (map fst t) \<and> (\<forall>r \<in> set (map snd t). 1 \<le> kv_version r)"

lemma run_stmt_cases:
  fixes c :: "'u conn"
  obtains (fail) e fs where "run_stmt st c = (Inl (Sql e), c\<lparr>faults := fs\<rparr>)"
  | (ok) fs where "run_stmt st c = (Inr (fst (st (sys_kv c))), c\<lparr>sys_kv := snd (st (sys_kv c)), faults := fs\<rparr>)"
proof (cases "faults c")
  case Nil
  then have "run_stmt st c = (Inr (fst (st (sys_kv c))), c\<lparr>sys_kv := snd (st (sys_kv c)), faults := []\<rparr>)"
    by (cases c) (simp add: run_stmt_def)
  then show ?thesis
    by (rule ok)
next
  case (Cons f fs)
  then show ?thesis
    using fail [of _ fs] ok [of fs] by (cases f) (simp_all add: run_stmt_def)
qed

lemma run_stmt_frame [simp]: "user_db (snd (run_stmt st c)) = user_db c"
  by (rule run_stmt_cases [of st c]) simp_all

text \<open>A connection on which no statement fails.\<close>

definition healthy :: "'u conn \<Rightarrow> bool" where
  "healthy c \<longleftrightarrow> (\<forall>f \<in> set (faults c). f = None)"

lemma run_stmt_healthy:
  assumes "healthy c"
  shows "\<exists>fs. run_stmt st c = (Inr (fst (st (sys_kv c))), c\<lparr>sys_kv := snd (st (sys_kv c)), faults := fs\<rparr>)
    \<and> (\<forall>f \<in> set fs. f = None)"
proof (cases "faults c")
  case Nil
  then have "run_stmt st c = (Inr (fst (st (sys_kv c))), c\<lparr>sys_kv := snd (st (sys_kv c)), faults := []\<rparr>)"
    by (cases c) (simp add: run_stmt_def)
  then show ?thesis
    by auto
next
  case (Cons f fs)
  then show ?thesis
    using assms by (auto simp: run_stmt_def healthy_def)
qed

lemmas stmt_defs = SELECT_ROW_def UPSERT_def INSERT_IF_ABSENT_def UPDATE_IF_PRESENT_def DELETE_KEY_def
  UPDATE_EXPIRY_def

lemma kv_inv_update: "kv_inv t \<Longrightarrow> k \<noteq> [] \<Longrightarrow> 1 \<le> kv_version r \<Longrightarrow> kv_inv (AList.update k r t)"
  unfolding kv_inv_def by (induction t) auto

lemma kv_inv_version: "kv_inv t \<Longrightarrow> map_of t k = Some r \<Longrightarrow> 1 \<le> kv_version r"
  unfolding kv_inv_def by (auto dest!: map_of_SomeD)

lemma kv_inv_key: "kv_inv t \<Longrightarrow> map_of t k = Some r \<Longrightarrow> k \<noteq> []"
  unfolding kv_inv_def by (force dest!: map_of_SomeD)

lemma kv_inv_filter: "kv_inv t \<Longrightarrow> kv_inv (filter P t)"
  unfolding kv_inv_def by (induction t) auto

lemma kv_inv_delete: "kv_inv t \<Longrightarrow> kv_inv (AList.delete k t)"
  unfolding AList.delete_eq by (rule kv_inv_filter)

section \<open>The operations refine the live view\<close>

lemma run_stmt_Inr: "run_stmt st c = (Inr a, c') \<Longrightarrow> a = fst (st (sys_kv c)) \<and> sys_kv c' = snd (st (sys_kv c))"
  by (rule run_stmt_cases [of st c]) auto

lemma run_stmt_Inl: "run_stmt st c = (Inl e, c') \<Longrightarrow> sys_kv c' = sys_kv c"
  by (rule run_stmt_cases [of st c]) auto

lemma run_stmt_user: "run_stmt st c = (r, c') \<Longrightarrow> user_db c' = user_db c"
  by (metis run_stmt_frame snd_conv)

lemma stmt_results:
  "run_stmt st c = (r, c') \<Longrightarrow> user_db c' = user_db c \<and>
    (case r of Inl _ \<Rightarrow> sys_kv c' = sys_kv c | Inr a \<Rightarrow> a = fst (st (sys_kv c)) \<and> sys_kv c' = snd (st (sys_kv c)))"
  by (auto split: sum.split dest: run_stmt_Inr run_stmt_Inl run_stmt_user)

lemma live_update:
  "live n (AList.update k r t) = (live n t)(k := if is_expired (kv_expires_at r) n then None else Some (kv_value r, kv_expires_at r))"
  by (auto simp: live_def map_of_update fun_eq_iff)

lemma live_delete: "live n (AList.delete k t) = (live n t)(k := None)"
  by (auto simp: live_def map_of_delete fun_eq_iff)

lemma live_mono: "live n t k = None \<Longrightarrow> n \<le> n' \<Longrightarrow> live n' t k = None"
  by (auto simp: live_def split: option.splits if_splits intro: is_expired_mono)

lemma live_delete_expired: "live now t k = None \<Longrightarrow> now \<le> n \<Longrightarrow> live n (AList.delete k t) = live n t"
  by (auto simp: live_delete fun_eq_iff dest: live_mono)

lemma read_row_result:
  assumes "read_row k c = (r, c')"
  shows "sys_kv c' = sys_kv c" "user_db c' = user_db c"
    "r = Inr x \<Longrightarrow> x = map_option (\<lambda>r. (kv_value r, kv_expires_at r)) (map_of (sys_kv c) k)"
  using assms by (cases r; auto simp: read_row_def SELECT_ROW_def dest: stmt_results)+

lemma del_kv_result:
  assumes "del_kv k c = (r, c')"
  shows "sys_kv c' = (if is_ok r then AList.delete k (sys_kv c) else sys_kv c)" "user_db c' = user_db c"
    "r = Inr b \<Longrightarrow> b \<longleftrightarrow> map_of (sys_kv c) k \<noteq> None"
  using assms
  by (auto simp: del_kv_def op_defs DELETE_KEY_def split: prod.splits sum.splits if_splits dest!: stmt_results)

lemma read_with_expiry_result:
  assumes "read_with_expiry now k c = (r, c')"
  shows "sys_kv c' = sys_kv c \<or> sys_kv c' = AList.delete k (sys_kv c) \<and> live now (sys_kv c) k = None"
    "user_db c' = user_db c" "r = Inr x \<Longrightarrow> x = live now (sys_kv c) k"
proof -
  obtain q c1 where q: "read_row k c = (q, c1)"
    by fastforce
  note row = read_row_result [OF q]
  obtain d c2 where d: "del_kv k c1 = (d, c2)"
    by fastforce
  note del = del_kv_result [OF d]
  show "sys_kv c' = sys_kv c \<or> sys_kv c' = AList.delete k (sys_kv c) \<and> live now (sys_kv c) k = None"
    "user_db c' = user_db c" "r = Inr x \<Longrightarrow> x = live now (sys_kv c) k"
    using assms q d row del
    by (auto simp: read_with_expiry_def op_defs live_def split: sum.splits option.splits if_splits)
qed

lemma get_kv_result:
  assumes "get_kv now now' k c = (r, c')"
  shows "sys_kv c' = sys_kv c \<or> sys_kv c' = AList.delete k (sys_kv c) \<and> live now' (sys_kv c) k = None"
    "r = Inr x \<Longrightarrow> x = map_option (\<lambda>(v, e). \<lparr>ke_value = v, ke_ttl_seconds = ttl_or_remaining e now\<rparr>) (live now' (sys_kv c) k)"
proof -
  obtain q c1 where q: "read_with_expiry now' k c = (q, c1)"
    by fastforce
  note row = read_with_expiry_result [OF q]
  show "sys_kv c' = sys_kv c \<or> sys_kv c' = AList.delete k (sys_kv c) \<and> live now' (sys_kv c) k = None"
    using assms q row(1) by (auto simp: get_kv_def op_defs split: sum.splits option.splits)
  show "r = Inr x \<Longrightarrow> x = map_option (\<lambda>(v, e). \<lparr>ke_value = v, ke_ttl_seconds = ttl_or_remaining e now\<rparr>) (live now' (sys_kv c) k)"
    using assms q row(3) by (auto simp: get_kv_def op_defs split: sum.splits option.splits)
qed

lemma set_kv_result:
  assumes "set_kv now k v ttl nx xx c = (r, c')"
  shows "\<not> (r = Inr True) \<Longrightarrow> sys_kv c' = sys_kv c"
    "r = Inr True \<Longrightarrow> k \<noteq> [] \<and> (\<exists>n. sys_kv c' = AList.update k \<lparr>kv_value = v, kv_expires_at = expires_at_from ttl now, kv_version = n\<rparr> (sys_kv c)
        \<and> n = (case map_of (sys_kv c) k of None \<Rightarrow> 1 | Some q \<Rightarrow> kv_version q + 1))"
    "r = Inr b \<Longrightarrow> b \<longleftrightarrow> (if nx then map_of (sys_kv c) k = None else if xx then map_of (sys_kv c) k \<noteq> None else True)"
    "user_db c' = user_db c"
  using assms
  by (auto simp: set_kv_def op_defs UPSERT_def INSERT_IF_ABSENT_def UPDATE_IF_PRESENT_def Let_def
      split: prod.splits sum.splits if_splits option.splits dest!: stmt_results)

lemma exists_kv_result:
  assumes "exists_kv now k c = (r, c')"
  shows "sys_kv c' = sys_kv c" "r = Inr b \<Longrightarrow> b \<longleftrightarrow> live now (sys_kv c) k \<noteq> None"
proof -
  obtain q c1 where q: "read_row k c = (q, c1)"
    by fastforce
  show "sys_kv c' = sys_kv c" "r = Inr b \<Longrightarrow> b \<longleftrightarrow> live now (sys_kv c) k \<noteq> None"
    using assms q read_row_result [OF q]
    by (auto simp: exists_kv_def op_defs live_def split: sum.splits option.splits)
qed

lemma ttl_kv_result:
  assumes "ttl_kv now k c = (r, c')"
  shows "sys_kv c' = sys_kv c"
    "r = Inr x \<Longrightarrow> x = (case live now (sys_kv c) k of None \<Rightarrow> None
      | Some (_, None) \<Rightarrow> Some (- 1) | Some (_, Some e) \<Rightarrow> Some (max (wrap_i64 (e - now)) 0))"
proof -
  obtain q c1 where q: "read_row k c = (q, c1)"
    by fastforce
  show "sys_kv c' = sys_kv c"
    "r = Inr x \<Longrightarrow> x = (case live now (sys_kv c) k of None \<Rightarrow> None
      | Some (_, None) \<Rightarrow> Some (- 1) | Some (_, Some e) \<Rightarrow> Some (max (wrap_i64 (e - now)) 0))"
    using assms q read_row_result [OF q]
    by (auto simp: ttl_kv_def op_defs live_def split: sum.splits option.splits if_splits)
qed

lemma expire_kv_result:
  assumes "expire_kv now now' k ttl c = (r, c')"
  shows "r \<noteq> Inr True \<Longrightarrow> sys_kv c' = sys_kv c"
    "r = Inr True \<Longrightarrow> \<exists>q. map_of (sys_kv c) k = Some q \<and> \<not> is_expired (kv_expires_at q) now \<and>
      sys_kv c' = AList.update k (q\<lparr>kv_expires_at := expires_at_from ttl now', kv_version := kv_version q + 1\<rparr>) (sys_kv c)"
    "r = Inr b \<Longrightarrow> b \<longleftrightarrow> live now (sys_kv c) k \<noteq> None"
proof -
  obtain q c1 where q: "exists_kv now k c = (q, c1)"
    by fastforce
  note ex = exists_kv_result [OF q]
  show "r \<noteq> Inr True \<Longrightarrow> sys_kv c' = sys_kv c"
    "r = Inr b \<Longrightarrow> b \<longleftrightarrow> live now (sys_kv c) k \<noteq> None"
    using assms q ex
    by (auto simp: expire_kv_def op_defs split: prod.splits sum.splits if_splits dest!: stmt_results)
  show "r = Inr True \<Longrightarrow> \<exists>q. map_of (sys_kv c) k = Some q \<and> \<not> is_expired (kv_expires_at q) now \<and>
      sys_kv c' = AList.update k (q\<lparr>kv_expires_at := expires_at_from ttl now', kv_version := kv_version q + 1\<rparr>) (sys_kv c)"
    using assms q ex
    by (auto simp: expire_kv_def op_defs UPDATE_EXPIRY_def live_def
        split: prod.splits sum.splits if_splits option.splits dest!: stmt_results)
qed

text \<open>The expiry an increment leaves: a new TTL replaces the old expiry, none keeps it.\<close>

definition incr_expiry :: "nat option \<Rightarrow> int \<Rightarrow> (str \<times> int option) option \<Rightarrow> int option" where
  "incr_expiry ttl now old = (case expires_at_from ttl now of
      Some e \<Rightarrow> Some e | None \<Rightarrow> (case old of Some (_, e) \<Rightarrow> e | None \<Rightarrow> None))"

definition incr_value :: "int \<Rightarrow> (str \<times> int option) option \<Rightarrow> int option" where
  "incr_value delta old = (case old of
      Some (v, _) \<Rightarrow> if utf8_valid v then Option.bind (parse_i64 v) (\<lambda>n. checked_add_i64 n delta) else None
    | None \<Rightarrow> Some delta)"

lemma incr_target_result:
  assumes "incr_target dbg now k delta ttl c = (r, c')"
  shows "sys_kv c' = sys_kv c \<or> sys_kv c' = AList.delete k (sys_kv c) \<and> live now (sys_kv c) k = None"
    "r = Inr (x, e) \<Longrightarrow> incr_value delta (live now (sys_kv c) k) = Some x \<and> e = incr_expiry ttl now (live now (sys_kv c) k)"
proof -
  obtain q c1 where q: "read_row k c = (q, c1)"
    by fastforce
  obtain d c2 where d: "del_kv k c1 = (d, c2)"
    by fastforce
  note res = read_row_result [OF q] del_kv_result [OF d]
  show "sys_kv c' = sys_kv c \<or> sys_kv c' = AList.delete k (sys_kv c) \<and> live now (sys_kv c) k = None"
    using assms q d res
    by (auto simp: incr_target_def op_defs live_def split: sum.splits option.splits if_splits)
  show "r = Inr (x, e) \<Longrightarrow> incr_value delta (live now (sys_kv c) k) = Some x \<and> e = incr_expiry ttl now (live now (sys_kv c) k)"
    using assms q d res
    by (cases "map_of (sys_kv c) k"; cases "expires_at_from ttl now")
      (auto simp: incr_target_def op_defs live_def incr_value_def incr_expiry_def split: sum.splits option.splits if_splits)
qed

lemma incr_kv_result:
  assumes "incr_kv dbg now k delta ttl c = (r, c')"
  shows "r = Inl err \<Longrightarrow> sys_kv c' = sys_kv c \<or> sys_kv c' = AList.delete k (sys_kv c) \<and> live now (sys_kv c) k = None"
    "r = Inr x \<Longrightarrow> k \<noteq> [] \<and> incr_value delta (live now (sys_kv c) k) = Some x \<and>
      (\<exists>t. (t = sys_kv c \<or> t = AList.delete k (sys_kv c)) \<and>
        sys_kv c' = snd (UPSERT k (show_int x) (incr_expiry ttl now (live now (sys_kv c) k)) t))"
proof -
  obtain q c1 where q: "incr_target dbg now k delta ttl c = (q, c1)"
    by fastforce
  note target = incr_target_result [OF q]
  show "r = Inl err \<Longrightarrow> sys_kv c' = sys_kv c \<or> sys_kv c' = AList.delete k (sys_kv c) \<and> live now (sys_kv c) k = None"
    using assms q target(1)
    by (auto simp: incr_kv_def op_defs split: prod.splits sum.splits if_splits dest!: stmt_results)
  show "r = Inr x \<Longrightarrow> k \<noteq> [] \<and> incr_value delta (live now (sys_kv c) k) = Some x \<and>
      (\<exists>t. (t = sys_kv c \<or> t = AList.delete k (sys_kv c)) \<and>
        sys_kv c' = snd (UPSERT k (show_int x) (incr_expiry ttl now (live now (sys_kv c) k)) t))"
    using assms q target
    by (auto simp: incr_kv_def op_defs split: prod.splits sum.splits if_splits dest!: stmt_results)
qed

end
