(* ===== verification/Kv_Contract.thy ===== *)
theory Kv_Contract
  imports Kv_Store
begin

text \<open>
  The KV store of a cell against its contract: a map from keys to values with an expiry.  The
  store keeps expired rows until a read, an increment or the garbage collector removes them; the
  contract keeps them for ever and never shows them.  The clock is read up to twice by an
  operation, and the readings do not go backwards.
\<close>

section \<open>Operations on a connection without faults\<close>

lemma healthy_stmt:
  "healthy c \<Longrightarrow> \<exists>c'. run_stmt st c = (Inr (fst (st (sys_kv c))), c') \<and> healthy c'"
  using run_stmt_healthy [of c st] by (auto simp: healthy_def)

lemma healthy_cases:
  assumes "healthy c"
  obtains c' where "run_stmt st c = (Inr (fst (st (sys_kv c))), c')" "healthy c'"
    "sys_kv c' = snd (st (sys_kv c))" "user_db c' = user_db c"
proof -
  obtain c' where c': "run_stmt st c = (Inr (fst (st (sys_kv c))), c')" "healthy c'"
    using healthy_stmt [OF assms] by blast
  with stmt_results [OF c'(1)] show ?thesis
    by (intro that [of c']) auto
qed

lemma healthy_read_row:
  assumes "healthy c"
  obtains c' where "read_row k c = (Inr (map_option (\<lambda>r. (kv_value r, kv_expires_at r)) (map_of (sys_kv c) k)), c')"
    "healthy c'" "sys_kv c' = sys_kv c"
  by (rule healthy_cases [OF assms, of "SELECT_ROW k"]) (auto simp: read_row_def SELECT_ROW_def intro: that)

lemma healthy_del_kv:
  assumes "healthy c"
  obtains c' where "del_kv k c = (Inr (map_of (sys_kv c) k \<noteq> None), c')"
    "healthy c'" "sys_kv c' = AList.delete k (sys_kv c)"
  by (rule healthy_cases [OF assms, of "DELETE_KEY k"])
    (auto simp: del_kv_def DELETE_KEY_def op_defs intro: that)

text \<open>Every stored value is a Rust string.\<close>

definition kv_texts :: "kv_table \<Rightarrow> bool" where
  "kv_texts t \<longleftrightarrow> (\<forall>k r. map_of t k = Some r \<longrightarrow> utf8_valid (kv_value r))"

lemma kv_texts_update: "kv_texts t \<Longrightarrow> utf8_valid (kv_value r) \<Longrightarrow> kv_texts (AList.update k r t)"
  by (auto simp: kv_texts_def map_of_update split: if_splits)

lemma kv_texts_delete: "kv_texts t \<Longrightarrow> kv_texts (AList.delete k t)"
  by (auto simp: kv_texts_def map_of_delete split: if_splits)

lemma kv_texts_live: "kv_texts t \<Longrightarrow> live n t k = Some (v, e) \<Longrightarrow> utf8_valid v"
  by (auto simp: kv_texts_def live_def split: option.splits if_splits)

lemma healthy_read_with_expiry:
  assumes "healthy c" "kv_texts (sys_kv c)"
  obtains c' where "read_with_expiry now k c = (Inr (live now (sys_kv c) k), c')" "healthy c'"
proof -
  obtain c1 where c1: "read_row k c = (Inr (map_option (\<lambda>r. (kv_value r, kv_expires_at r)) (map_of (sys_kv c) k)), c1)"
    "healthy c1" "sys_kv c1 = sys_kv c"
    by (rule healthy_read_row [OF assms(1)])
  obtain c2 where c2: "del_kv k c1 = (Inr (map_of (sys_kv c1) k \<noteq> None), c2)" "healthy c2"
    by (rule healthy_del_kv [OF c1(2)])
  have "\<exists>c'. read_with_expiry now k c = (Inr (live now (sys_kv c) k), c') \<and> healthy c'"
    using c1 c2 assms(2)
    by (cases "map_of (sys_kv c) k") (auto simp: read_with_expiry_def op_defs live_def kv_texts_def split: if_splits)
  then show ?thesis
    using that by blast
qed

lemma healthy_get_kv:
  assumes "healthy c" "kv_texts (sys_kv c)"
  obtains c' where "get_kv now now' k c = (Inr (map_option
      (\<lambda>(v, e). \<lparr>ke_value = v, ke_ttl_seconds = ttl_or_remaining e now\<rparr>) (live now' (sys_kv c) k)), c')" "healthy c'"
proof (rule healthy_read_with_expiry [OF assms, of now' k])
  fix c1 assume "read_with_expiry now' k c = (Inr (live now' (sys_kv c) k), c1)" "healthy c1"
  then show ?thesis
    using that [of c1] by (auto simp: get_kv_def op_defs split: option.splits)
qed

lemma healthy_set_kv:
  assumes "healthy c" "k \<noteq> []"
  obtains c' where "set_kv now k v ttl False False c = (Inr True, c')" "healthy c'"
  by (rule healthy_cases [OF assms(1), of "UPSERT k v (expires_at_from ttl now)"])
    (auto simp: set_kv_def op_defs assms(2) Let_def intro: that)

lemma healthy_exists_kv:
  assumes "healthy c"
  obtains c' where "exists_kv now k c = (Inr (live now (sys_kv c) k \<noteq> None), c')" "healthy c'" "sys_kv c' = sys_kv c"
proof (rule healthy_read_row [OF assms, of k])
  fix c1
  assume c1: "read_row k c = (Inr (map_option (\<lambda>r. (kv_value r, kv_expires_at r)) (map_of (sys_kv c) k)), c1)"
    "healthy c1" "sys_kv c1 = sys_kv c"
  then show ?thesis
    using that [of c1] by (cases "map_of (sys_kv c) k") (auto simp: exists_kv_def op_defs live_def)
qed

lemma healthy_ttl_kv:
  assumes "healthy c"
  obtains x c' where "ttl_kv now k c = (Inr x, c')" "healthy c'"
proof (rule healthy_read_row [OF assms, of k])
  fix c1
  assume c1: "read_row k c = (Inr (map_option (\<lambda>r. (kv_value r, kv_expires_at r)) (map_of (sys_kv c) k)), c1)"
    "healthy c1"
  then have "\<exists>x. ttl_kv now k c = (Inr x, c1)"
    by (cases "map_of (sys_kv c) k"; cases "kv_expires_at (the (map_of (sys_kv c) k))")
      (auto simp: ttl_kv_def op_defs)
  then show ?thesis
    using that \<open>healthy c1\<close> by blast
qed

lemma healthy_expire_kv:
  assumes "healthy c"
  obtains c' where "expire_kv now now' k ttl c = (Inr (live now (sys_kv c) k \<noteq> None), c')" "healthy c'"
proof -
  obtain c1 where c1: "exists_kv now k c = (Inr (live now (sys_kv c) k \<noteq> None), c1)" "healthy c1"
    by (rule healthy_exists_kv [OF assms])
  obtain c2 where c2: "run_stmt (UPDATE_EXPIRY k (expires_at_from ttl now')) c1 = (Inr (fst (UPDATE_EXPIRY k (expires_at_from ttl now') (sys_kv c1))), c2)" "healthy c2"
    by (rule healthy_cases [OF c1(2)])
  show ?thesis
  proof (cases "live now (sys_kv c) k")
    case None
    then show ?thesis
      using that [of c1] c1 by (simp add: expire_kv_def op_defs)
  next
    case Some
    then show ?thesis
      using that [of c2] c1 c2 by (simp add: expire_kv_def op_defs)
  qed
qed

lemma healthy_incr_kv:
  assumes "healthy c" "k \<noteq> []"
  obtains r c' where "incr_kv dbg now k delta ttl c = (r, c')" "healthy c'"
    "is_ok r \<longleftrightarrow> incr_value delta (live now (sys_kv c) k) \<noteq> None"
proof -
  obtain c1 where c1: "read_row k c = (Inr (map_option (\<lambda>r. (kv_value r, kv_expires_at r)) (map_of (sys_kv c) k)), c1)"
    "healthy c1" "sys_kv c1 = sys_kv c"
    by (rule healthy_read_row [OF assms(1)])
  obtain c2 where c2: "del_kv k c1 = (Inr (map_of (sys_kv c1) k \<noteq> None), c2)" "healthy c2"
    by (rule healthy_del_kv [OF c1(2)])
  have target: "\<exists>q c3. incr_target dbg now k delta ttl c = (q, c3) \<and> healthy c3 \<and>
      (is_ok q \<longleftrightarrow> incr_value delta (live now (sys_kv c) k) \<noteq> None)"
    using c1 c2
    by (cases "map_of (sys_kv c) k") (auto simp: incr_target_def op_defs live_def incr_value_def split: option.splits)
  then obtain q c3 where q: "incr_target dbg now k delta ttl c = (q, c3)" "healthy c3"
    "is_ok q \<longleftrightarrow> incr_value delta (live now (sys_kv c) k) \<noteq> None"
    by blast
  show ?thesis
  proof (cases q)
    case (Inl e)
    then show ?thesis
      using that [of "Inl e" c3] q assms(2) by (auto simp: incr_kv_def op_defs)
  next
    case (Inr p)
    obtain c4 where "run_stmt (UPSERT k (show_int (fst p)) (snd p)) c3 = (Inr (fst (UPSERT k (show_int (fst p)) (snd p) (sys_kv c3))), c4)" "healthy c4"
      by (rule healthy_cases [OF q(2)])
    then show ?thesis
      using that [of "Inr (fst p)" c4] q assms(2) Inr by (cases p) (simp add: incr_kv_def op_defs)
  qed
qed

section \<open>Garbage collection\<close>

lemma DELETE_EXPIRED_live:
  assumes "kv_inv t" "now \<le> n"
  shows "live n (snd (DELETE_EXPIRED now lim t)) = live n t" "kv_inv (snd (DELETE_EXPIRED now lim t))"
proof -
  define ks where "ks = (let ks = map fst (filter (\<lambda>(k, r). is_expired (kv_expires_at r) now) t)
    in if lim < 0 then ks else take (nat lim) ks)"
  have t': "snd (DELETE_EXPIRED now lim t) = retain (\<lambda>k r. k \<notin> set ks) t"
    by (simp add: DELETE_EXPIRED_def ks_def retain_def Let_def)
  have gone: "is_expired (kv_expires_at r) n" if "k \<in> set ks" "map_of t k = Some r" for k r
  proof -
    have "k \<in> fst ` set (filter (\<lambda>(k, r). is_expired (kv_expires_at r) now) t)"
      using that(1) by (auto simp: ks_def Let_def split: if_splits dest: in_set_takeD)
    then obtain r' where "(k, r') \<in> set t" "is_expired (kv_expires_at r') now"
      by auto
    moreover have "map_of t k = Some r'"
      using assms(1) calculation(1) unfolding kv_inv_def by (simp add: map_of_is_SomeI)
    ultimately show ?thesis
      using that(2) assms(2) is_expired_mono by force
  qed
  have d: "distinct (map fst t)"
    using assms(1) by (simp add: kv_inv_def)
  show "live n (snd (DELETE_EXPIRED now lim t)) = live n t"
    unfolding t' live_def fun_eq_iff using gone
    by (auto simp: map_of_retain [OF d] split: option.splits)
  show "kv_inv (snd (DELETE_EXPIRED now lim t))"
    using assms(1) by (simp add: DELETE_EXPIRED_def Let_def kv_inv_filter)
qed

section \<open>The contract\<close>

datatype kv_cmd =
    KGet str | KSet str str "nat option" | KDel str | KExists str | KTtl str
  | KExpire str "nat option" | KIncr str int "nat option" | KGc int

datatype kv_reply = RValue "kv_entry option" | RBool bool | RTtl "int option" | RInt int | RUnit | RRefused

definition reply :: "('a \<Rightarrow> kv_reply) \<Rightarrow> 'a result \<times> 's \<Rightarrow> kv_reply \<times> 's" where
  "reply f p = (case fst p of Inl _ \<Rightarrow> RRefused | Inr x \<Rightarrow> f x, snd p)"

fun kv_exec :: "(str \<Rightarrow> str) \<Rightarrow> int \<Rightarrow> int \<Rightarrow> kv_cmd \<Rightarrow> 'u conn \<Rightarrow> kv_reply \<times> 'u conn" where
  "kv_exec dbg n n' (KGet k) c = reply RValue (get_kv n n' k c)"
| "kv_exec dbg n n' (KSet k v ttl) c = reply RBool (set_kv n k v ttl False False c)"
| "kv_exec dbg n n' (KDel k) c = reply (\<lambda>_. RUnit) (del_kv k c)"
| "kv_exec dbg n n' (KExists k) c = reply RBool (exists_kv n k c)"
| "kv_exec dbg n n' (KTtl k) c = reply RTtl (ttl_kv n k c)"
| "kv_exec dbg n n' (KExpire k ttl) c = reply RBool (expire_kv n n' k ttl c)"
| "kv_exec dbg n n' (KIncr k d ttl) c = reply RInt (incr_kv dbg n k d ttl c)"
| "kv_exec dbg n n' (KGc lim) c = reply (\<lambda>_. RUnit) (gc_expired n lim c)"

text \<open>The specification: a map that never forgets, and what of it is shown at a time.\<close>

type_synonym kv_map = "str \<rightharpoonup> str \<times> int option"

definition shown :: "int \<Rightarrow> kv_map \<Rightarrow> str \<Rightarrow> (str \<times> int option) option" where
  "shown n m k = (case m k of Some (v, e) \<Rightarrow> if is_expired e n then None else Some (v, e) | None \<Rightarrow> None)"

fun kv_spec :: "int \<Rightarrow> int \<Rightarrow> kv_cmd \<Rightarrow> kv_map \<Rightarrow> kv_reply \<times> kv_map" where
  "kv_spec n n' (KGet k) m =
    (RValue (map_option (\<lambda>(v, e). \<lparr>ke_value = v, ke_ttl_seconds = ttl_or_remaining e n\<rparr>) (shown n' m k)), m)"
| "kv_spec n n' (KSet k v ttl) m = (if k = [] then (RRefused, m) else (RBool True, m(k \<mapsto> (v, expires_at_from ttl n))))"
| "kv_spec n n' (KDel k) m = (RUnit, m(k := None))"
| "kv_spec n n' (KExists k) m = (RBool (shown n m k \<noteq> None), m)"
| "kv_spec n n' (KTtl k) m = (RTtl (case shown n m k of None \<Rightarrow> None | Some (_, None) \<Rightarrow> Some (- 1)
      | Some (_, Some e) \<Rightarrow> Some (max (wrap_i64 (e - n)) 0)), m)"
| "kv_spec n n' (KExpire k ttl) m = (case shown n m k of
      None \<Rightarrow> (RBool False, m)
    | Some (v, _) \<Rightarrow> (RBool True, m(k \<mapsto> (v, expires_at_from ttl n'))))"
| "kv_spec n n' (KIncr k d ttl) m = (if k = [] then (RRefused, m) else (case incr_value d (shown n m k) of
      None \<Rightarrow> (RRefused, m)
    | Some x \<Rightarrow> (RInt x, m(k \<mapsto> (show_int x, incr_expiry ttl n (shown n m k))))))"
| "kv_spec n n' (KGc lim) m = (RUnit, m)"

fun kv_run :: "(str \<Rightarrow> str) \<Rightarrow> ((int \<times> int) \<times> kv_cmd) list \<Rightarrow> 'u conn \<Rightarrow> kv_reply list \<times> 'u conn" where
  "kv_run dbg [] c = ([], c)"
| "kv_run dbg (((n, n'), cmd) # cmds) c =
    (let (r, c1) = kv_exec dbg n n' cmd c; (rs, c2) = kv_run dbg cmds c1 in (r # rs, c2))"

fun spec_run :: "((int \<times> int) \<times> kv_cmd) list \<Rightarrow> kv_map \<Rightarrow> kv_reply list \<times> kv_map" where
  "spec_run [] m = ([], m)"
| "spec_run (((n, n'), cmd) # cmds) m =
    (let (r, m1) = kv_spec n n' cmd m; (rs, m2) = spec_run cmds m1 in (r # rs, m2))"

fun clock_ok :: "int \<Rightarrow> ((int \<times> int) \<times> kv_cmd) list \<Rightarrow> bool" where
  "clock_ok prev [] = True"
| "clock_ok prev (((n, n'), cmd) # cmds) \<longleftrightarrow> prev \<le> n \<and> n \<le> n' \<and> clock_ok n' cmds"

fun cmd_ok :: "kv_cmd \<Rightarrow> bool" where
  "cmd_ok (KSet k v ttl) = utf8_valid v"
| "cmd_ok _ = True"

definition kv_rel :: "int \<Rightarrow> 'u conn \<Rightarrow> kv_map \<Rightarrow> bool" where
  "kv_rel n c m \<longleftrightarrow> healthy c \<and> kv_inv (sys_kv c) \<and> kv_texts (sys_kv c) \<and>
    (\<forall>j \<ge> n. live j (sys_kv c) = shown j m)"

lemma shown_upd [simp]:
  "shown j (m(k \<mapsto> (v, e))) = (shown j m)(k := if is_expired e j then None else Some (v, e))"
  "shown j (m(k := None)) = (shown j m)(k := None)"
  by (auto simp: shown_def fun_eq_iff)

lemma kv_rel_cases:
  assumes "kv_rel prev c m" "prev \<le> n"
  shows "healthy c" "kv_inv (sys_kv c)" "kv_texts (sys_kv c)" "live n (sys_kv c) = shown n m"
  using assms by (auto simp: kv_rel_def)

text \<open>The table may stay, or lose a row the reader found expired.\<close>

lemma kv_rel_same:
  assumes "kv_rel prev c m" "prev \<le> n'" "healthy c'"
    "sys_kv c' = sys_kv c \<or> sys_kv c' = AList.delete k (sys_kv c) \<and> live n' (sys_kv c) k = None"
  shows "kv_rel n' c' m"
  using assms kv_inv_delete [of "sys_kv c" k] kv_texts_delete [of "sys_kv c" k]
    live_delete_expired [of n' "sys_kv c" k]
  by (auto simp: kv_rel_def)

lemma kv_rel_update:
  assumes "kv_rel prev c m" "prev \<le> n'" "healthy c'" "k \<noteq> []" "1 \<le> kv_version q" "utf8_valid (kv_value q)"
    "t = sys_kv c \<or> t = AList.delete k (sys_kv c)" "sys_kv c' = AList.update k q t"
  shows "kv_rel n' c' (m(k \<mapsto> (kv_value q, kv_expires_at q)))"
  using assms kv_inv_delete [of "sys_kv c" k] kv_texts_delete [of "sys_kv c" k]
  by (auto simp: kv_rel_def live_update live_delete intro!: kv_inv_update kv_texts_update)

definition simulates :: "(str \<Rightarrow> str) \<Rightarrow> int \<Rightarrow> int \<Rightarrow> kv_cmd \<Rightarrow> 'u conn \<Rightarrow> kv_map \<Rightarrow> bool" where
  "simulates dbg n n' cmd c m \<longleftrightarrow>
    fst (kv_exec dbg n n' cmd c) = fst (kv_spec n n' cmd m) \<and>
    kv_rel n' (snd (kv_exec dbg n n' cmd c)) (snd (kv_spec n n' cmd m))"

lemma simulates_reads:
  assumes rel: "kv_rel prev c m" and time: "prev \<le> n" "n \<le> n'"
  shows "simulates dbg n n' (KGet k) c m" "simulates dbg n n' (KExists k) c m" "simulates dbg n n' (KTtl k) c m"
proof -
  have time': "prev \<le> n'"
    using time by simp
  note rel_n = kv_rel_cases [OF rel time(1)] and rel_n' = kv_rel_cases [OF rel time']
  obtain c1 where c1: "get_kv n n' k c = (Inr (map_option
      (\<lambda>(v, e). \<lparr>ke_value = v, ke_ttl_seconds = ttl_or_remaining e n\<rparr>) (live n' (sys_kv c) k)), c1)" "healthy c1"
    by (rule healthy_get_kv [OF rel_n(1,3)])
  show "simulates dbg n n' (KGet k) c m"
    using c1 kv_rel_same [OF rel time' c1(2) get_kv_result(1) [OF c1(1)]] rel_n'(4)
    by (simp add: simulates_def reply_def)
  obtain c2 where c2: "exists_kv n k c = (Inr (live n (sys_kv c) k \<noteq> None), c2)" "healthy c2" "sys_kv c2 = sys_kv c"
    by (rule healthy_exists_kv [OF rel_n(1)])
  show "simulates dbg n n' (KExists k) c m"
    using c2 kv_rel_same [OF rel time' c2(2)] rel_n(4) by (simp add: simulates_def reply_def)
  obtain x c3 where c3: "ttl_kv n k c = (Inr x, c3)" "healthy c3"
    by (rule healthy_ttl_kv [OF rel_n(1)])
  show "simulates dbg n n' (KTtl k) c m"
    using c3 kv_rel_same [OF rel time' c3(2)] ttl_kv_result [OF c3(1)] rel_n(4)
    by (simp add: simulates_def reply_def)
qed

lemma simulates_writes:
  assumes rel: "kv_rel prev c m" and time: "prev \<le> n" "n \<le> n'"
  shows "utf8_valid v \<Longrightarrow> simulates dbg n n' (KSet k v ttl) c m" "simulates dbg n n' (KDel k) c m"
    "simulates dbg n n' (KGc lim) c m"
proof -
  have time': "prev \<le> n'"
    using time by simp
  note rel_n = kv_rel_cases [OF rel time(1)]
  show "simulates dbg n n' (KSet k v ttl) c m" if v: "utf8_valid v"
  proof (cases "k = []")
    case True
    then show ?thesis
      using kv_rel_same [OF rel time' rel_n(1)] by (simp add: simulates_def reply_def set_kv_def raise_def)
  next
    case False
    obtain c1 where c1: "set_kv n k v ttl False False c = (Inr True, c1)" "healthy c1"
      by (rule healthy_set_kv [OF rel_n(1) False])
    obtain i where i: "sys_kv c1 = AList.update k \<lparr>kv_value = v, kv_expires_at = expires_at_from ttl n, kv_version = i\<rparr> (sys_kv c)"
      "i = (case map_of (sys_kv c) k of None \<Rightarrow> 1 | Some q \<Rightarrow> kv_version q + 1)"
      using set_kv_result(2) [OF c1(1)] by auto
    have "1 \<le> i"
      using i(2) kv_inv_version [OF rel_n(2), of k] by (force split: option.splits)
    then show ?thesis
      using kv_rel_update [OF rel time' c1(2) False _ _ _ i(1)] v c1 False by (simp add: simulates_def reply_def)
  qed
  obtain c2 where c2: "del_kv k c = (Inr (map_of (sys_kv c) k \<noteq> None), c2)" "healthy c2" "sys_kv c2 = AList.delete k (sys_kv c)"
    by (rule healthy_del_kv [OF rel_n(1)])
  then show "simulates dbg n n' (KDel k) c m"
    using rel time' by (auto simp: simulates_def reply_def kv_rel_def kv_inv_delete kv_texts_delete live_delete)
  obtain c3 where c3: "gc_expired n lim c = (Inr (fst (DELETE_EXPIRED n lim (sys_kv c))), c3)" "healthy c3"
    "sys_kv c3 = snd (DELETE_EXPIRED n lim (sys_kv c))"
    unfolding gc_expired_def by (rule healthy_cases [OF rel_n(1)])
  have "kv_texts (snd (DELETE_EXPIRED n lim (sys_kv c)))"
    using rel_n(2,3) unfolding kv_texts_def DELETE_EXPIRED_def Let_def kv_inv_def
    by (auto dest!: map_of_SomeD intro: map_of_is_SomeI)
  then show "simulates dbg n n' (KGc lim) c m"
    using rel time time' c3 DELETE_EXPIRED_live [OF rel_n(2)]
    by (auto simp: simulates_def reply_def kv_rel_def)
qed

lemma simulates_rewrites:
  assumes rel: "kv_rel prev c m" and time: "prev \<le> n" "n \<le> n'"
  shows "simulates dbg n n' (KExpire k ttl) c m" "simulates dbg n n' (KIncr k d ttl) c m"
proof -
  have time': "prev \<le> n'"
    using time by simp
  note rel_n = kv_rel_cases [OF rel time(1)]
  obtain c1 where c1: "expire_kv n n' k ttl c = (Inr (live n (sys_kv c) k \<noteq> None), c1)" "healthy c1"
    by (rule healthy_expire_kv [OF rel_n(1)])
  note ex = expire_kv_result [OF c1(1)]
  show "simulates dbg n n' (KExpire k ttl) c m"
  proof (cases "live n (sys_kv c) k")
    case None
    then show ?thesis
      using kv_rel_same [OF rel time' c1(2)] ex(1) c1 rel_n(4) by (simp add: simulates_def reply_def)
  next
    case (Some p)
    then obtain q where q: "map_of (sys_kv c) k = Some q" "\<not> is_expired (kv_expires_at q) n"
      "sys_kv c1 = AList.update k (q\<lparr>kv_expires_at := expires_at_from ttl n', kv_version := kv_version q + 1\<rparr>) (sys_kv c)"
      using ex(2) by auto
    have p: "p = (kv_value q, kv_expires_at q)"
      using Some q by (simp add: live_def)
    have "utf8_valid (kv_value q)" "1 \<le> kv_version q" "k \<noteq> []"
      using rel_n(2,3) q(1) kv_inv_version kv_inv_key by (auto simp: kv_texts_def)
    then show ?thesis
      using kv_rel_update [OF rel time' c1(2) _ _ _ _ q(3)] c1 rel_n(4) Some p by (simp add: simulates_def reply_def)
  qed
  show "simulates dbg n n' (KIncr k d ttl) c m"
  proof (cases "k = []")
    case True
    then show ?thesis
      using kv_rel_same [OF rel time' rel_n(1)] by (simp add: simulates_def reply_def incr_kv_def raise_def)
  next
    case False
    obtain r c2 where c2: "incr_kv dbg n k d ttl c = (r, c2)" "healthy c2"
      "is_ok r \<longleftrightarrow> incr_value d (live n (sys_kv c) k) \<noteq> None"
      by (rule healthy_incr_kv [OF rel_n(1) False])
    note inc = incr_kv_result [OF c2(1)]
    show ?thesis
    proof (cases r)
      case (Inl e)
      then have "kv_rel n c2 m"
        using kv_rel_same [OF rel time(1) c2(2)] inc(1) by blast
      then have "kv_rel n' c2 m"
        using time(2) by (auto simp: kv_rel_def)
      then show ?thesis
        using c2 Inl False rel_n(4) by (simp add: simulates_def reply_def)
    next
      case (Inr x)
      then obtain t where t: "t = sys_kv c \<or> t = AList.delete k (sys_kv c)" "incr_value d (live n (sys_kv c) k) = Some x"
        "sys_kv c2 = snd (UPSERT k (show_int x) (incr_expiry ttl n (live n (sys_kv c) k)) t)"
        using inc(2) by blast
      have "1 \<le> (case map_of t k of None \<Rightarrow> 1 | Some r \<Rightarrow> kv_version r + 1)"
        using t(1) kv_inv_version [of t k] rel_n(2) kv_inv_delete [OF rel_n(2), of k] by (force split: option.splits)
      from kv_rel_update [OF rel time' c2(2) False _ _ t(1) t(3) [unfolded UPSERT_def snd_conv], simplified, OF this]
      show ?thesis
        using c2(1) Inr False rel_n(4) t(2) by (simp add: simulates_def reply_def)
    qed
  qed
qed

lemma simulates_step:
  "kv_rel prev c m \<Longrightarrow> prev \<le> n \<Longrightarrow> n \<le> n' \<Longrightarrow> cmd_ok cmd \<Longrightarrow> simulates dbg n n' cmd c m"
  by (cases cmd) (auto intro: simulates_reads simulates_writes simulates_rewrites)

lemma kv_run_spec:
  "kv_rel prev c m \<Longrightarrow> clock_ok prev cmds \<Longrightarrow> \<forall>p \<in> set cmds. cmd_ok (snd p) \<Longrightarrow>
    fst (kv_run dbg cmds c) = fst (spec_run cmds m)"
proof (induction cmds arbitrary: prev c m)
  case (Cons p cmds)
  obtain n n' cmd where p: "p = ((n, n'), cmd)"
    by (metis prod.exhaust)
  have sim: "simulates dbg n n' cmd c m"
    using Cons.prems unfolding p by (intro simulates_step [of prev]) auto
  have "fst (kv_run dbg cmds (snd (kv_exec dbg n n' cmd c))) = fst (spec_run cmds (snd (kv_spec n n' cmd m)))"
    using Cons.prems sim unfolding p simulates_def by (intro Cons.IH [of n']) auto
  then show ?case
    using sim unfolding p simulates_def by (simp add: case_prod_beta Let_def)
qed simp


definition empty_conn :: "unit conn" where
  "empty_conn = \<lparr>sys_kv = [], user_db = (), faults = []\<rparr>"

definition expiry_script :: "((int \<times> int) \<times> kv_cmd) list" where
  "expiry_script = [((1, 1), KSet ''a'' ''5'' (Some 10)), ((2, 3), KIncr ''a'' 3 None), ((4, 4), KTtl ''a''),
    ((20, 20), KGc 1000), ((20, 21), KGet ''a''), ((30, 30), KIncr ''a'' 1 None)]"


section \<open>Faults and expired rows\<close>

text \<open>
  An operation that fails changes nothing a client can see. Whatever statements SQLite fails,
  if a get, set, del, exists, ttl, expire or incr returns an error, every key has, at every time
  from the operation on, the value and the expiry it had before.
\<close>

theorem kv_error_keeps_data:
  assumes run: "kv_exec dbg n n' cmd c = (RRefused, c')" and "n \<le> n'" "n' \<le> j"
  shows "live j (sys_kv c') = live j (sys_kv c)"
proof -
  note stay = live_delete_expired [of n "sys_kv c" _ j] live_delete_expired [of n' "sys_kv c" _ j]
  have time: "n \<le> j"
    using assms by simp
  show ?thesis
  proof (cases cmd)
    case (KGet k)
    then show ?thesis
      using run assms(3) stay get_kv_result(1) [of n n' k c "fst (get_kv n n' k c)" c']
      by (auto simp: reply_def prod_eq_iff)
  next
    case (KSet k v ttl)
    then show ?thesis
      using run set_kv_result(1) [of n k v ttl False False c "fst (set_kv n k v ttl False False c)" c']
      by (auto simp: reply_def prod_eq_iff split: sum.splits)
  next
    case (KDel k)
    then show ?thesis
      using run del_kv_result(1) [of k c "fst (del_kv k c)" c'] by (auto simp: reply_def prod_eq_iff split: sum.splits)
  next
    case (KExists k)
    then show ?thesis
      using run exists_kv_result(1) [of n k c "fst (exists_kv n k c)" c'] by (auto simp: reply_def prod_eq_iff)
  next
    case (KTtl k)
    then show ?thesis
      using run ttl_kv_result(1) [of n k c "fst (ttl_kv n k c)" c'] by (auto simp: reply_def prod_eq_iff)
  next
    case (KExpire k ttl)
    then show ?thesis
      using run expire_kv_result(1) [of n n' k ttl c "fst (expire_kv n n' k ttl c)" c']
      by (auto simp: reply_def prod_eq_iff split: sum.splits)
  next
    case (KIncr k d ttl)
    then show ?thesis
      using run time stay incr_kv_result(1) [of dbg n k d ttl c "fst (incr_kv dbg n k d ttl c)" c']
      by (fastforce simp: reply_def prod_eq_iff split: sum.splits)
  next
    case (KGc lim)
    then show ?thesis
      using run stmt_results [of "DELETE_EXPIRED n lim" c "fst (gc_expired n lim c)" c']
      by (auto simp: reply_def prod_eq_iff gc_expired_def split: sum.splits)
  qed
qed

definition faulty_conn :: "unit conn" where
  "faulty_conn = \<lparr>sys_kv = [(''a'', \<lparr>kv_value = ''5'', kv_expires_at = Some 3, kv_version = 1\<rparr>)],
    user_db = (), faults = [None, None, Some ''disk I/O error'']\<rparr>"

theorem kv_error_keeps_data_witness:
  "\<exists>c'. kv_exec id 7 7 (KIncr ''a'' 1 None) faulty_conn = (RRefused, c') \<and> sys_kv c' = [] \<and>
    live 9 (sys_kv c') = live 9 (sys_kv faulty_conn)"
proof -
  obtain c' where c': "kv_exec id 7 7 (KIncr ''a'' 1 None) faulty_conn = (RRefused, c')" "sys_kv c' = []"
    by (simp add: faulty_conn_def incr_kv_def incr_target_def read_row_def del_kv_def run_stmt_def op_defs
        SELECT_ROW_def DELETE_KEY_def reply_def)
  with kv_error_keeps_data [OF c'(1), of 9] show ?thesis
    by auto
qed

text \<open>
  Conditional writes and deletions see expired rows. For a key whose row has expired but is
  still stored, exists answers no, yet a set with NX is refused, a set with XX is accepted and a del
  reports a deletion; after a read of the same key the same set with NX is accepted.
\<close>

theorem kv_nx_expired:
  assumes "healthy c" "kv_inv (sys_kv c)" "map_of (sys_kv c) k = Some r" "is_expired (kv_expires_at r) now"
  shows "fst (exists_kv now k c) = Inr False \<and> fst (set_kv now k v ttl True False c) = Inr False
    \<and> fst (set_kv now k v ttl False True c) = Inr True \<and> fst (del_kv k c) = Inr True
    \<and> fst (set_kv now k v ttl True False (snd (get_kv now now k c))) = Inr True"
proof -
  have k: "k \<noteq> []"
    using assms(2,3) by (rule kv_inv_key)
  have dead: "live now (sys_kv c) k = None"
    using assms(3,4) by (simp add: live_def)
  have nx: "fst (set_kv now k v ttl True False d) = Inr (map_of (sys_kv d) k = None)" if "healthy d" for d :: "'a conn"
    by (rule healthy_cases [OF that, of "INSERT_IF_ABSENT k v (expires_at_from ttl now)"])
      (auto simp: set_kv_def op_defs k INSERT_IF_ABSENT_def Let_def split: option.splits)
  have xx: "fst (set_kv now k v ttl False True c) = Inr True"
    by (rule healthy_cases [OF assms(1), of "UPDATE_IF_PRESENT k v (expires_at_from ttl now)"])
      (auto simp: set_kv_def op_defs k UPDATE_IF_PRESENT_def assms(3) Let_def)
  obtain c1 where c1: "read_row k c = (Inr (map_option (\<lambda>r. (kv_value r, kv_expires_at r)) (map_of (sys_kv c) k)), c1)"
    "healthy c1" "sys_kv c1 = sys_kv c"
    by (rule healthy_read_row [OF assms(1)])
  obtain c2 where c2: "del_kv k c1 = (Inr (map_of (sys_kv c1) k \<noteq> None), c2)" "healthy c2"
    "sys_kv c2 = AList.delete k (sys_kv c1)"
    by (rule healthy_del_kv [OF c1(2)])
  have "snd (get_kv now now k c) = c2"
    using c1 c2 assms(3,4) by (simp add: get_kv_def read_with_expiry_def op_defs)
  moreover have "fst (exists_kv now k c) = Inr False"
    by (rule healthy_exists_kv [OF assms(1), of now k]) (simp add: dead)
  moreover have "fst (del_kv k c) = Inr True"
    by (rule healthy_del_kv [OF assms(1), of k]) (simp add: assms(3))
  ultimately show ?thesis
    using nx [OF assms(1)] nx [OF c2(2)] xx assms(3) c2(3) by (simp add: map_of_delete)
qed

theorem kv_nx_expired_witness:
  "let c = faulty_conn\<lparr>faults := []\<rparr> in fst (exists_kv 7 ''a'' c) = Inr False
    \<and> fst (set_kv 7 ''a'' ''new'' None True False c) = Inr False
    \<and> fst (set_kv 7 ''a'' ''new'' None True False (snd (get_kv 7 7 ''a'' c))) = Inr True"
  using kv_nx_expired [of "faulty_conn\<lparr>faults := []\<rparr>" "''a''" "\<lparr>kv_value = ''5'', kv_expires_at = Some 3, kv_version = 1\<rparr>" 7 "''new''" None]
  by (simp add: faulty_conn_def healthy_def kv_inv_def Let_def)

end
