(* ===== verification/Kv_Scan.thy ===== *)
theory Kv_Scan
  imports Kv_Contract
begin

text \<open>
  The paginated prefix scan (\<open>scan\<close> of \<open>data-node/src/kv.rs\<close>): following the cursors visits every
  unexpired key that matches once, in order, and ends.
\<close>

section \<open>The pattern\<close>

lemma like_percent: "like ''%'' t"
proof (induction "length t" arbitrary: t rule: less_induct)
  case less
  show ?case
  proof (cases "t = []")
    case False
    then have "like ''%'' (skip_char t)"
      using less skip_char_shorter by simp
    with False show ?thesis
      by (simp add: like.simps)
  qed (simp add: like.simps)
qed

lemma like_char:
  "a \<noteq> CHR ''%'' \<Longrightarrow> a \<noteq> CHR ''_'' \<Longrightarrow>
    like (a # ps) t \<longleftrightarrow> t \<noteq> [] \<and> ascii_lower a = ascii_lower (hd t) \<and> like ps (tl t)"
  by (subst like.simps) simp

definition plain :: "str \<Rightarrow> bool" where
  "plain p \<longleftrightarrow> CHR ''%'' \<notin> set p \<and> CHR ''_'' \<notin> set p"

lemma like_plain:
  "plain p \<Longrightarrow> like (p @ ''%'') t \<longleftrightarrow> starts_with (to_ascii_lowercase t) (to_ascii_lowercase p)"
proof (induction p arbitrary: t)
  case Nil
  have "like ''%'' t"
    by (rule like_percent)
  then show ?case
    by (simp add: starts_with_def to_ascii_lowercase_def)
next
  case (Cons a p)
  then have a: "a \<noteq> CHR ''%''" "a \<noteq> CHR ''_''" and p: "plain p"
    by (auto simp: plain_def)
  have "like ((a # p) @ ''%'') t \<longleftrightarrow> t \<noteq> [] \<and> ascii_lower a = ascii_lower (hd t) \<and> like (p @ ''%'') (tl t)"
    using like_char [OF a] by simp
  then show ?case
    unfolding Cons.IH [OF p] by (cases t) (auto simp: starts_with_def to_ascii_lowercase_def)
qed

section \<open>Pages\<close>

definition matches :: "int \<Rightarrow> str \<Rightarrow> kv_table \<Rightarrow> str list" where
  "matches now pfx t = sort (filter (\<lambda>k. live now t k \<noteq> None \<and> like (pfx @ ''%'') k) (map fst t))"

lemma matches_sorted: "kv_inv t \<Longrightarrow> sorted (matches now pfx t) \<and> distinct (matches now pfx t)"
  by (simp add: matches_def kv_inv_def distinct_filter)

lemma SELECT_KEYS_matches:
  assumes "kv_inv t"
  shows "SELECT_KEYS now pfx cursor n t = (take n (filter (\<lambda>k. cursor = [] \<or> k > cursor) (matches now pfx t)), t)"
proof -
  have live: "live now t k \<noteq> None \<longleftrightarrow> (case kv_expires_at r of None \<Rightarrow> True | Some e \<Rightarrow> e > now)" if "(k, r) \<in> set t" for k r
    using assms that by (auto simp: live_def kv_inv_def split: option.splits)
  have "map fst (filter (\<lambda>(k, r). (case kv_expires_at r of None \<Rightarrow> True | Some e \<Rightarrow> e > now) \<and>
        like (pfx @ ''%'') k \<and> (cursor = [] \<or> k > cursor)) t)
      = filter (\<lambda>k. cursor = [] \<or> k > cursor) (filter (\<lambda>k. live now t k \<noteq> None \<and> like (pfx @ ''%'') k) (map fst t))"
    unfolding filter_map filter_filter
  proof (intro arg_cong [where f = "map fst"] filter_cong refl)
    fix p assume "p \<in> set t"
    then show "(case p of (k, r) \<Rightarrow> (case kv_expires_at r of None \<Rightarrow> True | Some e \<Rightarrow> e > now) \<and>
        like (pfx @ ''%'') k \<and> (cursor = [] \<or> k > cursor)) \<longleftrightarrow>
      (((\<lambda>k. live now t k \<noteq> None \<and> like (pfx @ ''%'') k) \<circ> fst) p \<and> ((\<lambda>k. cursor = [] \<or> k > cursor) \<circ> fst) p)"
      using live [of "fst p" "snd p"] by (simp add: case_prod_beta del: not_None_eq)
  qed
  then show ?thesis
    unfolding SELECT_KEYS_def matches_def filter_sort by simp
qed

fun scan_pages :: "nat \<Rightarrow> int \<Rightarrow> str \<Rightarrow> nat \<Rightarrow> str \<Rightarrow> 'u conn \<Rightarrow> str list option" where
  "scan_pages 0 now pfx lim cursor c = None"
| "scan_pages (Suc fuel) now pfx lim cursor c = (case scan_kv now pfx lim cursor c of
      (Inl _, _) \<Rightarrow> None
    | (Inr r, c') \<Rightarrow> (if sr_next_cursor r = [] then Some (sr_keys r)
        else map_option ((@) (sr_keys r)) (scan_pages fuel now pfx lim (sr_next_cursor r) c')))"

lemma sorted_rest:
  fixes xs :: "'a :: linorder list"
  assumes "sorted xs" "distinct xs" "0 < n" "n < length xs"
  shows "filter (\<lambda>x. x > last (take n xs)) xs = drop n xs"
proof -
  let ?z = "last (take n xs)"
  have z: "?z \<in> set (take n xs)"
    using assms by (intro last_in_set) auto
  have split: "sorted (take n xs @ drop n xs)" "distinct (take n xs @ drop n xs)"
    using assms by simp_all
  have lo: "x \<le> ?z" if "x \<in> set (take n xs)" for x
  proof -
    have "take n xs = butlast (take n xs) @ [?z]"
      using assms by (intro append_butlast_last_id [symmetric]) auto
    moreover have "sorted (take n xs)"
      using assms(1) by (rule sorted_wrt_take)
    ultimately have "\<forall>y \<in> set (butlast (take n xs)). y \<le> ?z" "x \<in> set (butlast (take n xs) @ [?z])"
      using that by (metis list.set_intros(1) sorted_append, simp)
    then show ?thesis
      by auto
  qed
  have hi: "x > ?z" if "x \<in> set (drop n xs)" for x
  proof -
    have "?z \<le> x"
      using split(1) z that unfolding sorted_append by blast
    moreover have "?z \<noteq> x"
      using split(2) z that unfolding distinct_append by blast
    ultimately show ?thesis
      by simp
  qed
  have "filter (\<lambda>x. x > ?z) (take n xs @ drop n xs) = drop n xs"
    unfolding filter_append using lo hi by (simp add: filter_empty_conv filter_id_conv not_less)
  then show ?thesis
    by simp
qed

text \<open>One page, seen on the list of matching keys that lie after the cursor.\<close>

lemma scan_kv_page:
  fixes lim :: nat and now :: int and pfx cursor :: str and c :: "'u conn"
  assumes "healthy c" "kv_inv (sys_kv c)"
  defines "rest \<equiv> filter (\<lambda>k. cursor = [] \<or> k > cursor) (matches now pfx (sys_kv c))" and "n \<equiv> max 1 (min lim 1000)"
  obtains c' where "healthy c'" "sys_kv c' = sys_kv c"
    "scan_kv now pfx lim cursor c = (Inr \<lparr>sr_keys = take n rest,
      sr_next_cursor = (if length rest > n then last (take n rest) else [])\<rparr>, c')"
proof -
  obtain c' where c': "run_stmt (SELECT_KEYS now pfx cursor (n + 1)) c =
      (Inr (fst (SELECT_KEYS now pfx cursor (n + 1) (sys_kv c))), c')" "healthy c'"
      "sys_kv c' = snd (SELECT_KEYS now pfx cursor (n + 1) (sys_kv c))"
    by (rule healthy_cases [OF assms(1)])
  have rows: "SELECT_KEYS now pfx cursor (n + 1) (sys_kv c) = (take (n + 1) rest, sys_kv c)"
    unfolding rest_def by (rule SELECT_KEYS_matches [OF assms(2)])
  have n: "0 < n"
    by (simp add: n_def)
  have more: "n < length (take (n + 1) rest) \<longleftrightarrow> n < length rest"
    by auto
  show ?thesis
  proof (rule that [OF c'(2)])
    show "sys_kv c' = sys_kv c"
      using c'(3) rows by simp
    show "scan_kv now pfx lim cursor c = (Inr \<lparr>sr_keys = take n rest,
      sr_next_cursor = (if length rest > n then last (take n rest) else [])\<rparr>, c')"
      using c'(1) n more unfolding rows scan_kv_def Let_def n_def [symmetric]
      by (cases "rest = []") (simp_all add: op_defs min_def)
  qed
qed

lemma scan_pages_rest:
  assumes "healthy c" "kv_inv (sys_kv c)"
    "length (filter (\<lambda>k. cursor = [] \<or> k > cursor) (matches now pfx (sys_kv c))) < fuel"
  shows "scan_pages fuel now pfx lim cursor c =
    Some (filter (\<lambda>k. cursor = [] \<or> k > cursor) (matches now pfx (sys_kv c)))"
  using assms
proof (induction fuel arbitrary: cursor c)
  case (Suc fuel)
  define rest where "rest = filter (\<lambda>k. cursor = [] \<or> k > cursor) (matches now pfx (sys_kv c))"
  define n where "n = max 1 (min lim 1000)"
  obtain c' where c': "healthy c'" "sys_kv c' = sys_kv c" "scan_kv now pfx lim cursor c =
      (Inr \<lparr>sr_keys = take n rest, sr_next_cursor = (if length rest > n then last (take n rest) else [])\<rparr>, c')"
    unfolding rest_def n_def by (rule scan_kv_page [OF Suc.prems(1,2), where cursor = cursor and now = now and pfx = pfx and lim = lim])
  have ord: "sorted rest" "distinct rest"
    using matches_sorted [OF Suc.prems(2), of now pfx] by (simp_all add: rest_def distinct_filter sorted_filter [where f = id, simplified])
  show ?case
  proof (cases "length rest > n")
    case True
    let ?z = "last (take n rest)"
    have z: "?z \<in> set rest"
      using True by (metis in_set_takeD last_in_set length_0_conv length_take less_nat_zero_code min.absorb4 n_def max.strict_coboundedI1 zero_less_one)
    have "set rest \<subseteq> set (map fst (sys_kv c))"
      by (auto simp: rest_def matches_def)
    then have "?z \<noteq> []"
      using z Suc.prems(2) unfolding kv_inv_def by (metis subsetD)
    have "n > 0"
      by (simp add: n_def)
    have next_rest: "filter (\<lambda>k. ?z = [] \<or> k > ?z) (matches now pfx (sys_kv c')) = drop n rest"
    proof -
      have "filter (\<lambda>k. k > ?z) rest = filter (\<lambda>k. k > ?z) (matches now pfx (sys_kv c))"
        unfolding rest_def filter_filter using z by (intro filter_cong) (auto simp: rest_def)
      then show ?thesis
        using sorted_rest [OF ord \<open>n > 0\<close> True] \<open>?z \<noteq> []\<close> c'(2) by simp
    qed
    have "scan_pages fuel now pfx lim ?z c' = Some (drop n rest)"
      unfolding next_rest [symmetric]
    proof (rule Suc.IH [OF c'(1)])
      show "kv_inv (sys_kv c')"
        unfolding c'(2) by (rule Suc.prems(2))
      show "length (filter (\<lambda>k. ?z = [] \<or> k > ?z) (matches now pfx (sys_kv c'))) < fuel"
        unfolding next_rest using Suc.prems(3) \<open>n > 0\<close> True unfolding rest_def [symmetric] by simp
    qed
    then show ?thesis
      unfolding rest_def [symmetric] scan_pages.simps c'(3) using True \<open>?z \<noteq> []\<close> by simp
  next
    case False
    then show ?thesis
      unfolding rest_def [symmetric] scan_pages.simps c'(3) by simp
  qed
qed simp

lemma live_key: "live n t k = Some p \<Longrightarrow> k \<in> fst ` set t"
  by (force simp: live_def split: option.splits if_splits dest!: map_of_SomeD)

text \<open>
  C24: Paging through a prefix scan is complete and ends. Starting with an empty cursor and
  following the returned cursors until one is empty, the pages put together are exactly the
  unexpired keys that match the pattern, each once and in byte order, after at most one request
  more than there are rows, whatever the page size. For a prefix without the characters percent
  and underscore, a key matches if it starts with the prefix up to ASCII case.
\<close>

theorem kv_scan_pages:
  assumes "healthy c" "kv_inv (sys_kv c)" "length (sys_kv c) < fuel"
  shows "\<exists>ks. scan_pages fuel now pfx lim [] c = Some ks \<and> sorted ks \<and> distinct ks \<and>
    set ks = {k. live now (sys_kv c) k \<noteq> None \<and> like (pfx @ ''%'') k} \<and>
    (plain pfx \<longrightarrow> set ks = {k. live now (sys_kv c) k \<noteq> None
      \<and> starts_with (to_ascii_lowercase k) (to_ascii_lowercase pfx)})"
proof -
  have "length (matches now pfx (sys_kv c)) \<le> length (sys_kv c)"
    unfolding matches_def by (simp add: order_trans [OF length_filter_le])
  then have "scan_pages fuel now pfx lim [] c = Some (matches now pfx (sys_kv c))"
    using scan_pages_rest [OF assms(1,2), of "[]" now pfx fuel lim] assms(3) by simp
  moreover have "set (matches now pfx (sys_kv c)) = {k. live now (sys_kv c) k \<noteq> None \<and> like (pfx @ ''%'') k}"
    using live_key by (auto simp: matches_def)
  ultimately show ?thesis
    using matches_sorted [OF assms(2), of now pfx] like_plain [of pfx] by simp
qed

definition scan_conn :: "unit conn" where
  "scan_conn = \<lparr>sys_kv = map (\<lambda>(k, e). (k, \<lparr>kv_value = ''v'', kv_expires_at = e, kv_version = 1\<rparr>))
    [(''b:1'', None), (''a:2'', Some 60), (''a:1'', None), (''a:3'', Some 5)], user_db = (), faults = []\<rparr>"

theorem kv_scan_pages_witness:
  "scan_pages 5 10 ''A:'' 1 [] scan_conn = Some [''a:1'', ''a:2'']"
proof -
  obtain ks where ks: "scan_pages 5 10 ''A:'' 1 [] scan_conn = Some ks" "sorted ks" "distinct ks"
    "set ks = {k. live 10 (sys_kv scan_conn) k \<noteq> None \<and> starts_with (to_ascii_lowercase k) (to_ascii_lowercase ''A:'')}"
    using kv_scan_pages [of scan_conn 5 10 "''A:''" 1]
    by (auto simp: scan_conn_def healthy_def kv_inv_def plain_def)
  have "set ks = set [''a:1'', ''a:2'']"
  proof -
    have live: "live 10 (sys_kv scan_conn) k \<noteq> None \<longleftrightarrow> k \<in> {''b:1'', ''a:2'', ''a:1''}" for k
      by (simp add: scan_conn_def live_def)
    have "\<not> starts_with (to_ascii_lowercase ''b:1'') (to_ascii_lowercase ''A:'')"
      "starts_with (to_ascii_lowercase ''a:1'') (to_ascii_lowercase ''A:'')"
      "starts_with (to_ascii_lowercase ''a:2'') (to_ascii_lowercase ''A:'')"
      by code_simp+
    then show ?thesis
      unfolding ks(4) live by auto
  qed
  moreover have "sorted [''a:1'', ''a:2'']"
    by code_simp
  ultimately have "ks = [''a:1'', ''a:2'']"
    using ks(2,3) by (intro sorted_distinct_set_unique) auto
  then show ?thesis
    using ks(1) by simp
qed

end
