(* ===== verification/Node_Registry.thy ===== *)
theory Node_Registry
  imports Control_Records
begin

text \<open>
  The registry of data nodes in the API server (\<open>api-server/src/nodes.rs\<close>): registration, heartbeats,
  health and placement.  With a shared store the registry caches the store's node table for a few
  seconds.  Instants of the monotonic clock are seconds; each call reads the clock at one instant
  \<open>now\<close> and the wall clock at \<open>unix\<close>.  The order of the entries is the iteration order of the map.
\<close>

definition HEARTBEAT_TIMEOUT :: int where
  "HEARTBEAT_TIMEOUT = 10"

definition PG_CACHE_TTL :: int where
  "PG_CACHE_TTL = 3"

record node_entry =
  ne_addr :: str
  ne_capacity :: nat
  ne_active_conns :: nat
  ne_last_heartbeat :: int
  ne_registered_at :: int

record node_info =
  ni_id :: node_id
  ni_addr :: str
  ni_capacity :: nat
  ni_active_conns :: nat
  ni_healthy :: bool
  ni_age_secs :: int

record registry =
  rg_inner :: "(node_id, node_entry) hashmap"
  rg_rr :: nat
  rg_pg :: bool
  rg_cache_ttl :: int
  rg_last_refresh :: int

definition registry_new :: "int \<Rightarrow> registry" where
  "registry_new now = \<lparr>rg_inner = [], rg_rr = 0, rg_pg = False, rg_cache_ttl = PG_CACHE_TTL, rg_last_refresh = now\<rparr>"

definition registry_with_pg :: "int \<Rightarrow> registry" where
  "registry_with_pg now =
    \<lparr>rg_inner = [], rg_rr = 0, rg_pg = True, rg_cache_ttl = PG_CACHE_TTL, rg_last_refresh = now - PG_CACHE_TTL\<rparr>"

definition entry_of_record :: "int \<Rightarrow> nat \<Rightarrow> data_node_record \<Rightarrow> node_entry" where
  "entry_of_record now unix r =
    \<lparr>ne_addr = dn_addr r, ne_capacity = dn_capacity r, ne_active_conns = dn_active_conns r,
     ne_last_heartbeat = now - int (unix - dn_last_heartbeat_at r),
     ne_registered_at = now - int (unix - dn_created_at r)\<rparr>"

definition ensure_fresh :: "int \<Rightarrow> nat \<Rightarrow> inner \<Rightarrow> registry \<Rightarrow> registry" where
  "ensure_fresh now unix s g =
    (if \<not> rg_pg g \<or> now - rg_last_refresh g < rg_cache_ttl g then g
     else g\<lparr>rg_inner := fold (\<lambda>r. AList.update (dn_id r) (entry_of_record now unix r)) (list_data_nodes s) [],
            rg_last_refresh := now\<rparr>)"

text \<open>Registering updates the local map first, then the shared store; \<open>fresh\<close> is the drawn identifier.\<close>

definition register_with_id ::
  "int \<Rightarrow> nat \<Rightarrow> node_id option \<Rightarrow> node_id \<Rightarrow> str \<Rightarrow> nat \<Rightarrow> inner \<times> registry \<Rightarrow> node_id \<times> inner \<times> registry" where
  "register_with_id now unix given fresh addr capacity = (\<lambda>(s, g).
    let i = (case given of Some i \<Rightarrow> i | None \<Rightarrow> fresh);
        e = (case map_of (rg_inner g) i of
               Some e \<Rightarrow> e\<lparr>ne_addr := addr, ne_capacity := capacity, ne_last_heartbeat := now\<rparr>
             | None \<Rightarrow> \<lparr>ne_addr = addr, ne_capacity = capacity, ne_active_conns = 0, ne_last_heartbeat = now, ne_registered_at = now\<rparr>);
        g = g\<lparr>rg_inner := AList.update i e (rg_inner g)\<rparr>
    in (i, if rg_pg g then upsert_data_node unix s i addr capacity else s, g))"

definition register ::
  "int \<Rightarrow> nat \<Rightarrow> node_id \<Rightarrow> str \<Rightarrow> nat \<Rightarrow> inner \<times> registry \<Rightarrow> node_id \<times> inner \<times> registry" where
  "register now unix fresh addr capacity = register_with_id now unix None fresh addr capacity"

definition heartbeat :: "int \<Rightarrow> nat \<Rightarrow> node_id \<Rightarrow> nat \<Rightarrow> inner \<times> registry \<Rightarrow> bool \<times> inner \<times> registry" where
  "heartbeat now unix i active_conns = (\<lambda>(s, g). case map_of (rg_inner g) i of
      Some e \<Rightarrow>
        (True, if rg_pg g then snd (heartbeat_data_node unix s i active_conns) else s,
         g\<lparr>rg_inner := AList.update i (e\<lparr>ne_active_conns := active_conns, ne_last_heartbeat := now\<rparr>) (rg_inner g)\<rparr>)
    | None \<Rightarrow> (False, s, g))"

definition unregister :: "node_id \<Rightarrow> inner \<times> registry \<Rightarrow> bool \<times> inner \<times> registry" where
  "unregister i = (\<lambda>(s, g). case map_of (rg_inner g) i of
      Some _ \<Rightarrow>
        (True, if rg_pg g then snd (unregister_data_node s i) else s, g\<lparr>rg_inner := AList.delete i (rg_inner g)\<rparr>)
    | None \<Rightarrow> (False, s, g))"

definition entry_healthy :: "int \<Rightarrow> node_entry \<Rightarrow> bool" where
  "entry_healthy now e \<longleftrightarrow> now - ne_last_heartbeat e < HEARTBEAT_TIMEOUT"

definition is_healthy :: "int \<Rightarrow> nat \<Rightarrow> inner \<Rightarrow> node_id \<Rightarrow> registry \<Rightarrow> bool \<times> registry" where
  "is_healthy now unix s i g =
    (let g = ensure_fresh now unix s g
     in (case map_of (rg_inner g) i of Some e \<Rightarrow> entry_healthy now e | None \<Rightarrow> False, g))"

definition node_addr :: "int \<Rightarrow> nat \<Rightarrow> inner \<Rightarrow> node_id \<Rightarrow> registry \<Rightarrow> str option \<times> registry" where
  "node_addr now unix s i g =
    (let g = ensure_fresh now unix s g
     in (case map_of (rg_inner g) i of Some e \<Rightarrow> if entry_healthy now e then Some (ne_addr e) else None | None \<Rightarrow> None, g))"

definition healthy_entries :: "int \<Rightarrow> registry \<Rightarrow> (node_id \<times> str) list" where
  "healthy_entries now g = map (\<lambda>(i, e). (i, ne_addr e)) (filter (\<lambda>(i, e). entry_healthy now e) (rg_inner g))"

definition healthy_nodes :: "int \<Rightarrow> nat \<Rightarrow> inner \<Rightarrow> registry \<Rightarrow> (node_id \<times> str) list \<times> registry" where
  "healthy_nodes now unix s g = (let g = ensure_fresh now unix s g in (healthy_entries now g, g))"

definition pick :: "int \<Rightarrow> nat \<Rightarrow> inner \<Rightarrow> registry \<Rightarrow> (node_id \<times> str) option \<times> registry" where
  "pick now unix s g =
    (let (hs, g) = healthy_nodes now unix s g
     in if hs = [] then (None, g)
        else (Some (hs ! (rg_rr g mod length hs)), g\<lparr>rg_rr := wrap_u64 (int (rg_rr g) + 1)\<rparr>))"

definition list_nodes :: "int \<Rightarrow> nat \<Rightarrow> inner \<Rightarrow> registry \<Rightarrow> node_info list \<times> registry" where
  "list_nodes now unix s g =
    (let g = ensure_fresh now unix s g
     in (map (\<lambda>(i, e). \<lparr>ni_id = i, ni_addr = ne_addr e, ni_capacity = ne_capacity e, ni_active_conns = ne_active_conns e,
            ni_healthy = entry_healthy now e, ni_age_secs = now - ne_registered_at e\<rparr>) (rg_inner g), g))"

definition shared :: "registry \<Rightarrow> bool" where
  "shared g = rg_pg g"

section \<open>Placement\<close>

text \<open>Several placements in a row, each at its own time.\<close>

fun picks :: "(int \<times> nat) list \<Rightarrow> inner \<Rightarrow> registry \<Rightarrow> (node_id \<times> str) option list \<times> registry" where
  "picks [] s g = ([], g)"
| "picks ((now, unix) # ts) s g =
    (let (p, g) = pick now unix s g; (ps, g) = picks ts s g in (p # ps, g))"

lemma pick_local:
  assumes "\<not> rg_pg g" "healthy_entries now g = hs" "hs \<noteq> []"
  shows "pick now unix s g = (Some (hs ! (rg_rr g mod length hs)), g\<lparr>rg_rr := wrap_u64 (int (rg_rr g) + 1)\<rparr>)"
  using assms by (simp add: pick_def healthy_nodes_def ensure_fresh_def Let_def)

lemma picks_local:
  assumes "\<not> rg_pg g" "\<forall>(now, unix) \<in> set ts. healthy_entries now g = hs" "hs \<noteq> []" "rg_rr g + length ts \<le> 2 ^ 64"
  shows "fst (picks ts s g) = map (\<lambda>j. Some (hs ! ((rg_rr g + j) mod length hs))) [0..<length ts]"
  using assms
proof (induction ts arbitrary: g)
  case (Cons t ts)
  obtain now unix where t: "t = (now, unix)"
    by fastforce
  let ?g = "g\<lparr>rg_rr := wrap_u64 (int (rg_rr g) + 1)\<rparr>"
  have p: "pick now unix s g = (Some (hs ! (rg_rr g mod length hs)), ?g)"
    using Cons.prems t by (intro pick_local) auto
  have healthy: "healthy_entries w ?g = healthy_entries w g" for w
    by (simp add: healthy_entries_def)
  have "wrap_u64 (int (rg_rr g) + 1) \<le> rg_rr g + 1"
    using zmod_le_nonneg_dividend [of "int (rg_rr g) + 1" "2 ^ 64"] by (simp add: wrap_u64_def nat_le_iff)
  then have rest: "fst (picks ts s ?g) = map (\<lambda>j. Some (hs ! ((rg_rr ?g + j) mod length hs))) [0..<length ts]"
    using Cons.prems by (intro Cons.IH) (auto simp: healthy)
  have "rg_rr ?g = rg_rr g + 1 \<or> ts = []"
    using Cons.prems(4) by (cases ts) (auto simp: wrap_u64_def)
  moreover have "[0..<length (t # ts)] = 0 # map Suc [0..<length ts]"
    by (simp add: upt_conv_Cons map_Suc_upt del: upt_Suc)
  ultimately show ?case
    using t p rest by (auto split: prod.splits)
qed simp

text \<open>
  C26: Placement is fair. While the set of healthy nodes of a registry without a shared store stays
  the same, as many placements as there are healthy nodes visit each of them exactly once, in the
  order of the map from where the cursor stands, so every healthy node gets its turn.  The cursor is
  a \<open>u64\<close>; the turn is guaranteed as long as it does not wrap.
\<close>

theorem pick_round_robin:
  assumes "\<not> rg_pg g" "\<forall>(now, unix) \<in> set ts. healthy_entries now g = hs" "hs \<noteq> []" "length ts = length hs"
    "rg_rr g + length hs \<le> 2 ^ 64"
  shows "fst (picks ts s g) = map Some (rotate (rg_rr g) hs)
    \<and> (\<forall>p \<in> set hs. Some p \<in> set (fst (picks ts s g)))"
proof -
  have "fst (picks ts s g) = map (\<lambda>j. Some (hs ! ((rg_rr g + j) mod length hs))) [0..<length hs]"
    using picks_local [OF assms(1-3)] assms(4,5) by simp
  also have "\<dots> = map Some (rotate (rg_rr g) hs)"
    by (rule nth_equalityI) (simp_all add: nth_rotate add.commute)
  finally show ?thesis
    by simp
qed

definition two_nodes :: registry where
  "two_nodes = snd (snd (register 2 20 (NodeId 2) ''http://b'' 10 (snd (register 1 10 (NodeId 1) ''http://a'' 10 (inner_default, registry_new 0)))))"

theorem pick_round_robin_witness:
  "fst (picks [(3, 30), (5, 50)] inner_default two_nodes) = [Some (NodeId 1, ''http://a''), Some (NodeId 2, ''http://b'')]
    \<and> Some (NodeId 2, ''http://b'') \<in> set (fst (picks [(3, 30), (5, 50)] inner_default two_nodes))"
proof -
  have "healthy_entries 3 two_nodes = [(NodeId 1, ''http://a''), (NodeId 2, ''http://b'')]"
    "healthy_entries 5 two_nodes = [(NodeId 1, ''http://a''), (NodeId 2, ''http://b'')]" "\<not> rg_pg two_nodes" "rg_rr two_nodes = 0"
    by code_simp+
  then show ?thesis
    using pick_round_robin [of two_nodes "[(3, 30), (5, 50)]" "[(NodeId 1, ''http://a''), (NodeId 2, ''http://b'')]" inner_default]
    by simp
qed

end
