(* ===== verification/Cell_Directory.thy ===== *)
theory Cell_Directory
  imports Metadata_State
begin

text \<open>
  The cell directory of \<open>InMemoryStore\<close> (\<open>metadata/src/store.rs\<close>): creation, lookup by
  identifier and by name, renaming, reset, deletion, replica assignment, promotion and migration.
  The invariant \<open>dir_inv\<close> says that the name index and the records describe the same relation;
  every operation preserves it when identifiers are drawn fresh, with the one exception the code
  has: creation without a name does not test the generated name against the index.
\<close>

section \<open>Operations\<close>

definition default_cell_name :: "(uuid \<Rightarrow> str) \<Rightarrow> database_id \<Rightarrow> str" where
  "default_cell_name sh i =
    ''cell-'' @ (let s = filter (\<lambda>c. c \<noteq> CHR ''-'') (sh (db_uuid i))
                 in if 8 \<le> length s then take 8 s else [])"

definition new_record ::
  "nat \<Rightarrow> tenant_id \<Rightarrow> database_id \<Rightarrow> node_id option \<Rightarrow> str \<Rightarrow> database_record" where
  "new_record now t i node n =
    \<lparr>db_id = i, db_name = n, db_tenant_id = t, db_state = Created, db_created_at = now,
     db_storage_node_id = node, db_replica_node_id = None, db_generation = 0\<rparr>"

definition insert_record :: "inner \<Rightarrow> database_record \<Rightarrow> inner" where
  "insert_record s r =
    s\<lparr>name_index := AList.update (db_tenant_id r, db_name r) (db_id r) (name_index s),
      databases := AList.update (db_tenant_id r, db_id r) r (databases s)\<rparr>"

definition create_database ::
  "(uuid \<Rightarrow> str) \<Rightarrow> nat \<Rightarrow> inner \<Rightarrow> tenant_id \<Rightarrow> database_id \<Rightarrow> node_id option \<Rightarrow> str option
    \<Rightarrow> database_record result \<times> inner" where
  "create_database sh now s t i node name =
    (if map_of (databases s) (t, i) \<noteq> None then (Inl (DatabaseAlreadyExists i), s)
     else (case name of
         Some n \<Rightarrow>
           (if map_of (name_index s) (t, n) \<noteq> None then (Inl (CellAlreadyExists n), s)
            else (let r = new_record now t i node n in (Inr r, insert_record s r)))
       | None \<Rightarrow>
           (let r = new_record now t i node (default_cell_name sh i) in (Inr r, insert_record s r))))"

text \<open>\<open>fresh\<close> is the identifier put into the error when the name is unknown.\<close>

definition get_database_by_name ::
  "database_id \<Rightarrow> inner \<Rightarrow> tenant_id \<Rightarrow> str \<Rightarrow> database_record result" where
  "get_database_by_name fresh s t n =
    (case map_of (name_index s) (t, n) of
       None \<Rightarrow> Inl (DatabaseNotFound fresh)
     | Some i \<Rightarrow> ok_or (DatabaseNotFound i) (map_of (databases s) (t, i)))"

definition ensure_database_by_name ::
  "database_id \<Rightarrow> nat \<Rightarrow> inner \<Rightarrow> tenant_id \<Rightarrow> str \<Rightarrow> node_id option
    \<Rightarrow> (database_record \<times> bool) result \<times> inner" where
  "ensure_database_by_name fresh now s t n node =
    (case map_of (name_index s) (t, n) of
       Some i \<Rightarrow>
         (case map_of (databases s) (t, i) of
            None \<Rightarrow> (Inl (DatabaseNotFound i), s)
          | Some r \<Rightarrow> (Inr (r, False), s))
     | None \<Rightarrow> (let r = new_record now t fresh node n in (Inr (r, True), insert_record s r)))"

definition rename_database ::
  "inner \<Rightarrow> tenant_id \<Rightarrow> database_id \<Rightarrow> str \<Rightarrow> database_record result \<times> inner" where
  "rename_database s t i new_name =
    (case map_of (databases s) (t, i) of
       None \<Rightarrow> (Inl (DatabaseNotFound i), s)
     | Some r \<Rightarrow>
        (if map_of (name_index s) (t, new_name) \<noteq> None then (Inl (CellNameConflict new_name), s)
         else (let r' = r\<lparr>db_name := new_name\<rparr>
               in (Inr r',
                   s\<lparr>name_index := AList.update (t, new_name) i (AList.delete (t, db_name r) (name_index s)),
                     databases := AList.update (t, i) r' (databases s)\<rparr>))))"

text \<open>The shape shared by the operations that fetch a record and write a changed copy back.\<close>

definition update_record ::
  "inner \<Rightarrow> tenant_id \<Rightarrow> database_id \<Rightarrow> (database_record \<Rightarrow> database_record result)
    \<Rightarrow> database_record result \<times> inner" where
  "update_record s t i f =
    (case map_of (databases s) (t, i) of
       None \<Rightarrow> (Inl (DatabaseNotFound i), s)
     | Some r \<Rightarrow>
        (case f r of
           Inl e \<Rightarrow> (Inl e, s)
         | Inr r' \<Rightarrow> (Inr r', s\<lparr>databases := AList.update (t, i) r' (databases s)\<rparr>)))"

definition reset_database :: "inner \<Rightarrow> tenant_id \<Rightarrow> database_id \<Rightarrow> database_record result \<times> inner" where
  "reset_database s t i =
    update_record s t i (\<lambda>r. Inr (r\<lparr>db_generation := wrap_i64 (db_generation r + 1)\<rparr>))"

definition get_database :: "inner \<Rightarrow> tenant_id \<Rightarrow> database_id \<Rightarrow> database_record result" where
  "get_database s t i = ok_or (DatabaseNotFound i) (map_of (databases s) (t, i))"

definition get_database_by_id :: "inner \<Rightarrow> database_id \<Rightarrow> database_record result" where
  "get_database_by_id s i =
    ok_or (DatabaseNotFound i) (List.find (\<lambda>r. db_id r = i) (map snd (databases s)))"

definition list_databases :: "inner \<Rightarrow> tenant_id \<Rightarrow> database_record list" where
  "list_databases s t =
    sort_key (\<lambda>r. (db_created_at r, db_id r))
      (map snd (filter (\<lambda>((t', i), r). t' = t) (databases s)))"

definition list_databases_all :: "inner \<Rightarrow> database_record list" where
  "list_databases_all s =
    sort_key (\<lambda>r. (db_created_at r, db_id r)) (map snd (databases s))"

definition delete_database :: "inner \<Rightarrow> tenant_id \<Rightarrow> database_id \<Rightarrow> unit result \<times> inner" where
  "delete_database s t i =
    (case map_of (databases s) (t, i) of
       None \<Rightarrow> (Inl (DatabaseNotFound i), s)
     | Some r \<Rightarrow>
        (Inr (), s\<lparr>databases := AList.delete (t, i) (databases s),
                  name_index := retain (\<lambda>k v. v \<noteq> i) (name_index s)\<rparr>))"

definition set_database_state ::
  "inner \<Rightarrow> tenant_id \<Rightarrow> database_id \<Rightarrow> database_state \<Rightarrow> unit result \<times> inner" where
  "set_database_state s t i st =
    (case update_record s t i (\<lambda>r. Inr (r\<lparr>db_state := st\<rparr>)) of
       (Inl e, s') \<Rightarrow> (Inl e, s')
     | (Inr r, s') \<Rightarrow> (Inr (), s'))"

definition set_replica_node ::
  "inner \<Rightarrow> tenant_id \<Rightarrow> database_id \<Rightarrow> node_id option \<Rightarrow> database_record result \<times> inner" where
  "set_replica_node s t i replica =
    update_record s t i (\<lambda>r. Inr (r\<lparr>db_replica_node_id := replica\<rparr>))"

definition list_replicas_of :: "inner \<Rightarrow> node_id \<Rightarrow> database_record list" where
  "list_replicas_of s node =
    sort_key db_id (filter (\<lambda>r. db_replica_node_id r = Some node) (map snd (databases s)))"

definition promote_replica ::
  "(uuid \<Rightarrow> str) \<Rightarrow> inner \<Rightarrow> tenant_id \<Rightarrow> database_id \<Rightarrow> database_record result \<times> inner" where
  "promote_replica sh s t i =
    update_record s t i (\<lambda>r.
      case db_replica_node_id r of
        None \<Rightarrow> Inl (Internal (''cell '' @ sh (db_uuid i) @ '' has no replica to promote''))
      | Some replica \<Rightarrow>
          Inr (r\<lparr>db_storage_node_id := Some replica, db_replica_node_id := None,
                 db_generation := wrap_i64 (db_generation r + 1)\<rparr>))"

definition migrate_database ::
  "inner \<Rightarrow> tenant_id \<Rightarrow> database_id \<Rightarrow> node_id \<Rightarrow> database_record result \<times> inner" where
  "migrate_database s t i new_node =
    update_record s t i (\<lambda>r.
      Inr (r\<lparr>db_storage_node_id := Some new_node,
             db_generation := wrap_i64 (db_generation r + 1)\<rparr>))"

definition list_all_databases :: "inner \<Rightarrow> database_record list" where
  "list_all_databases s = sort_key db_id (map snd (databases s))"

section \<open>The directory invariant\<close>

definition dir_inv :: "inner \<Rightarrow> bool" where
  "dir_inv s \<longleftrightarrow>
    distinct (map fst (databases s)) \<and> distinct (map fst (name_index s))
    \<and> distinct (map (snd \<circ> fst) (databases s))
    \<and> list_all (\<lambda>((t, i), r). db_tenant_id r = t \<and> db_id r = i
        \<and> map_of (name_index s) (t, db_name r) = Some i) (databases s)
    \<and> list_all (\<lambda>((t, n), i).
        (case map_of (databases s) (t, i) of None \<Rightarrow> False | Some r \<Rightarrow> db_name r = n)) (name_index s)"

text \<open>An identifier no tenant uses: what a UUID draw gives.\<close>

definition fresh_id :: "inner \<Rightarrow> database_id \<Rightarrow> bool" where
  "fresh_id s i \<longleftrightarrow> i \<notin> set (map (snd \<circ> fst) (databases s))"

lemma distinct_second:
  assumes "distinct (map fst m)"
  shows "distinct (map (snd \<circ> fst) m) \<longleftrightarrow>
    (\<forall>a b i. map_of m (a, i) \<noteq> None \<and> map_of m (b, i) \<noteq> None \<longrightarrow> a = b)"
  using assms
proof (induction m)
  case Nil
  then show ?case
    by simp
next
  case (Cons x m)
  obtain t i r where x: "x = ((t, i), r)"
    by (metis prod.collapse)
  have snd: "i \<in> snd ` A \<longleftrightarrow> (\<exists>a. (a, i) \<in> A)" for A
    by force
  have i: "i \<in> (snd \<circ> fst) ` set m \<longleftrightarrow> (\<exists>a. map_of m (a, i) \<noteq> None)"
    unfolding image_comp [symmetric] snd map_of_eq_None_keys by simp
  have t: "map_of m (t, i) = None"
    using Cons.prems by (simp add: x map_of_eq_None_keys)
  have "distinct (map (snd \<circ> fst) (x # m)) \<longleftrightarrow>
      (\<forall>a. map_of m (a, i) = None) \<and> distinct (map (snd \<circ> fst) m)"
    using i by (simp add: x)
  also have "distinct (map (snd \<circ> fst) m) \<longleftrightarrow>
      (\<forall>a b i. map_of m (a, i) \<noteq> None \<and> map_of m (b, i) \<noteq> None \<longrightarrow> a = b)"
    by (rule Cons.IH) (use Cons.prems in simp)
  finally have step: "distinct (map (snd \<circ> fst) (x # m)) \<longleftrightarrow> (\<forall>a. map_of m (a, i) = None)
      \<and> (\<forall>a b i. map_of m (a, i) \<noteq> None \<and> map_of m (b, i) \<noteq> None \<longrightarrow> a = b)" .
  have look: "map_of (x # m) (a, j) \<noteq> None \<longleftrightarrow> a = t \<and> j = i \<or> map_of m (a, j) \<noteq> None" for a j
    by (auto simp: x)
  show ?case
    unfolding step look using t by metis
qed

text \<open>The invariant on the two maps the association lists stand for.\<close>

definition dir_maps ::
  "(tenant_id \<times> database_id \<rightharpoonup> database_record) \<Rightarrow> (tenant_id \<times> str \<rightharpoonup> database_id) \<Rightarrow> bool" where
  "dir_maps D N \<longleftrightarrow>
    (\<forall>a b i. D (a, i) \<noteq> None \<and> D (b, i) \<noteq> None \<longrightarrow> a = b)
    \<and> (\<forall>t i r. D (t, i) = Some r \<longrightarrow>
        db_tenant_id r = t \<and> db_id r = i \<and> N (t, db_name r) = Some i)
    \<and> (\<forall>t n i. N (t, n) = Some i \<longrightarrow> (\<exists>r. D (t, i) = Some r \<and> db_name r = n))"

lemma dir_mapsD:
  assumes "dir_maps D N"
  shows "D (a, i) = Some x \<Longrightarrow> D (b, i) = Some y \<Longrightarrow> a = b"
    and "D (t, i) = Some r \<Longrightarrow> db_tenant_id r = t"
    and "D (t, i) = Some r \<Longrightarrow> db_id r = i"
    and "D (t, i) = Some r \<Longrightarrow> N (t, db_name r) = Some i"
    and "N (t, n) = Some i \<Longrightarrow> \<exists>r. D (t, i) = Some r \<and> db_name r = n"
  using assms unfolding dir_maps_def by (blast, blast, blast, blast, blast)

lemma dir_inv_iff:
  "dir_inv s \<longleftrightarrow>
    distinct (map fst (databases s)) \<and> distinct (map fst (name_index s))
    \<and> dir_maps (map_of (databases s)) (map_of (name_index s))"
proof -
  have all: "list_all (\<lambda>((a, b), v). P a b v) m \<longleftrightarrow> (\<forall>a b v. map_of m (a, b) = Some v \<longrightarrow> P a b v)"
    if "distinct (map fst m)" for P and m :: "((_ \<times> _) \<times> _) list"
    using that by (auto simp: list_all_iff map_of_eq_Some_iff)
  have opt: "(case x of None \<Rightarrow> False | Some r \<Rightarrow> P r) \<longleftrightarrow> (\<exists>r. x = Some r \<and> P r)"
    for P and x :: "'b option"
    by (cases x) auto
  show ?thesis
  proof (cases "distinct (map fst (databases s)) \<and> distinct (map fst (name_index s))")
    case True
    then have d: "distinct (map fst (databases s))" "distinct (map fst (name_index s))"
      by auto
    show ?thesis
      unfolding dir_inv_def dir_maps_def all [OF d(1)] all [OF d(2)] distinct_second [OF d(1)] opt
      using d by simp
  next
    case False
    then show ?thesis
      by (auto simp: dir_inv_def)
  qed
qed

lemma dir_inv_default: "dir_inv inner_default"
  by (simp add: dir_inv_def inner_default_def)

section \<open>Preservation\<close>

lemma fresh_idD: "fresh_id s i \<Longrightarrow> map_of (databases s) (t, i) = None"
  unfolding fresh_id_def by (force simp: map_of_eq_None_keys)

lemma new_record_simps [simp]:
  "db_id (new_record now t i node n) = i" "db_name (new_record now t i node n) = n"
  "db_tenant_id (new_record now t i node n) = t"
  "db_generation (new_record now t i node n) = 0"
  "db_replica_node_id (new_record now t i node n) = None"
  "db_storage_node_id (new_record now t i node n) = node"
  by (simp_all add: new_record_def)

lemma dir_maps_insert:
  assumes inv: "dir_maps D N" and fresh: "\<And>t. D (t, db_id r) = None"
    and name: "N (db_tenant_id r, db_name r) = None"
  shows "dir_maps (D((db_tenant_id r, db_id r) \<mapsto> r)) (N((db_tenant_id r, db_name r) \<mapsto> db_id r))"
proof -
  have idx: "N (t, n) \<noteq> Some (db_id r)" for t n
    using dir_mapsD(5) [OF inv] fresh by (metis option.distinct(1))
  have "db_name x \<noteq> db_name r" if "D (db_tenant_id r, i) = Some x" for i x
    using dir_mapsD(4) [OF inv that] name by auto
  then show ?thesis
    unfolding dir_maps_def
    using fresh idx by (auto dest: dir_mapsD [OF inv] split: if_splits)
qed

lemma dir_maps_update:
  assumes inv: "dir_maps D N" and r: "D (t, i) = Some r"
    and keep: "db_tenant_id r' = db_tenant_id r" "db_id r' = db_id r" "db_name r' = db_name r"
  shows "dir_maps (D((t, i) \<mapsto> r')) N"
proof -
  have "\<exists>x. (D((t, i) \<mapsto> r')) (t', j) = Some x \<and> db_name x = n" if "N (t', n) = Some j" for t' n j
    using dir_mapsD(5) [OF inv that] r keep by auto
  then show ?thesis
    unfolding dir_maps_def using r keep by (auto dest: dir_mapsD(1-4) [OF inv] split: if_splits)
qed

lemma dir_maps_rename:
  assumes inv: "dir_maps D N" and r: "D (t, i) = Some r" and n: "N (t, n) = None"
  shows "dir_maps (D((t, i) \<mapsto> r\<lparr>db_name := n\<rparr>)) ((N((t, db_name r) := None))((t, n) \<mapsto> i))"
    (is "dir_maps ?D ?N")
proof -
  note own = dir_mapsD(2-4) [OF inv r]
  have other: "?N (t', db_name x) = Some j" if x: "D (t', j) = Some x" and ne: "(t', j) \<noteq> (t, i)" for t' j x
  proof -
    have N: "N (t', db_name x) = Some j"
      using dir_mapsD(4) [OF inv x] .
    have "(t', db_name x) \<noteq> (t, n)"
      using N n by auto
    moreover have "(t', db_name x) \<noteq> (t, db_name r)"
      using N own(3) ne by auto
    ultimately show ?thesis
      using N by auto
  qed
  have inverse: "\<exists>x. ?D (t', j) = Some x \<and> db_name x = m" if m: "?N (t', m) = Some j" for t' m j
  proof (cases "(t', m) = (t, n)")
    case True
    then show ?thesis
      using m by auto
  next
    case False
    then have N: "N (t', m) = Some j" "(t', m) \<noteq> (t, db_name r)"
      using m by (auto split: if_splits)
    then obtain x where x: "D (t', j) = Some x" "db_name x = m"
      using dir_mapsD(5) [OF inv] by blast
    then have "(t', j) \<noteq> (t, i)"
      using N(2) r by auto
    then show ?thesis
      using x by auto
  qed
  show ?thesis
    unfolding dir_maps_def
    using own r other inverse by (auto dest: dir_mapsD(1-3) [OF inv] split: if_splits)
qed

lemma dir_maps_delete:
  assumes inv: "dir_maps D N" and r: "D (t, i) = Some r"
    and N': "\<And>k. N' k = (case N k of Some v \<Rightarrow> if v \<noteq> i then Some v else None | None \<Rightarrow> None)"
  shows "dir_maps (D((t, i) := None)) N'"
proof -
  have ne: "j \<noteq> i" if "(D((t, i) := None)) (t', j) = Some x" for t' j x
    using that r by (auto dest: dir_mapsD(1) [OF inv] split: if_splits)
  show ?thesis
    unfolding dir_maps_def N'
  proof (intro conjI allI impI)
    fix t' n j
    assume "(case N (t', n) of None \<Rightarrow> None | Some v \<Rightarrow> if v \<noteq> i then Some v else None) = Some j"
    then have "N (t', n) = Some j" "j \<noteq> i"
      by (auto split: option.splits if_splits)
    then show "\<exists>x. (D((t, i) := None)) (t', j) = Some x \<and> db_name x = n"
      using dir_mapsD(5) [OF inv] by auto
  next
    fix t' j x
    assume x: "(D((t, i) := None)) (t', j) = Some x"
    then have "D (t', j) = Some x"
      by (auto split: if_splits)
    with ne [OF x] show "db_tenant_id x = t'" "db_id x = j"
        "(case N (t', db_name x) of None \<Rightarrow> None | Some v \<Rightarrow> if v \<noteq> i then Some v else None) = Some j"
      using dir_mapsD(2-4) [OF inv] by auto
  qed (auto dest: dir_mapsD(1) [OF inv] split: if_splits)
qed

lemma insert_record_inv:
  assumes "dir_inv s" "fresh_id s (db_id r)" "map_of (name_index s) (db_tenant_id r, db_name r) = None"
  shows "dir_inv (insert_record s r)"
  using assms dir_maps_insert fresh_idD
  by (simp add: dir_inv_iff insert_record_def distinct_keys_update)

lemma update_record_inv:
  assumes "dir_inv s"
    and "\<And>r r'. f r = Inr r' \<Longrightarrow>
      db_tenant_id r' = db_tenant_id r \<and> db_id r' = db_id r \<and> db_name r' = db_name r"
  shows "dir_inv (snd (update_record s t i f))"
  using assms dir_maps_update
  by (auto simp: dir_inv_iff update_record_def distinct_keys_update split: option.split sum.split
      simp del: map_of_eq_Some_iff)

lemma rename_database_inv:
  assumes "dir_inv s"
  shows "dir_inv (snd (rename_database s t i n))"
  using assms dir_maps_rename
  by (auto simp: dir_inv_iff rename_database_def Let_def distinct_keys_update distinct_keys_delete
      split: option.split simp del: map_of_eq_Some_iff)

lemma delete_database_inv:
  assumes "dir_inv s"
  shows "dir_inv (snd (delete_database s t i))"
proof (cases "map_of (databases s) (t, i)")
  case None
  then show ?thesis
    using assms by (simp add: delete_database_def)
next
  case (Some r)
  have inv: "distinct (map fst (databases s))" "distinct (map fst (name_index s))"
      "dir_maps (map_of (databases s)) (map_of (name_index s))"
    using assms by (simp_all add: dir_inv_iff)
  have "dir_maps ((map_of (databases s))((t, i) := None)) (map_of (retain (\<lambda>k v. v \<noteq> i) (name_index s)))"
    using inv(3) Some by (rule dir_maps_delete) (rule map_of_retain [OF inv(2)])
  then show ?thesis
    using Some inv by (simp add: dir_inv_iff delete_database_def distinct_keys_delete distinct_retain
        del: map_of_eq_Some_iff)
qed

section \<open>Sequences of directory operations\<close>

datatype dir_op =
    OpCreate nat tenant_id database_id "node_id option" "str option"
  | OpEnsure database_id nat tenant_id str "node_id option"
  | OpRename tenant_id database_id str
  | OpReset tenant_id database_id
  | OpDelete tenant_id database_id
  | OpSetState tenant_id database_id database_state
  | OpSetReplica tenant_id database_id "node_id option"
  | OpPromote tenant_id database_id
  | OpMigrate tenant_id database_id node_id

fun op_tenant :: "dir_op \<Rightarrow> tenant_id" where
  "op_tenant (OpCreate now t i node n) = t"
| "op_tenant (OpEnsure i now t n node) = t"
| "op_tenant (OpRename t i n) = t"
| "op_tenant (OpReset t i) = t"
| "op_tenant (OpDelete t i) = t"
| "op_tenant (OpSetState t i st) = t"
| "op_tenant (OpSetReplica t i node) = t"
| "op_tenant (OpPromote t i) = t"
| "op_tenant (OpMigrate t i node) = t"

fun dir_exec :: "(uuid \<Rightarrow> str) \<Rightarrow> dir_op \<Rightarrow> inner \<Rightarrow> inner" where
  "dir_exec sh (OpCreate now t i node n) s = snd (create_database sh now s t i node n)"
| "dir_exec sh (OpEnsure i now t n node) s = snd (ensure_database_by_name i now s t n node)"
| "dir_exec sh (OpRename t i n) s = snd (rename_database s t i n)"
| "dir_exec sh (OpReset t i) s = snd (reset_database s t i)"
| "dir_exec sh (OpDelete t i) s = snd (delete_database s t i)"
| "dir_exec sh (OpSetState t i st) s = snd (set_database_state s t i st)"
| "dir_exec sh (OpSetReplica t i node) s = snd (set_replica_node s t i node)"
| "dir_exec sh (OpPromote t i) s = snd (promote_replica sh s t i)"
| "dir_exec sh (OpMigrate t i node) s = snd (migrate_database s t i node)"

text \<open>
  What a run relies on: identifiers are drawn fresh, and a cell created without a name does not
  hit a name already in use (which the code does not test).
\<close>

fun op_ok :: "(uuid \<Rightarrow> str) \<Rightarrow> inner \<Rightarrow> dir_op \<Rightarrow> bool" where
  "op_ok sh s (OpCreate now t i node n) \<longleftrightarrow> fresh_id s i
    \<and> (n = None \<longrightarrow> map_of (name_index s) (t, default_cell_name sh i) = None)"
| "op_ok sh s (OpEnsure i now t n node) \<longleftrightarrow> fresh_id s i"
| "op_ok sh s _ \<longleftrightarrow> True"

inductive dir_reachable :: "(uuid \<Rightarrow> str) \<Rightarrow> inner \<Rightarrow> bool" for sh where
  dir_start: "dir_reachable sh inner_default"
| dir_next: "dir_reachable sh s \<Longrightarrow> op_ok sh s oper \<Longrightarrow> dir_reachable sh (dir_exec sh oper s)"

lemma snd_set_database_state:
  "snd (set_database_state s t i st) = snd (update_record s t i (\<lambda>r. Inr (r\<lparr>db_state := st\<rparr>)))"
  by (auto simp: set_database_state_def split: prod.splits sum.splits)

lemma dir_exec_inv: "dir_inv s \<Longrightarrow> op_ok sh s oper \<Longrightarrow> dir_inv (dir_exec sh oper s)"
  by (cases oper)
    (auto simp: create_database_def ensure_database_by_name_def Let_def reset_database_def
      snd_set_database_state set_replica_node_def promote_replica_def migrate_database_def
      intro!: insert_record_inv update_record_inv rename_database_inv delete_database_inv
      split: option.splits sum.splits prod.splits)

lemma dir_reachable_inv: "dir_reachable sh s \<Longrightarrow> dir_inv s"
  by (induction rule: dir_reachable.induct) (auto intro: dir_inv_default dir_exec_inv)

lemma get_database_Inr [simp]:
  "get_database s t i = Inr r \<longleftrightarrow> map_of (databases s) (t, i) = Some r"
  by (simp add: get_database_def ok_or_def split: option.splits)

lemma get_by_name_Inr:
  "get_database_by_name fresh s t n = Inr r \<longleftrightarrow>
    (\<exists>i. map_of (name_index s) (t, n) = Some i \<and> map_of (databases s) (t, i) = Some r)"
  by (auto simp: get_database_by_name_def ok_or_def split: option.splits)

lemma get_by_name_iff:
  assumes "dir_inv s"
  shows "get_database_by_name fresh s t n = Inr r \<longleftrightarrow>
    get_database s t (db_id r) = Inr r \<and> db_name r = n"
proof -
  have inv: "dir_maps (map_of (databases s)) (map_of (name_index s))"
    using assms by (simp add: dir_inv_iff)
  show ?thesis
    unfolding get_by_name_Inr get_database_Inr
    by (metis dir_mapsD(3-5) [OF inv] option.inject)
qed


definition dir_example :: inner where
  "dir_example = dir_exec uuid_dec (OpRename (TenantId 2) (DatabaseId 5) ''orders'')
    (dir_exec uuid_dec (OpEnsure (DatabaseId 5) 100 (TenantId 2) ''shop'' None) inner_default)"

lemma dir_example_reachable: "dir_reachable uuid_dec dir_example"
  unfolding dir_example_def
  by (intro dir_next dir_start) (simp_all add: fresh_id_def inner_default_def)


section \<open>Functional properties\<close>

text \<open>Ensuring a name is idempotent: once it has succeeded, the name resolves to the returned
  record, and every later ensure of that name, whatever identifier and node it would use, returns
  the same record, reports that nothing was created, and leaves the store unchanged.\<close>

theorem ensure_idempotent:
  assumes "ensure_database_by_name i now s t n node = (Inr (r, created), s')"
  shows "get_database_by_name fresh s' t n = Inr r
    \<and> ensure_database_by_name i' now' s' t n node' = (Inr (r, False), s')"
  using assms
  by (auto simp: ensure_database_by_name_def get_database_by_name_def insert_record_def Let_def
      split: option.splits)

theorem ensure_idempotent_witness:
  "\<exists>r s'. ensure_database_by_name (DatabaseId 5) 100 inner_default (TenantId 2) ''shop'' None = (Inr (r, True), s')
    \<and> ensure_database_by_name (DatabaseId 6) 200 s' (TenantId 2) ''shop'' None = (Inr (r, False), s')"
proof -
  obtain r s' where e: "ensure_database_by_name (DatabaseId 5) 100 inner_default (TenantId 2) ''shop'' None
      = (Inr (r, True), s')"
    by (simp add: ensure_database_by_name_def inner_default_def Let_def)
  show ?thesis
    using e ensure_idempotent [OF e] by blast
qed

text \<open>What one tenant can see of the directory.\<close>

definition tenant_cells :: "inner \<Rightarrow> tenant_id \<Rightarrow> database_id \<rightharpoonup> database_record" where
  "tenant_cells s t = (\<lambda>i. map_of (databases s) (t, i))"

definition tenant_names :: "inner \<Rightarrow> tenant_id \<Rightarrow> str \<rightharpoonup> database_id" where
  "tenant_names s t = (\<lambda>n. map_of (name_index s) (t, n))"

lemma update_record_frame:
  "t \<noteq> u \<Longrightarrow> map_of (databases (snd (update_record s t i f))) (u, j) = map_of (databases s) (u, j)"
  "name_index (snd (update_record s t i f)) = name_index s"
  by (auto simp: update_record_def split: option.splits sum.splits)

lemma delete_names_frame:
  assumes "dir_inv s" "t \<noteq> u"
  shows "map_of (name_index (snd (delete_database s t i))) (u, n) = map_of (name_index s) (u, n)"
proof (cases "map_of (databases s) (t, i)")
  case None
  then show ?thesis
    by (simp add: delete_database_def)
next
  case (Some r)
  have inv: "distinct (map fst (name_index s))" "dir_maps (map_of (databases s)) (map_of (name_index s))"
    using assms(1) by (simp_all add: dir_inv_iff)
  have "map_of (name_index s) (u, n) \<noteq> Some i"
    using dir_mapsD(5) [OF inv(2)] dir_mapsD(1) [OF inv(2) Some] assms(2) by metis
  then show ?thesis
    using Some by (simp add: delete_database_def map_of_retain [OF inv(1)] split: option.splits)
qed

text \<open>Only a deletion, which goes through the names of all tenants, relies on the invariant.\<close>

lemma dir_exec_frame:
  assumes "dir_inv s \<or> (\<forall>t i. oper \<noteq> OpDelete t i)" "op_tenant oper \<noteq> u"
  shows "tenant_cells (dir_exec sh oper s) u = tenant_cells s u
    \<and> tenant_names (dir_exec sh oper s) u = tenant_names s u"
proof (cases oper)
  case (OpDelete t i)
  with assms show ?thesis
    using delete_names_frame [of s t u i]
    by (auto simp: tenant_cells_def tenant_names_def delete_database_def split: option.splits)
next
  case (OpRename t i n)
  with assms show ?thesis
    by (auto simp: tenant_cells_def tenant_names_def rename_database_def Let_def split: option.splits)
next
  case (OpCreate now t i node n)
  with assms show ?thesis
    by (auto simp: tenant_cells_def tenant_names_def create_database_def insert_record_def Let_def
        split: option.splits)
next
  case (OpEnsure i now t n node)
  with assms show ?thesis
    by (auto simp: tenant_cells_def tenant_names_def ensure_database_by_name_def insert_record_def
        Let_def split: option.splits)
qed (use assms in \<open>simp_all add: tenant_cells_def tenant_names_def update_record_frame reset_database_def
      snd_set_database_state set_replica_node_def promote_replica_def migrate_database_def\<close>)

text \<open>Tenants are isolated: no directory operation of one tenant changes the records or the
  names another tenant sees.\<close>

theorem directory_tenant_isolation:
  assumes "dir_inv s" "op_tenant oper \<noteq> u"
  shows "tenant_cells (dir_exec sh oper s) u = tenant_cells s u
    \<and> tenant_names (dir_exec sh oper s) u = tenant_names s u"
  using dir_exec_frame assms by blast

theorem directory_tenant_isolation_witness:
  "tenant_cells (dir_exec uuid_dec (OpDelete (TenantId 2) (DatabaseId 5)) dir_example) (TenantId 3)
    = tenant_cells dir_example (TenantId 3)"
  using directory_tenant_isolation [OF dir_reachable_inv [OF dir_example_reachable],
      of "OpDelete (TenantId 2) (DatabaseId 5)" "TenantId 3" uuid_dec]
  by simp

text \<open>The generation, which fences writes at the data node, of a tenant's cell.\<close>

definition generation_of :: "inner \<Rightarrow> tenant_id \<Rightarrow> database_id \<Rightarrow> int option" where
  "generation_of s t i = map_option db_generation (map_of (databases s) (t, i))"

fun bumps_generation :: "(uuid \<Rightarrow> str) \<Rightarrow> inner \<Rightarrow> dir_op \<Rightarrow> tenant_id \<Rightarrow> database_id \<Rightarrow> bool" where
  "bumps_generation sh s (OpReset t' i') t i \<longleftrightarrow> t' = t \<and> i' = i"
| "bumps_generation sh s (OpMigrate t' i' node) t i \<longleftrightarrow> t' = t \<and> i' = i"
| "bumps_generation sh s (OpPromote t' i') t i \<longleftrightarrow> t' = t \<and> i' = i
    \<and> (\<exists>r \<in> set_option (map_of (databases s) (t, i)). db_replica_node_id r \<noteq> None)"
| "bumps_generation sh s _ t i \<longleftrightarrow> False"

lemma update_record_same:
  "map_of (databases s) (t, i) = Some r \<Longrightarrow>
    map_of (databases (snd (update_record s t i f))) (t, i) =
      Some (case f r of Inl e \<Rightarrow> r | Inr r' \<Rightarrow> r')"
  by (auto simp: update_record_def split: sum.splits)

lemma update_record_other:
  "(t', i') \<noteq> (t, i) \<Longrightarrow>
    map_of (databases (snd (update_record s t' i' f))) (t, i) = map_of (databases s) (t, i)"
  by (auto simp: update_record_def split: option.splits sum.splits)

lemma generation_update:
  assumes "map_of (databases s) (t, i) = Some r"
  shows "generation_of (snd (update_record s t' i' f)) t i =
    Some (if (t', i') = (t, i) then db_generation (case f r of Inl e \<Rightarrow> r | Inr r' \<Rightarrow> r') else db_generation r)"
proof (cases "(t', i') = (t, i)")
  case True
  then show ?thesis
    using update_record_same [OF assms] by (simp add: generation_of_def)
next
  case False
  then show ?thesis
    using update_record_other [OF False] assms by (auto simp: generation_of_def)
qed

text \<open>Generations are fencing tokens: while a cell exists, an operation leaves its generation
  unchanged, except that a reset, a migration and a successful promotion of that very cell raise it
  by exactly one.\<close>

theorem generation_step:
  assumes "map_of (databases s) (t, i) = Some r" "i64_min \<le> db_generation r" "db_generation r < i64_max"
    "oper \<noteq> OpDelete t i" "op_ok sh s oper"
  shows "generation_of (dir_exec sh oper s) t i =
    Some (if bumps_generation sh s oper t i then db_generation r + 1 else db_generation r)"
proof -
  have w: "wrap_i64 (db_generation r + 1) = db_generation r + 1"
    using assms(2,3) by (intro wrap_i64_id) (simp add: in_i64_def)
  note upd = generation_update [OF assms(1)]
  show ?thesis
  proof (cases oper)
    case (OpRename t' i' n)
    then show ?thesis
      using assms(1) by (auto simp: generation_of_def rename_database_def Let_def split: option.splits)
  next
    case (OpDelete t' i')
    then show ?thesis
      using assms(1,4) by (auto simp: generation_of_def delete_database_def split: option.splits)
  next
    case (OpCreate now t' i' node n)
    then show ?thesis
      using assms(1)
      by (auto simp: generation_of_def create_database_def insert_record_def Let_def split: option.splits)
  next
    case (OpEnsure i' now t' n node)
    then show ?thesis
      using assms(1,5) fresh_idD [of s i' t']
      by (auto simp: generation_of_def ensure_database_by_name_def insert_record_def Let_def split: option.splits)
  qed (use assms(1) w in \<open>auto simp: upd reset_database_def snd_set_database_state
        set_replica_node_def promote_replica_def migrate_database_def split: option.splits\<close>)
qed

theorem generation_step_witness:
  "generation_of (dir_exec uuid_dec (OpReset (TenantId 2) (DatabaseId 5)) dir_example) (TenantId 2) (DatabaseId 5)
    = Some 1"
  using generation_step [of dir_example "TenantId 2" "DatabaseId 5" _ "OpReset (TenantId 2) (DatabaseId 5)" uuid_dec]
  by (simp add: dir_example_def ensure_database_by_name_def rename_database_def insert_record_def
      new_record_def inner_default_def Let_def i64_max_def i64_min_def)

text \<open>creation without a name does not consult the name index: when the generated name
  \<open>cell-<first eight digits>\<close> is already taken, the call still succeeds, the new cell takes over
  the name, and the older cell keeps its record and name but can no longer be found by it.\<close>

theorem create_without_name_shadows:
  assumes "map_of (name_index s) (t, default_cell_name sh i) = Some j" "j \<noteq> i"
    "map_of (databases s) (t, i) = None" "map_of (databases s) (t, j) = Some r"
    "db_name r = default_cell_name sh i"
  shows "\<exists>r' s'. create_database sh now s t i node None = (Inr r', s') \<and> db_name r' = db_name r
    \<and> get_database s' t j = Inr r \<and> get_database_by_name fresh s' t (db_name r) = Inr r'
    \<and> db_id r' = i"
  using assms by (simp add: create_database_def insert_record_def get_by_name_Inr Let_def)

definition shadow_example :: inner where
  "shadow_example = snd (create_database uuid_dec 100 inner_default (TenantId 2) (DatabaseId 1234567890) None None)"

theorem create_without_name_shadows_witness:
  "\<exists>r r' s'. create_database uuid_dec 200 shadow_example (TenantId 2) (DatabaseId 1234567891) None None = (Inr r', s')
    \<and> db_name r' = db_name r \<and> get_database s' (TenantId 2) (DatabaseId 1234567890) = Inr r
    \<and> get_database_by_name (DatabaseId 0) s' (TenantId 2) (db_name r) = Inr r'"
proof -
  have n: "default_cell_name uuid_dec (DatabaseId 1234567890) = ''cell-12345678''"
      "default_cell_name uuid_dec (DatabaseId 1234567891) = ''cell-12345678''"
  proof -
    have "show_nat 1234567890 = ''1234567890''" "show_nat 1234567891 = ''1234567891''"
      by (simp_all add: show_nat.simps)
    then show "default_cell_name uuid_dec (DatabaseId 1234567890) = ''cell-12345678''"
        "default_cell_name uuid_dec (DatabaseId 1234567891) = ''cell-12345678''"
      by (simp_all add: default_cell_name_def uuid_dec_def)
  qed
  define r where "r = new_record 100 (TenantId 2) (DatabaseId 1234567890) None ''cell-12345678''"
  have s: "map_of (name_index shadow_example) (TenantId 2, ''cell-12345678'') = Some (DatabaseId 1234567890)"
      "map_of (databases shadow_example) (TenantId 2, DatabaseId 1234567890) = Some r"
      "map_of (databases shadow_example) (TenantId 2, DatabaseId 1234567891) = None"
    by (simp_all add: shadow_example_def create_database_def insert_record_def inner_default_def n r_def Let_def)
  have "db_name r = ''cell-12345678''"
    by (simp add: r_def)
  with create_without_name_shadows [of shadow_example "TenantId 2" uuid_dec "DatabaseId 1234567891"
      "DatabaseId 1234567890" r 200 None "DatabaseId 0"] s n
  show ?thesis
    by auto
qed

section \<open>Lookups across tenants and listings\<close>

lemma get_by_id_Inr:
  assumes "dir_inv s"
  shows "get_database_by_id s i = Inr r \<longleftrightarrow> (\<exists>t. map_of (databases s) (t, i) = Some r)"
proof
  assume "get_database_by_id s i = Inr r"
  then have "List.find (\<lambda>r. db_id r = i) (map snd (databases s)) = Some r"
    by (simp add: get_database_by_id_def ok_or_def split: option.splits)
  then obtain k where k: "k < length (map snd (databases s))" "map snd (databases s) ! k = r" "db_id r = i"
    unfolding find_Some_iff by auto
  then obtain t j where "((t, j), r) \<in> set (databases s)"
    by (metis length_map nth_map nth_mem prod.collapse)
  moreover have "distinct (map fst (databases s))"
    using assms by (simp add: dir_inv_iff)
  ultimately have "map_of (databases s) (t, j) = Some r"
    by simp
  moreover have "dir_maps (map_of (databases s)) (map_of (name_index s))"
    using assms by (simp add: dir_inv_iff)
  ultimately show "\<exists>t. map_of (databases s) (t, i) = Some r"
    using dir_mapsD(3) k(3) by metis
next
  assume "\<exists>t. map_of (databases s) (t, i) = Some r"
  then obtain t where t: "map_of (databases s) (t, i) = Some r"
    by blast
  have inv: "dir_maps (map_of (databases s)) (map_of (name_index s))" "distinct (map fst (databases s))"
    using assms by (simp_all add: dir_inv_iff)
  have mem: "r \<in> set (map snd (databases s))"
    using map_of_SomeD [OF t] by force
  have uniq: "x = r" if x: "x \<in> set (map snd (databases s))" "db_id x = i" for x
  proof -
    from x(1) obtain t' j where "((t', j), x) \<in> set (databases s)"
      by auto
    then have xj: "map_of (databases s) (t', j) = Some x"
      using inv(2) by simp
    then have "j = i"
      using dir_mapsD(3) [OF inv(1)] x(2) by metis
    then show ?thesis
      using xj t dir_mapsD(1) [OF inv(1)] by (metis option.inject)
  qed
  have "List.find (\<lambda>r. db_id r = i) (map snd (databases s)) \<noteq> None"
    unfolding find_None_iff using mem dir_mapsD(3) [OF inv(1) t] by auto
  then obtain x where x: "List.find (\<lambda>r. db_id r = i) (map snd (databases s)) = Some x"
    by auto
  then have "x \<in> set (map snd (databases s))" "db_id x = i"
    unfolding find_Some_iff by auto
  with uniq x show "get_database_by_id s i = Inr r"
    by (simp add: get_database_by_id_def)
qed

lemma set_list_databases:
  assumes "dir_inv s"
  shows "r \<in> set (list_databases s t) \<longleftrightarrow> (\<exists>i. get_database s t i = Inr r)"
    and "sorted (map (\<lambda>r. (db_created_at r, db_id r)) (list_databases s t))"
proof -
  have "distinct (map fst (databases s))"
    using assms by (simp add: dir_inv_iff)
  then show "r \<in> set (list_databases s t) \<longleftrightarrow> (\<exists>i. get_database s t i = Inr r)"
    unfolding get_database_Inr by (force simp: list_databases_def)
  show "sorted (map (\<lambda>r. (db_created_at r, db_id r)) (list_databases s t))"
    by (simp add: list_databases_def)
qed

end
