(* ===== verification/Kv_Cache.thy ===== *)
theory Kv_Cache
  imports Kv_Store
begin

text \<open>
  The KV cache shared by all cells of a data node (\<open>data-node/src/cache.rs\<close>).  The concurrent
  cache of the \<open>moka\<close> crate it wraps is a parameter: a record of its operations on an arbitrary
  state.  What the code relies on is \<open>moka_ok\<close>: a cache holds a key only with the value inserted
  last and not invalidated since; it may drop any entry at any time, and its iterator yields every
  entry it holds.
\<close>

record cache_key =
  ck_database_id :: database_id
  ck_key :: str

record cached_value =
  cv_value :: str
  cv_expires_at :: "int option"

record 'c moka =
  mk_new :: "nat \<Rightarrow> 'c"
  mk_get :: "'c \<Rightarrow> cache_key \<Rightarrow> cached_value option \<times> 'c"
  mk_insert :: "'c \<Rightarrow> cache_key \<Rightarrow> cached_value \<Rightarrow> 'c"
  mk_invalidate :: "'c \<Rightarrow> cache_key \<Rightarrow> 'c"
  mk_entries :: "'c \<Rightarrow> (cache_key \<times> cached_value) list"
  mk_entry_count :: "'c \<Rightarrow> nat"

definition held :: "'c moka \<Rightarrow> 'c \<Rightarrow> cache_key \<rightharpoonup> cached_value" where
  "held M c k = fst (mk_get M c k)"

definition moka_ok :: "'c moka \<Rightarrow> bool" where
  "moka_ok M \<longleftrightarrow>
    (\<forall>n. held M (mk_new M n) = Map.empty) \<and>
    (\<forall>c k. held M (snd (mk_get M c k)) \<subseteq>\<^sub>m held M c) \<and>
    (\<forall>c k v. held M (mk_insert M c k v) \<subseteq>\<^sub>m (held M c)(k \<mapsto> v)) \<and>
    (\<forall>c k. held M (mk_invalidate M c k) \<subseteq>\<^sub>m (held M c)(k := None)) \<and>
    (\<forall>c. dom (held M c) \<subseteq> fst ` set (mk_entries M c))"

record 'c kv_cache =
  kc_inner :: 'c
  kc_hits :: nat
  kc_misses :: nat

definition cache_new :: "'c moka \<Rightarrow> nat \<Rightarrow> 'c kv_cache" where
  "cache_new M max_entries = \<lparr>kc_inner = mk_new M (max max_entries 1), kc_hits = 0, kc_misses = 0\<rparr>"

definition cache_get :: "'c moka \<Rightarrow> database_id \<Rightarrow> str \<Rightarrow> int \<Rightarrow> 'c kv_cache \<Rightarrow> kv_entry option \<times> 'c kv_cache" where
  "cache_get M db key now kc =
    (let cache_key = \<lparr>ck_database_id = db, ck_key = key\<rparr>;
         (found, inner) = mk_get M (kc_inner kc) cache_key
     in case found of
          Some v \<Rightarrow>
            if \<not> is_expired (cv_expires_at v) now then
              (Some \<lparr>ke_value = cv_value v, ke_ttl_seconds = ttl_or_remaining (cv_expires_at v) now\<rparr>,
               kc\<lparr>kc_inner := inner, kc_hits := wrap_u64 (int (kc_hits kc) + 1)\<rparr>)
            else (None, kc\<lparr>kc_inner := mk_invalidate M inner cache_key, kc_misses := wrap_u64 (int (kc_misses kc) + 1)\<rparr>)
        | None \<Rightarrow> (None, kc\<lparr>kc_inner := inner, kc_misses := wrap_u64 (int (kc_misses kc) + 1)\<rparr>))"

definition cache_put :: "'c moka \<Rightarrow> database_id \<Rightarrow> str \<Rightarrow> str \<Rightarrow> int option \<Rightarrow> 'c kv_cache \<Rightarrow> 'c kv_cache" where
  "cache_put M db key v expires_at kc =
    kc\<lparr>kc_inner := mk_insert M (kc_inner kc) \<lparr>ck_database_id = db, ck_key = key\<rparr>
        \<lparr>cv_value = v, cv_expires_at = expires_at\<rparr>\<rparr>"

definition cache_invalidate :: "'c moka \<Rightarrow> database_id \<Rightarrow> str \<Rightarrow> 'c kv_cache \<Rightarrow> 'c kv_cache" where
  "cache_invalidate M db key kc =
    kc\<lparr>kc_inner := mk_invalidate M (kc_inner kc) \<lparr>ck_database_id = db, ck_key = key\<rparr>\<rparr>"

definition clear_database :: "'c moka \<Rightarrow> database_id \<Rightarrow> 'c kv_cache \<Rightarrow> 'c kv_cache" where
  "clear_database M db kc =
    (let keys = map fst (filter (\<lambda>(k, _). ck_database_id k = db) (mk_entries M (kc_inner kc)))
     in kc\<lparr>kc_inner := fold (\<lambda>k c. mk_invalidate M c k) keys (kc_inner kc)\<rparr>)"

definition cache_len :: "'c moka \<Rightarrow> 'c kv_cache \<Rightarrow> nat" where
  "cache_len M kc = mk_entry_count M (kc_inner kc)"

definition cache_is_empty :: "'c moka \<Rightarrow> 'c kv_cache \<Rightarrow> bool" where
  "cache_is_empty M kc \<longleftrightarrow> cache_len M kc = 0"

definition cache_stats :: "'c kv_cache \<Rightarrow> nat \<times> nat" where
  "cache_stats kc = (kc_hits kc, kc_misses kc)"

section \<open>What the cache holds\<close>

definition cached :: "'c moka \<Rightarrow> 'c kv_cache \<Rightarrow> database_id \<Rightarrow> str \<Rightarrow> (str \<times> int option) option" where
  "cached M kc db key = map_option (\<lambda>v. (cv_value v, cv_expires_at v))
    (held M (kc_inner kc) \<lparr>ck_database_id = db, ck_key = key\<rparr>)"

lemma cached_iff:
  "cached M kc db key = Some (v, e) \<longleftrightarrow>
    held M (kc_inner kc) \<lparr>ck_database_id = db, ck_key = key\<rparr> = Some \<lparr>cv_value = v, cv_expires_at = e\<rparr>"
  by (auto simp: cached_def)

lemma map_le_Some: "m \<subseteq>\<^sub>m m' \<Longrightarrow> m k = Some w \<Longrightarrow> m' k = Some w"
  by (force simp: map_le_def)

lemma moka_cases:
  assumes "moka_ok M"
  shows "held M (mk_new M n) k = None"
    "held M (snd (mk_get M c k)) k' = Some w \<Longrightarrow> held M c k' = Some w"
    "held M (mk_insert M c k v) k' = Some w \<Longrightarrow> (if k' = k then w = v else held M c k' = Some w)"
    "held M (mk_invalidate M c k) k' = Some w \<Longrightarrow> k' \<noteq> k \<and> held M c k' = Some w"
    "held M c k' = Some w \<Longrightarrow> k' \<in> fst ` set (mk_entries M c)"
proof -
  have laws: "held M (mk_new M n) = Map.empty" "held M (snd (mk_get M c k)) \<subseteq>\<^sub>m held M c"
    "held M (mk_insert M c k v) \<subseteq>\<^sub>m (held M c)(k \<mapsto> v)" "held M (mk_invalidate M c k) \<subseteq>\<^sub>m (held M c)(k := None)"
    "dom (held M c) \<subseteq> fst ` set (mk_entries M c)"
    using assms by (simp_all add: moka_ok_def)
  show "held M (mk_new M n) k = None"
    using laws(1) by simp
  show "held M (snd (mk_get M c k)) k' = Some w \<Longrightarrow> held M c k' = Some w"
    by (rule map_le_Some [OF laws(2)])
  show "held M (mk_insert M c k v) k' = Some w \<Longrightarrow> (if k' = k then w = v else held M c k' = Some w)"
    using map_le_Some [OF laws(3), of k' w] by (auto split: if_splits)
  show "held M (mk_invalidate M c k) k' = Some w \<Longrightarrow> k' \<noteq> k \<and> held M c k' = Some w"
    using map_le_Some [OF laws(4), of k' w] by (auto split: if_splits)
  show "held M c k' = Some w \<Longrightarrow> k' \<in> fst ` set (mk_entries M c)"
    using laws(5) by blast
qed

lemma cached_new: "moka_ok M \<Longrightarrow> cached M (cache_new M n) db k = None"
  by (simp add: cached_def cache_new_def moka_cases(1))

lemma cached_put:
  assumes "moka_ok M" "cached M (cache_put M db k v e kc) db' k' = Some w"
  shows "if db' = db \<and> k' = k then w = (v, e) else cached M kc db' k' = Some w"
proof -
  obtain z where z: "held M (kc_inner (cache_put M db k v e kc)) \<lparr>ck_database_id = db', ck_key = k'\<rparr> = Some z"
    "w = (cv_value z, cv_expires_at z)"
    using assms(2) by (auto simp: cached_def)
  from moka_cases(3) [OF assms(1) z(1) [unfolded cache_put_def, simplified]] z(2) show ?thesis
    by (auto simp: cached_def split: if_splits)
qed

lemma cached_invalidate:
  assumes "moka_ok M" "cached M (cache_invalidate M db k kc) db' k' = Some w"
  shows "\<not> (db' = db \<and> k' = k) \<and> cached M kc db' k' = Some w"
proof -
  obtain z where z: "held M (kc_inner (cache_invalidate M db k kc)) \<lparr>ck_database_id = db', ck_key = k'\<rparr> = Some z"
    "w = (cv_value z, cv_expires_at z)"
    using assms(2) by (auto simp: cached_def)
  from moka_cases(4) [OF assms(1) z(1) [unfolded cache_invalidate_def, simplified]] z(2) show ?thesis
    by (auto simp: cached_def)
qed

lemma held_fold_invalidate:
  assumes "moka_ok M" "held M (fold (\<lambda>k c. mk_invalidate M c k) ks c) k' = Some w"
  shows "k' \<notin> set ks \<and> held M c k' = Some w"
  using assms(2)
proof (induction ks arbitrary: c)
  case (Cons k ks)
  then have "k' \<notin> set ks \<and> held M (mk_invalidate M c k) k' = Some w"
    by simp
  with moka_cases(4) [OF assms(1), of c k k' w] show ?case
    by simp
qed simp

lemma cached_clear:
  assumes "moka_ok M" "cached M (clear_database M db kc) db' k = Some w"
  shows "db' \<noteq> db \<and> cached M kc db' k = Some w"
proof -
  let ?k = "\<lparr>ck_database_id = db', ck_key = k\<rparr>"
  obtain v where v: "held M (kc_inner (clear_database M db kc)) ?k = Some v" "w = (cv_value v, cv_expires_at v)"
    using assms(2) by (auto simp: cached_def)
  have h: "?k \<notin> set (map fst (filter (\<lambda>(k, _). ck_database_id k = db) (mk_entries M (kc_inner kc))))"
    "held M (kc_inner kc) ?k = Some v"
    using held_fold_invalidate [OF assms(1) v(1) [unfolded clear_database_def Let_def, simplified]] by simp_all
  have "?k \<in> fst ` set (mk_entries M (kc_inner kc))"
    by (rule moka_cases(5) [OF assms(1) h(2)])
  with h(1) have "db' \<noteq> db"
    by force
  with h(2) v(2) show ?thesis
    by (simp add: cached_def)
qed

lemma cached_get:
  assumes "moka_ok M" "cache_get M db k now kc = (r, kc')"
  shows "cached M kc' db' k' = Some w \<Longrightarrow> cached M kc db' k' = Some w"
    "r = Some x \<Longrightarrow> \<exists>v e. cached M kc db k = Some (v, e) \<and> \<not> is_expired e now \<and>
      x = \<lparr>ke_value = v, ke_ttl_seconds = ttl_or_remaining e now\<rparr>"
proof -
  let ?k = "\<lparr>ck_database_id = db, ck_key = k\<rparr>"
  obtain found inner where g: "mk_get M (kc_inner kc) ?k = (found, inner)"
    by fastforce
  have found: "held M (kc_inner kc) ?k = found" and inner: "inner = snd (mk_get M (kc_inner kc) ?k)"
    using g by (simp_all add: held_def)
  have kc': "kc_inner kc' = inner \<or> kc_inner kc' = mk_invalidate M inner ?k"
    using assms(2) by (auto simp: cache_get_def Let_def g split: option.splits if_splits)
  have keep: "held M (kc_inner kc') q = Some z \<Longrightarrow> held M (kc_inner kc) q = Some z" for q z
    using kc' moka_cases(2) [OF assms(1), of "kc_inner kc" ?k q z] moka_cases(4) [OF assms(1), of inner ?k q z]
    unfolding inner by auto
  show "cached M kc' db' k' = Some w \<Longrightarrow> cached M kc db' k' = Some w"
    using keep by (auto simp: cached_def)
  show "r = Some x \<Longrightarrow> \<exists>v e. cached M kc db k = Some (v, e) \<and> \<not> is_expired e now \<and>
      x = \<lparr>ke_value = v, ke_ttl_seconds = ttl_or_remaining e now\<rparr>"
    using assms(2) found by (auto simp: cache_get_def Let_def g cached_def split: option.splits if_splits)
qed

section \<open>A cache that keeps everything\<close>

definition map_moka :: "(cache_key \<times> cached_value) list moka" where
  "map_moka = \<lparr>mk_new = (\<lambda>_. []), mk_get = (\<lambda>c k. (map_of c k, c)), mk_insert = (\<lambda>c k v. AList.update k v c),
    mk_invalidate = (\<lambda>c k. AList.delete k c), mk_entries = (\<lambda>c. c), mk_entry_count = length\<rparr>"

lemma map_moka_ok: "moka_ok map_moka"
  by (auto simp: moka_ok_def map_moka_def held_def map_le_def map_of_update map_of_delete dest!: map_of_SomeD intro: rev_image_eqI)

end
