(* ===== verification/Db_Manager.thy ===== *)
theory Db_Manager
  imports Kv_Store Runtime_Config
begin

text \<open>
  The files of a cell and the pool of open connections of a data node (\<open>data-node/src/storage.rs\<close>,
  \<open>manager.rs\<close>).  The directory holds per cell the main database file, the side files SQLite keeps
  next to it and the manifest; the content of a database is its KV table and the user's tables.  A
  connection reads and writes the database of its cell: what was committed is there when the
  connection is closed, so closing one only removes it from the pool.  The outcomes of the calls
  to the operating system and to SQLite within one request are an argument, \<open>io_env\<close>.
\<close>

section \<open>Files of a cell\<close>

record 'u cell_db =
  db_kv :: kv_table
  db_user :: 'u

record 'u cell_files =
  cf_main :: "'u cell_db option"
  cf_side :: "str list"
  cf_manifest :: "nat option option"

type_synonym 'u disk = "(database_id, 'u cell_files) hashmap"

definition no_files :: "'u cell_files" where
  "no_files = \<lparr>cf_main = None, cf_side = [], cf_manifest = None\<rparr>"

definition files_of :: "'u disk \<Rightarrow> database_id \<Rightarrow> 'u cell_files" where
  "files_of d db = (case map_of d db of Some f \<Rightarrow> f | None \<Rightarrow> no_files)"

text \<open>\<open>sh\<close> is the text form of a UUID; its first two characters name the directory of the cell.\<close>

definition db_path :: "(uuid \<Rightarrow> str) \<Rightarrow> str \<Rightarrow> database_id \<Rightarrow> str" where
  "db_path sh dir db =
    (let hex = sh (db_uuid db); bucket = take 2 hex
     in dir @ ''/'' @ bucket @ ''/'' @ hex @ ''.sqlite'')"

definition db_parent :: "(uuid \<Rightarrow> str) \<Rightarrow> str \<Rightarrow> database_id \<Rightarrow> str" where
  "db_parent sh dir db = dir @ ''/'' @ take 2 (sh (db_uuid db))"

definition EMPTY_CELL_BASELINE_BYTES :: nat where
  "EMPTY_CELL_BASELINE_BYTES = 32 * 1024"

text \<open>\<open>main_len\<close> is the size of the main file, \<open>None\<close> if there is none or it cannot be read.\<close>

definition storage_bytes :: "nat option \<Rightarrow> nat" where
  "storage_bytes main_len = (case main_len of Some n \<Rightarrow> n | None \<Rightarrow> 0) - EMPTY_CELL_BASELINE_BYTES"

definition CELL_FORMAT_VERSION :: nat where
  "CELL_FORMAT_VERSION = 1"

definition manifest_path :: "(uuid \<Rightarrow> str) \<Rightarrow> str \<Rightarrow> database_id \<Rightarrow> str" where
  "manifest_path sh dir db = db_path sh dir db @ ''.manifest.json''"

definition check_format_version :: "(uuid \<Rightarrow> str) \<Rightarrow> 'u disk \<Rightarrow> database_id \<Rightarrow> unit result" where
  "check_format_version sh d db = (case cf_manifest (files_of d db) of
      Some (Some v) \<Rightarrow>
        if v > CELL_FORMAT_VERSION then
          Inl (Internal (''cell '' @ sh (db_uuid db) @ '' uses format_version '' @ show_nat v
            @ '', this binary supports up to '' @ show_nat CELL_FORMAT_VERSION @ ''; upgrade required''))
        else Inr ()
    | _ \<Rightarrow> Inr ())"

text \<open>The outcomes of one request: failures by the step they strike, and the times it reads.\<close>

record io_env =
  io_fail :: "str \<Rightarrow> str option"
  io_quick_check :: str
  io_faults :: "str option list"
  io_now :: nat
  io_after :: nat
  io_waited :: nat

definition write_manifest ::
  "(uuid \<Rightarrow> str) \<Rightarrow> str \<Rightarrow> io_env \<Rightarrow> database_id \<Rightarrow> ('u disk, unit) op" where
  "write_manifest sh dir io db d = (case io_fail io ''write_manifest'' of
      Some e \<Rightarrow> (Inl (Internal (''write manifest '' @ manifest_path sh dir db @ '': '' @ e)), d)
    | None \<Rightarrow> (Inr (), AList.update db (files_of d db\<lparr>cf_manifest := Some (Some 1)\<rparr>) d))"

definition quick_check :: "io_env \<Rightarrow> unit result" where
  "quick_check io = (case io_fail io ''quick_check'' of
      Some e \<Rightarrow> Inl (Sql e)
    | None \<Rightarrow> if trim (io_quick_check io) = ''ok'' then Inr ()
        else Inl (Internal (''cell integrity check failed: '' @ io_quick_check io)))"

fun sync_mode :: "kv_durability \<Rightarrow> str" where
  "sync_mode Fast = ''OFF''"
| "sync_mode Normal = ''NORMAL''"
| "sync_mode Strict = ''FULL''"

text \<open>The statements \<open>open\<close> and \<open>init_schema\<close> run, in order; the first that fails ends them.\<close>

definition open_steps :: "kv_durability \<Rightarrow> str list" where
  "open_steps durability = [''busy_timeout'', ''journal_mode=WAL'', ''synchronous='' @ sync_mode durability,
    ''foreign_keys=ON'', ''__sys_kv'', ''__sys_kv_expires_at'', ''__sys_meta'', ''schema_version'']"

fun run_steps :: "(str \<Rightarrow> str option) \<Rightarrow> str list \<Rightarrow> unit result" where
  "run_steps fails [] = Inr ()"
| "run_steps fails (s # ss) = (case fails s of Some e \<Rightarrow> Inl (Sql e) | None \<Rightarrow> run_steps fails ss)"

definition create_main :: "'u \<Rightarrow> database_id \<Rightarrow> 'u disk \<Rightarrow> 'u disk" where
  "create_main u0 db d = (case cf_main (files_of d db) of
      Some _ \<Rightarrow> d
    | None \<Rightarrow> AList.update db (files_of d db\<lparr>cf_main := Some \<lparr>db_kv = [], db_user = u0\<rparr>\<rparr>) d)"

text \<open>\<open>u0\<close> is the content of a database without user tables.\<close>

definition open_db ::
  "(uuid \<Rightarrow> str) \<Rightarrow> str \<Rightarrow> 'u \<Rightarrow> io_env \<Rightarrow> kv_durability \<Rightarrow> database_id \<Rightarrow> ('u disk, unit) op" where
  "open_db sh dir u0 io durability db d = (case io_fail io ''create_dir'' of
      Some e \<Rightarrow> (Inl (Internal (''create data dir '' @ db_parent sh dir db @ '': '' @ e)), d)
    | None \<Rightarrow> (case io_fail io ''open'' of
        Some e \<Rightarrow> (Inl (Sql e), d)
      | None \<Rightarrow> (rbind (run_steps (io_fail io) (open_steps durability)) (\<lambda>_. quick_check io), create_main u0 db d)))"

text \<open>The loop over the files of a cell that \<open>remove_files\<close> and \<open>reset_database\<close> share.\<close>

fun remove_each :: "(str \<Rightarrow> str option) \<Rightarrow> (str \<Rightarrow> str \<Rightarrow> combee_error) \<Rightarrow> str list \<Rightarrow> ('u cell_files, unit) op" where
  "remove_each fails err [] f = (Inr (), f)"
| "remove_each fails err (s # ss) f =
    (let present = (if s = [] then cf_main f \<noteq> None else s \<in> set (cf_side f))
     in if \<not> present then remove_each fails err ss f
        else case fails (''remove'' @ s) of
            Some e \<Rightarrow> (Inl (err s e), f)
          | None \<Rightarrow> remove_each fails err ss
              (if s = [] then f\<lparr>cf_main := None\<rparr> else f\<lparr>cf_side := filter (\<lambda>x. x \<noteq> s) (cf_side f)\<rparr>))"

definition remove_files :: "(uuid \<Rightarrow> str) \<Rightarrow> str \<Rightarrow> io_env \<Rightarrow> database_id \<Rightarrow> ('u disk, unit) op" where
  "remove_files sh dir io db d =
    (let (r, f) = remove_each (io_fail io)
        (\<lambda>s e. Internal (''remove '' @ db_path sh dir db @ s @ '': '' @ e)) ['''', ''-wal'', ''-shm''] (files_of d db)
     in (r, AList.update db f d))"

section \<open>The pool of connections\<close>

record mgr_entry =
  last_used :: nat

record 'u mgr =
  mg_data_dir :: str
  mg_max_active :: nat
  mg_idle_timeout :: nat
  mg_kv_durability :: kv_durability
  mg_conns :: "(database_id, mgr_entry) hashmap"
  mg_interrupts :: "database_id set"
  mg_db_locks :: "database_id set"
  mg_readonly :: "database_id set"
  mg_disk :: "'u disk"
  mg_lock_wait_ns :: nat
  mg_lock_wait_samples :: nat
  mg_lock_wait_max_ns :: nat
  mg_lock_queue :: nat
  mg_lock_queue_max :: nat

record data_node_config =
  dc_data_dir :: str
  dc_max_active_dbs :: nat
  dc_db_idle_timeout :: nat
  dc_ttl_gc_interval :: nat
  dc_kv_cache_capacity :: nat
  dc_kv_durability :: kv_durability
  dc_quota :: quota_config
  dc_sql_timeout :: "nat option"

definition from_common :: "'addr config \<Rightarrow> data_node_config" where
  "from_common cfg = \<lparr>dc_data_dir = cfg_data_dir cfg, dc_max_active_dbs = cfg_max_active_dbs cfg,
    dc_db_idle_timeout = cfg_db_idle_timeout cfg, dc_ttl_gc_interval = cfg_ttl_gc_interval cfg,
    dc_kv_cache_capacity = cfg_kv_cache_capacity cfg, dc_kv_durability = cfg_kv_durability cfg, dc_quota = cfg_quota cfg,
    dc_sql_timeout = (if cfg_sql_timeout_secs cfg > 0 then Some (cfg_sql_timeout_secs cfg) else None)\<rparr>"

definition mgr_new :: "data_node_config \<Rightarrow> 'u disk \<Rightarrow> 'u mgr" where
  "mgr_new cfg d = \<lparr>mg_data_dir = dc_data_dir cfg, mg_max_active = max (dc_max_active_dbs cfg) 1,
    mg_idle_timeout = dc_db_idle_timeout cfg, mg_kv_durability = dc_kv_durability cfg, mg_conns = [],
    mg_interrupts = {}, mg_db_locks = {}, mg_readonly = {}, mg_disk = d, mg_lock_wait_ns = 0,
    mg_lock_wait_samples = 0, mg_lock_wait_max_ns = 0, mg_lock_queue = 0, mg_lock_queue_max = 0\<rparr>"

text \<open>
  \<open>acquire_lock\<close> up to the \<open>await\<close> and after it; \<open>waited\<close> is the time in between.  The counters are
  \<open>u64\<close> atomics, which wrap.
\<close>

definition lock_enter :: "database_id \<Rightarrow> 'u mgr \<Rightarrow> 'u mgr" where
  "lock_enter db m =
    (let q = wrap_u64 (int (mg_lock_queue m) + 1)
     in m\<lparr>mg_lock_queue := q, mg_lock_queue_max := max (mg_lock_queue_max m) q, mg_db_locks := insert db (mg_db_locks m)\<rparr>)"

definition lock_granted :: "nat \<Rightarrow> 'u mgr \<Rightarrow> 'u mgr" where
  "lock_granted waited m =
    m\<lparr>mg_lock_queue := wrap_u64 (int (mg_lock_queue m) - 1),
      mg_lock_wait_ns := wrap_u64 (int (mg_lock_wait_ns m) + int waited),
      mg_lock_wait_samples := wrap_u64 (int (mg_lock_wait_samples m) + 1),
      mg_lock_wait_max_ns := max (mg_lock_wait_max_ns m) waited\<rparr>"

definition acquire_lock :: "io_env \<Rightarrow> database_id \<Rightarrow> 'u mgr \<Rightarrow> 'u mgr" where
  "acquire_lock io db m = lock_granted (io_waited io) (lock_enter db m)"

record lock_stats =
  total_wait_ns :: nat
  samples :: nat
  max_wait_ns :: nat
  max_queue_depth :: nat

definition get_lock_stats :: "'u mgr \<Rightarrow> lock_stats" where
  "get_lock_stats m = \<lparr>total_wait_ns = mg_lock_wait_ns m, samples = mg_lock_wait_samples m,
    max_wait_ns = mg_lock_wait_max_ns m, max_queue_depth = mg_lock_queue_max m\<rparr>"

definition avg_wait_ns :: "lock_stats \<Rightarrow> nat" where
  "avg_wait_ns s = (if samples s = 0 then 0 else total_wait_ns s div samples s)"

definition reset_lock_stats :: "'u mgr \<Rightarrow> 'u mgr" where
  "reset_lock_stats m = m\<lparr>mg_lock_wait_ns := 0, mg_lock_wait_samples := 0, mg_lock_wait_max_ns := 0,
    mg_lock_queue := 0, mg_lock_queue_max := 0\<rparr>"

definition mark_readonly :: "database_id \<Rightarrow> 'u mgr \<Rightarrow> 'u mgr" where
  "mark_readonly db m = m\<lparr>mg_readonly := insert db (mg_readonly m)\<rparr>"

definition is_readonly :: "'u mgr \<Rightarrow> database_id \<Rightarrow> bool" where
  "is_readonly m db \<longleftrightarrow> db \<in> mg_readonly m"

text \<open>\<open>min_by_key\<close> returns the first of several minimal elements.\<close>

fun lru_entry :: "(database_id \<times> mgr_entry) list \<Rightarrow> (database_id \<times> mgr_entry) option" where
  "lru_entry [] = None"
| "lru_entry ((k, e) # xs) = (case lru_entry xs of
      None \<Rightarrow> Some (k, e)
    | Some (k', e') \<Rightarrow> if last_used e \<le> last_used e' then Some (k, e) else Some (k', e'))"

definition evict_lru :: "(database_id, mgr_entry) hashmap \<Rightarrow> (database_id, mgr_entry) hashmap" where
  "evict_lru conns = (case lru_entry conns of Some (k, _) \<Rightarrow> AList.delete k conns | None \<Rightarrow> conns)"

text \<open>
  The part of \<open>with_conn\<close> that puts a connection for the cell into the pool: an error leaves it
  without one, and an error of \<open>open\<close> marks the cell read-only.
\<close>

definition ensure_conn ::
  "(uuid \<Rightarrow> str) \<Rightarrow> 'u \<Rightarrow> io_env \<Rightarrow> database_id \<Rightarrow> ('u mgr, unit) op" where
  "ensure_conn sh u0 io db m = (case map_of (mg_conns m) db of
      Some _ \<Rightarrow> (Inr (), m)
    | None \<Rightarrow>
        let m = m\<lparr>mg_conns := (if length (mg_conns m) \<ge> mg_max_active m then evict_lru (mg_conns m) else mg_conns m)\<rparr>;
            (opened, d) = open_db sh (mg_data_dir m) u0 io (mg_kv_durability m) db (mg_disk m);
            m = m\<lparr>mg_disk := d\<rparr>
        in case opened of
            Inl e \<Rightarrow> (Inl e, m\<lparr>mg_readonly := insert db (mg_readonly m)\<rparr>)
          | Inr _ \<Rightarrow> (case check_format_version sh (mg_disk m) db of
              Inl e \<Rightarrow> (Inl e, m)
            | Inr _ \<Rightarrow>
                (Inr (), m\<lparr>mg_interrupts := insert db (mg_interrupts m),
                  mg_disk := snd (write_manifest sh (mg_data_dir m) io db (mg_disk m)),
                  mg_conns := AList.update db \<lparr>last_used = io_now io\<rparr> (mg_conns m)\<rparr>)))"

text \<open>The connection of a cell, and the database after the work on it.\<close>

definition conn_of :: "'u \<Rightarrow> io_env \<Rightarrow> database_id \<Rightarrow> 'u mgr \<Rightarrow> 'u conn" where
  "conn_of u0 io db m = (case cf_main (files_of (mg_disk m) db) of
      Some c \<Rightarrow> \<lparr>sys_kv = db_kv c, user_db = db_user c, faults = io_faults io\<rparr>
    | None \<Rightarrow> \<lparr>sys_kv = [], user_db = u0, faults = io_faults io\<rparr>)"

definition store_conn :: "database_id \<Rightarrow> 'u conn \<Rightarrow> 'u mgr \<Rightarrow> 'u mgr" where
  "store_conn db c m = m\<lparr>mg_disk := AList.update db
    (files_of (mg_disk m) db\<lparr>cf_main := Some \<lparr>db_kv = sys_kv c, db_user = user_db c\<rparr>\<rparr>) (mg_disk m)\<rparr>"

text \<open>
  The closure may also use state shared by the caller, such as the cache: \<open>'x\<close>.
\<close>

definition with_conn ::
  "(uuid \<Rightarrow> str) \<Rightarrow> 'u \<Rightarrow> io_env \<Rightarrow> database_id \<Rightarrow> ('u conn \<times> 'x, 'a) op \<Rightarrow> ('u mgr \<times> 'x, 'a) op" where
  "with_conn sh u0 io db f = (\<lambda>(m, x). case ensure_conn sh u0 io db (acquire_lock io db m) of
      (Inl e, m) \<Rightarrow> (Inl e, m, x)
    | (Inr _, m) \<Rightarrow>
        let (r, c, x) = f (conn_of u0 io db m, x);
            m = store_conn db c m
        in (r, m\<lparr>mg_conns := AList.update db \<lparr>last_used = io_after io\<rparr> (mg_conns m)\<rparr>, x))"

definition mgr_delete_database :: "(uuid \<Rightarrow> str) \<Rightarrow> io_env \<Rightarrow> database_id \<Rightarrow> ('u mgr, unit) op" where
  "mgr_delete_database sh io db m =
    (let m = acquire_lock io db m;
         m = m\<lparr>mg_conns := AList.delete db (mg_conns m)\<rparr>;
         (r, d) = remove_files sh (mg_data_dir m) io db (mg_disk m);
         m = m\<lparr>mg_disk := d\<rparr>
     in case r of Inl e \<Rightarrow> (Inl e, m) | Inr _ \<Rightarrow> (Inr (), m\<lparr>mg_db_locks := mg_db_locks m - {db}\<rparr>))"

definition active_count :: "'u mgr \<Rightarrow> nat" where
  "active_count m = length (mg_conns m)"

definition active_databases :: "'u mgr \<Rightarrow> database_id list" where
  "active_databases m = map fst (mg_conns m)"

text \<open>Whether an interrupt reaches a handle; the handle may belong to a connection closed long ago.\<close>

definition interrupts :: "'u mgr \<Rightarrow> database_id \<Rightarrow> bool" where
  "interrupts m db \<longleftrightarrow> db \<in> mg_interrupts m"

definition close_database :: "io_env \<Rightarrow> database_id \<Rightarrow> ('u mgr, unit) op" where
  "close_database io db m =
    (let m = acquire_lock io db m
     in (Inr (), m\<lparr>mg_conns := AList.delete db (mg_conns m), mg_db_locks := mg_db_locks m - {db}\<rparr>))"

definition close_all :: "'u mgr \<Rightarrow> 'u mgr" where
  "close_all m = m\<lparr>mg_conns := []\<rparr>"

text \<open>
  One tick of the maintenance task at the time \<open>now\<close>: idle connections are closed, then each
  remaining one collects garbage at its own reading of the wall clock, \<open>wall\<close>, and with its own
  faults.
\<close>

definition gc_cell :: "'u \<Rightarrow> (database_id \<Rightarrow> io_env \<times> int) \<Rightarrow> database_id \<Rightarrow> 'u mgr \<Rightarrow> 'u mgr" where
  "gc_cell u0 env db m =
    (let (io, wall) = env db in store_conn db (snd (gc_expired wall 1000 (conn_of u0 io db m))) m)"

definition maintenance_tick :: "'u \<Rightarrow> nat \<Rightarrow> (database_id \<Rightarrow> io_env \<times> int) \<Rightarrow> 'u mgr \<Rightarrow> 'u mgr" where
  "maintenance_tick u0 now env m =
    (let idle = map fst (filter (\<lambda>(_, e). now - last_used e > mg_idle_timeout m) (mg_conns m));
         m = m\<lparr>mg_conns := fold AList.delete idle (mg_conns m)\<rparr>
     in fold (gc_cell u0 env) (map fst (mg_conns m)) m)"

end
