(* ===== verification/Db_Pool.thy ===== *)
theory Db_Pool
  imports Db_Manager
begin

text \<open>
  Properties of the pool of connections: its size, the choice of the connection it closes, the
  separation of the cells, and the read-only protection of a cell that failed to open.
\<close>

section \<open>Steps of the manager\<close>

inductive mgr_step :: "(uuid \<Rightarrow> str) \<Rightarrow> 'u \<Rightarrow> 'u mgr \<Rightarrow> 'u mgr \<Rightarrow> bool" for sh :: "uuid \<Rightarrow> str" and u0 :: 'u where
  work: "with_conn sh u0 io db (f :: ('u conn \<times> unit, unit) op) (m, ()) = (r, m', ()) \<Longrightarrow> mgr_step sh u0 m m'"
| delete: "mgr_delete_database sh io db m = (r, m') \<Longrightarrow> mgr_step sh u0 m m'"
| close_one: "close_database io db m = (r, m') \<Longrightarrow> mgr_step sh u0 m m'"
| close_every: "mgr_step sh u0 m (close_all m)"
| tick: "mgr_step sh u0 m (maintenance_tick u0 now env m)"
| mark: "mgr_step sh u0 m (mark_readonly db m)"
| reset_stats: "mgr_step sh u0 m (reset_lock_stats m)"

inductive mgr_reachable :: "(uuid \<Rightarrow> str) \<Rightarrow> 'u \<Rightarrow> 'u mgr \<Rightarrow> 'u mgr \<Rightarrow> bool" for sh :: "uuid \<Rightarrow> str" and u0 :: 'u and m0 :: "'u mgr" where
  start: "mgr_reachable sh u0 m0 m0"
| step: "mgr_reachable sh u0 m0 m \<Longrightarrow> mgr_step sh u0 m m' \<Longrightarrow> mgr_reachable sh u0 m0 m'"

text \<open>A property of managers that every step keeps holds in every reachable one.\<close>

lemma mgr_reachable_keeps:
  assumes "mgr_reachable sh u0 m0 m" "P m0" "\<And>m m'. P m \<Longrightarrow> mgr_step sh u0 m m' \<Longrightarrow> P m'"
  shows "P m"
  using assms(1) by induction (auto intro: assms)

section \<open>The frame of each operation\<close>

lemma lock_frame [simp]:
  "mg_conns (acquire_lock io db m) = mg_conns m" "mg_disk (acquire_lock io db m) = mg_disk m"
  "mg_readonly (acquire_lock io db m) = mg_readonly m" "mg_max_active (acquire_lock io db m) = mg_max_active m"
  "mg_data_dir (acquire_lock io db m) = mg_data_dir m" "mg_kv_durability (acquire_lock io db m) = mg_kv_durability m"
  by (simp_all add: acquire_lock_def lock_enter_def lock_granted_def Let_def)

lemma store_frame [simp]:
  "mg_conns (store_conn db c m) = mg_conns m" "mg_readonly (store_conn db c m) = mg_readonly m"
  "mg_max_active (store_conn db c m) = mg_max_active m" "mg_idle_timeout (store_conn db c m) = mg_idle_timeout m"
  by (simp_all add: store_conn_def)

lemma gc_frame [simp]:
  "mg_conns (gc_cell u0 env db m) = mg_conns m" "mg_readonly (gc_cell u0 env db m) = mg_readonly m"
  "mg_max_active (gc_cell u0 env db m) = mg_max_active m"
  by (simp_all add: gc_cell_def split: prod.splits)

lemma gc_fold_frame [simp]:
  "mg_conns (fold (gc_cell u0 env) dbs m) = mg_conns m" "mg_readonly (fold (gc_cell u0 env) dbs m) = mg_readonly m"
  "mg_max_active (fold (gc_cell u0 env) dbs m) = mg_max_active m"
  by (induction dbs arbitrary: m) simp_all

section \<open>The least recently used connection\<close>

lemma lru_entry_Some: "xs \<noteq> [] \<Longrightarrow> \<exists>k e. lru_entry xs = Some (k, e)"
  by (induction xs rule: lru_entry.induct) (auto split: option.splits)

lemma lru_entry_min:
  "lru_entry xs = Some (k, e) \<Longrightarrow> (k, e) \<in> set xs \<and> (\<forall>p \<in> set xs. last_used e \<le> last_used (snd p))"
proof (induction xs arbitrary: k e)
  case (Cons p xs)
  show ?case
  proof (cases "lru_entry xs")
    case None
    then have "xs = []"
      using lru_entry_Some by fastforce
    with Cons.prems show ?thesis
      by (cases p) simp
  next
    case (Some q)
    then have "q \<in> set xs" "\<forall>p \<in> set xs. last_used (snd q) \<le> last_used (snd p)"
      using Cons.IH [of "fst q" "snd q"] by simp_all
    with Cons.prems Some show ?thesis
      by (cases p; cases q) (auto split: if_splits)
  qed
qed simp

lemma length_delete_less:
  assumes "k \<in> fst ` set xs"
  shows "length (AList.delete k xs) < length xs"
proof -
  obtain v where "(k, v) \<in> set xs"
    using assms by auto
  then show ?thesis
    unfolding AList.delete_eq by (rule length_filter_less) simp
qed

lemma length_delete_le: "length (AList.delete k xs) \<le> length xs"
  by (simp add: AList.delete_eq)

lemma evict_lru_length: "xs \<noteq> [] \<Longrightarrow> length (evict_lru xs) < length xs"
proof -
  assume "xs \<noteq> []"
  then obtain k e where ke: "lru_entry xs = Some (k, e)"
    using lru_entry_Some by blast
  then have "k \<in> fst ` set xs"
    using lru_entry_min by force
  with ke show ?thesis
    by (simp add: evict_lru_def length_delete_less)
qed

lemma length_update_le: "length (AList.update k v xs) \<le> Suc (length xs)"
  by (induction xs) auto

section \<open>Size\<close>

definition pool_inv :: "'u mgr \<Rightarrow> bool" where
  "pool_inv m \<longleftrightarrow> 1 \<le> mg_max_active m \<and> length (mg_conns m) \<le> mg_max_active m \<and> distinct (map fst (mg_conns m))"

lemma distinct_evict: "distinct (map fst xs) \<Longrightarrow> distinct (map fst (evict_lru xs))"
  by (auto simp: evict_lru_def distinct_keys_delete split: option.splits prod.splits)

definition kept_conns :: "'u mgr \<Rightarrow> (database_id, mgr_entry) hashmap" where
  "kept_conns m = (if length (mg_conns m) \<ge> mg_max_active m then evict_lru (mg_conns m) else mg_conns m)"

lemma ensure_conn_cases [consumes 1, case_names hit unopened unknown opened]:
  assumes "ensure_conn sh u0 io db m = (r, m')"
  obtains (hit) e where "map_of (mg_conns m) db = Some e" "r = Inr ()" "m' = m"
  | (unopened) e d where "map_of (mg_conns m) db = None" "r = Inl e"
      "open_db sh (mg_data_dir m) u0 io (mg_kv_durability m) db (mg_disk m) = (Inl e, d)"
      "m' = m\<lparr>mg_conns := kept_conns m, mg_disk := d, mg_readonly := insert db (mg_readonly m)\<rparr>"
  | (unknown) e d where "map_of (mg_conns m) db = None" "r = Inl e"
      "open_db sh (mg_data_dir m) u0 io (mg_kv_durability m) db (mg_disk m) = (Inr (), d)"
      "m' = m\<lparr>mg_conns := kept_conns m, mg_disk := d\<rparr>"
  | (opened) d where "map_of (mg_conns m) db = None" "r = Inr ()"
      "open_db sh (mg_data_dir m) u0 io (mg_kv_durability m) db (mg_disk m) = (Inr (), d)"
      "m' = m\<lparr>mg_interrupts := insert db (mg_interrupts m),
        mg_disk := snd (write_manifest sh (mg_data_dir m) io db d),
        mg_conns := AList.update db \<lparr>last_used = io_now io\<rparr> (kept_conns m)\<rparr>"
proof (cases "map_of (mg_conns m) db")
  case (Some e)
  then show ?thesis
    using assms by (intro hit [of e]) (simp_all add: ensure_conn_def)
next
  case None
  obtain q d where q: "open_db sh (mg_data_dir m) u0 io (mg_kv_durability m) db (mg_disk m) = (q, d)"
    by fastforce
  show ?thesis
  proof (cases q)
    case (Inl e)
    then show ?thesis
      using assms None q by (intro unopened [of e d]) (simp_all add: ensure_conn_def kept_conns_def [symmetric] Let_def)
  next
    case (Inr u)
    show ?thesis
    proof (cases "check_format_version sh d db")
      case (Inl e)
      then show ?thesis
        using assms None q Inr by (intro unknown [of e d]) (simp_all add: ensure_conn_def kept_conns_def [symmetric] Let_def)
    next
      case (Inr w)
      then show ?thesis
        using assms None q \<open>q = Inr u\<close> by (intro opened [of d]) (simp_all add: ensure_conn_def kept_conns_def [symmetric] Let_def)
    qed
  qed
qed

lemma kept_conns_inv:
  assumes "pool_inv m"
  shows "length (kept_conns m) < mg_max_active m" "distinct (map fst (kept_conns m))"
proof -
  have "length (evict_lru (mg_conns m)) < length (mg_conns m)" if "mg_max_active m \<le> length (mg_conns m)"
    using that assms by (intro evict_lru_length) (auto simp: pool_inv_def)
  then show "length (kept_conns m) < mg_max_active m" "distinct (map fst (kept_conns m))"
    using assms distinct_evict [of "mg_conns m"] by (auto simp: pool_inv_def kept_conns_def)
qed

lemma ensure_conn_inv:
  assumes "pool_inv m" "ensure_conn sh u0 io db m = (r, m')"
  shows "pool_inv m'" "r = Inr () \<Longrightarrow> db \<in> fst ` set (mg_conns m')" "mg_readonly m \<subseteq> mg_readonly m'"
proof -
  note kept = kept_conns_inv [OF assms(1)]
  have "length (AList.update db e (kept_conns m)) \<le> mg_max_active m" for e
    using length_update_le [of db e "kept_conns m"] kept(1) by linarith
  then show "pool_inv m'" "r = Inr () \<Longrightarrow> db \<in> fst ` set (mg_conns m')" "mg_readonly m \<subseteq> mg_readonly m'"
    using assms kept
    by (cases rule: ensure_conn_cases [OF assms(2)];
        auto simp: pool_inv_def distinct_keys_update dom_update rev_image_eqI dest: map_of_SomeD)+
qed

lemma length_update_present: "k \<in> fst ` set xs \<Longrightarrow> length (AList.update k v xs) = length xs"
  by (induction xs) auto

lemma with_conn_cases [consumes 1, case_names failed worked]:
  assumes "with_conn sh u0 io db f (m, x) = (r, m', x')"
  obtains (failed) e where "ensure_conn sh u0 io db (acquire_lock io db m) = (Inl e, m')" "r = Inl e" "x' = x"
  | (worked) m1 c where "ensure_conn sh u0 io db (acquire_lock io db m) = (Inr (), m1)"
      "f (conn_of u0 io db m1, x) = (r, c, x')"
      "m' = store_conn db c m1\<lparr>mg_conns := AList.update db \<lparr>last_used = io_after io\<rparr> (mg_conns m1)\<rparr>"
proof -
  obtain q m1 where q: "ensure_conn sh u0 io db (acquire_lock io db m) = (q, m1)"
    by fastforce
  obtain r1 c x1 where f: "f (conn_of u0 io db m1, x) = (r1, c, x1)"
    using prod_cases3 by blast
  show ?thesis
  proof (cases q)
    case (Inl e)
    then show ?thesis
      using assms q by (intro failed [of e]) (simp_all add: with_conn_def)
  next
    case (Inr u)
    then show ?thesis
      using assms q f by (intro worked [of m1 c]) (simp_all add: with_conn_def Let_def)
  qed
qed

lemma with_conn_inv:
  assumes "pool_inv m" "with_conn sh u0 io db f (m, x) = (r, m', x')"
  shows "pool_inv m'" "mg_readonly m \<subseteq> mg_readonly m'" "mg_max_active m' = mg_max_active m"
proof -
  have "pool_inv (acquire_lock io db m)"
    using assms(1) by (simp add: pool_inv_def)
  note en = ensure_conn_inv [OF this]
  have max: "mg_max_active m1 = mg_max_active m" if "ensure_conn sh u0 io db (acquire_lock io db m) = (q, m1)" for q m1
    using that by (cases rule: ensure_conn_cases) simp_all
  have "pool_inv m' \<and> mg_readonly m \<subseteq> mg_readonly m' \<and> mg_max_active m' = mg_max_active m"
    using assms(2)
  proof (cases rule: with_conn_cases)
    case (failed e)
    then show ?thesis
      using en [OF failed(1)] max [OF failed(1)] by simp
  next
    case (worked m1 c)
    then show ?thesis
      using en [OF worked(1)] max [OF worked(1)] length_update_present [of db "mg_conns m1"]
      by (simp add: pool_inv_def distinct_keys_update)
  qed
  then show "pool_inv m'" "mg_readonly m \<subseteq> mg_readonly m'" "mg_max_active m' = mg_max_active m"
    by simp_all
qed

lemma fold_delete_pool:
  "length (fold AList.delete ks xs) \<le> length xs" "distinct (map fst xs) \<Longrightarrow> distinct (map fst (fold AList.delete ks xs))"
proof (induction ks arbitrary: xs)
  case (Cons k ks)
  case 1
  then show ?case
    using Cons(1) [of "AList.delete k xs"] length_delete_le [of k xs] by simp
  case 2
  then show ?case
    using Cons(2) [of "AList.delete k xs"] by (simp add: distinct_keys_delete)
qed simp_all

lemma mgr_step_inv:
  assumes "mgr_step sh u0 m m'" "pool_inv m"
  shows "pool_inv m' \<and> mg_readonly m \<subseteq> mg_readonly m' \<and> mg_max_active m' = mg_max_active m"
  using assms(1)
proof cases
  case (work io db f r)
  then show ?thesis
    using with_conn_inv [OF assms(2) work] by simp
next
  case (tick now env)
  then show ?thesis
    using assms(2) by (simp add: maintenance_tick_def Let_def pool_inv_def fold_delete_pool(1) [THEN order_trans] fold_delete_pool(2))
qed (use assms(2) length_delete_le [THEN order_trans] in \<open>auto simp: mgr_delete_database_def close_database_def close_all_def
    mark_readonly_def reset_lock_stats_def pool_inv_def Let_def distinct_keys_delete split: sum.splits prod.splits\<close>)

text \<open>
  C22: The pool of connections is bounded. In every state the manager of a data node can reach by
  requests, deletions, closings and maintenance, whatever fails in between, the number of open
  connections is at most the configured maximum (or one, if that is configured as zero), and a cell
  has at most one connection.
\<close>

theorem pool_bounded:
  assumes "mgr_reachable sh u0 (mgr_new cfg d) m"
  shows "active_count m \<le> max (dc_max_active_dbs cfg) 1 \<and> distinct (active_databases m)"
proof -
  have "pool_inv m \<and> mg_max_active m = max (dc_max_active_dbs cfg) 1"
    using assms
  proof (rule mgr_reachable_keeps)
    show "pool_inv (mgr_new cfg d) \<and> mg_max_active (mgr_new cfg d) = max (dc_max_active_dbs cfg) 1"
      by (simp add: pool_inv_def mgr_new_def)
  qed (use mgr_step_inv in force)
  then show ?thesis
    by (auto simp: pool_inv_def active_count_def active_databases_def)
qed

definition no_quota :: quota_config where
  "no_quota = \<lparr>max_request_body_bytes = 0, max_kv_key_bytes = 0, max_kv_value_bytes = 0, max_sql_rows = 0,
    max_sql_result_bytes = 0, max_cells_per_tenant = 0, max_per_tenant_concurrency = 0,
    max_per_cell_concurrency = 0, storage_soft_bytes = 0, storage_hard_bytes = 0, max_ttl_seconds = 0\<rparr>"

definition small_config :: data_node_config where
  "small_config = \<lparr>dc_data_dir = ''/data'', dc_max_active_dbs = 2, dc_db_idle_timeout = 60, dc_ttl_gc_interval = 5,
    dc_kv_cache_capacity = 10, dc_kv_durability = Normal, dc_quota = no_quota, dc_sql_timeout = None\<rparr>"

text \<open>Requests on which nothing fails, made at a time and doing no work.\<close>

definition calm :: "nat \<Rightarrow> io_env" where
  "calm t = \<lparr>io_fail = (\<lambda>_. None), io_quick_check = ''ok'', io_faults = [], io_now = t, io_after = t, io_waited = 0\<rparr>"

definition touch :: "io_env \<Rightarrow> database_id \<Rightarrow> unit mgr \<Rightarrow> unit mgr" where
  "touch io db m = fst (snd (with_conn uuid_dec () io db (\<lambda>s. (Inr (), s)) (m, ())))"

lemma touch_step: "mgr_step uuid_dec () m (touch io db m)"
proof -
  obtain r m' u where run: "with_conn uuid_dec () io db (\<lambda>s. (Inr (), s)) (m, ()) = (r, m', u)"
    using prod_cases3 by blast
  then show ?thesis
    using work [of uuid_dec "()" io db "\<lambda>s. (Inr (), s)" m r m'] by (simp add: touch_def)
qed

definition small_pool :: "unit mgr" where
  "small_pool = touch (calm 4) (DatabaseId 3) (touch (calm 3) (DatabaseId 1)
    (touch (calm 2) (DatabaseId 2) (touch (calm 1) (DatabaseId 1) (mgr_new small_config []))))"

lemma small_pool_reachable: "mgr_reachable uuid_dec () (mgr_new small_config []) small_pool"
  unfolding small_pool_def by (intro mgr_reachable.step [OF _ touch_step] mgr_reachable.start)

theorem pool_bounded_witness:
  "active_count small_pool \<le> 2 \<and> active_databases small_pool = [DatabaseId 1, DatabaseId 3]"
proof -
  have "active_databases small_pool = [DatabaseId 1, DatabaseId 3]"
    by code_simp
  then show ?thesis
    using pool_bounded [OF small_pool_reachable] by (simp add: small_config_def)
qed

section \<open>Eviction\<close>

lemma map_of_evict:
  assumes "lru_entry xs = Some (v, e)"
  shows "map_of (evict_lru xs) k = (if k = v then None else map_of xs k)"
  using assms by (simp add: evict_lru_def map_of_delete)

lemma with_conn_conns:
  assumes "with_conn sh u0 io db f (m, x) = (r, m', x')" "k \<noteq> db"
  shows "map_of (mg_conns m') k =
    (if map_of (mg_conns m) db \<noteq> None then map_of (mg_conns m) k else map_of (kept_conns m) k)"
proof -
  have kept: "kept_conns (acquire_lock io db m) = kept_conns m"
    by (simp add: kept_conns_def)
  have en: "map_of (mg_conns m1) k = (if map_of (mg_conns m) db \<noteq> None then map_of (mg_conns m) k else map_of (kept_conns m) k)"
    if "ensure_conn sh u0 io db (acquire_lock io db m) = (q, m1)" for q m1
    using that by (cases rule: ensure_conn_cases) (simp_all add: kept map_of_update assms(2))
  from assms(1) show ?thesis
  proof (cases rule: with_conn_cases)
    case (failed e)
    then show ?thesis
      using en by blast
  next
    case (worked m1 c)
    then show ?thesis
      using en [OF worked(1)] assms(2) by (simp add: map_of_update)
  qed
qed

text \<open>
  A request closes the least recently used connection, and only when it must. A request for a
  cell that has a connection, or that finds room in the pool, leaves every other connection alone.
  If the pool is full, one other connection is closed, which no other open connection precedes in
  its time of last use, even if opening the new one then fails.
\<close>

theorem pool_evicts_lru:
  assumes "distinct (map fst (mg_conns m))" "1 \<le> mg_max_active m"
    "with_conn sh u0 io db f (m, x) = (r, m', x')"
  shows "if map_of (mg_conns m) db \<noteq> None \<or> active_count m < mg_max_active m
    then \<forall>k. k \<noteq> db \<longrightarrow> map_of (mg_conns m') k = map_of (mg_conns m) k
    else \<exists>victim e. map_of (mg_conns m) victim = Some e
      \<and> (\<forall>k e'. map_of (mg_conns m) k = Some e' \<longrightarrow> last_used e \<le> last_used e')
      \<and> (\<forall>k. k \<noteq> db \<longrightarrow> map_of (mg_conns m') k = (if k = victim then None else map_of (mg_conns m) k))"
proof (cases "map_of (mg_conns m) db \<noteq> None \<or> active_count m < mg_max_active m")
  case True
  then show ?thesis
    using with_conn_conns [OF assms(3)] by (auto simp: kept_conns_def active_count_def)
next
  case False
  then have full: "map_of (mg_conns m) db = None" "mg_max_active m \<le> length (mg_conns m)"
    by (simp_all add: active_count_def)
  then have "mg_conns m \<noteq> []"
    using assms(2) by auto
  then obtain v e where v: "lru_entry (mg_conns m) = Some (v, e)"
    using lru_entry_Some by blast
  have "map_of (mg_conns m) v = Some e"
    using lru_entry_min [OF v] assms(1) by (simp add: map_of_is_SomeI)
  moreover have "last_used e \<le> last_used e'" if "map_of (mg_conns m) k = Some e'" for k e'
    using lru_entry_min [OF v] map_of_SomeD [OF that] by force
  ultimately show ?thesis
    unfolding if_not_P [OF False]
    using with_conn_conns [OF assms(3)] full map_of_evict [OF v]
    by (intro exI [of _ v] exI [of _ e]) (auto simp: kept_conns_def)
qed

theorem pool_evicts_lru_witness:
  "\<exists>r m'. with_conn uuid_dec () (calm 5) (DatabaseId 2) (\<lambda>s. (Inr (), s)) (small_pool, ()) = (r, m', ())
    \<and> (\<exists>victim. victim \<noteq> DatabaseId 2 \<and> map_of (mg_conns small_pool) victim \<noteq> None \<and> map_of (mg_conns m') victim = None)"
proof -
  obtain r m' u where "with_conn uuid_dec () (calm 5) (DatabaseId 2) (\<lambda>s. (Inr (), s)) (small_pool, ()) = (r, m', u)"
    using prod_cases3 by blast
  then have run: "with_conn uuid_dec () (calm 5) (DatabaseId 2) (\<lambda>s. (Inr (), s)) (small_pool, ()) = (r, m', ())"
    by simp
  have pool: "map fst (mg_conns small_pool) = [DatabaseId 1, DatabaseId 3]" "mg_max_active small_pool = 2"
    by code_simp+
  have none: "map_of (mg_conns small_pool) (DatabaseId 2) = None"
    unfolding map_of_eq_None_iff using arg_cong [OF pool(1), of set] by simp
  have "length (mg_conns small_pool) = 2"
    using arg_cong [OF pool(1), of length] by simp
  then obtain v e where "map_of (mg_conns small_pool) v = Some e"
    "\<forall>k. k \<noteq> DatabaseId 2 \<longrightarrow> map_of (mg_conns m') k = (if k = v then None else map_of (mg_conns small_pool) k)"
    using pool_evicts_lru [OF _ _ run] none pool by (auto simp: active_count_def)
  moreover from this have "v \<noteq> DatabaseId 2"
    using none by auto
  ultimately show ?thesis
    using run by (metis option.distinct(1))
qed

section \<open>Separation of the cells, and read-only protection\<close>

lemma files_update [simp]: "files_of (AList.update k f d) db = (if db = k then f else files_of d db)"
  by (simp add: files_of_def map_of_update)

lemma open_db_other: "open_db sh dir u0 io dur db d = (r, d') \<Longrightarrow> k \<noteq> db \<Longrightarrow> files_of d' k = files_of d k"
  by (auto simp: open_db_def create_main_def split: option.splits)

lemma write_manifest_other: "k \<noteq> db \<Longrightarrow> files_of (snd (write_manifest sh dir io db d)) k = files_of d k"
  by (simp add: write_manifest_def split: option.splits)

lemma ensure_conn_other:
  assumes "ensure_conn sh u0 io db m = (r, m')" "k \<noteq> db"
  shows "files_of (mg_disk m') k = files_of (mg_disk m) k"
  using assms(1)
proof (cases rule: ensure_conn_cases)
  case (unopened e d)
  then show ?thesis
    using open_db_other [OF unopened(3) assms(2)] by simp
next
  case (unknown e d)
  then show ?thesis
    using open_db_other [OF unknown(3) assms(2)] by simp
next
  case (opened d)
  then show ?thesis
    using open_db_other [OF opened(3) assms(2)] by (simp add: write_manifest_other assms(2))
qed simp

lemma with_conn_other:
  assumes "with_conn sh u0 io db f (m, x) = (r, m', x')" "k \<noteq> db"
  shows "files_of (mg_disk m') k = files_of (mg_disk m) k"
  using assms(1)
proof (cases rule: with_conn_cases)
  case (failed e)
  then show ?thesis
    using ensure_conn_other [OF failed(1) assms(2)] by simp
next
  case (worked m1 c)
  then show ?thesis
    using ensure_conn_other [OF worked(1) assms(2)] assms(2) by (simp add: store_conn_def)
qed

lemma readonly_kept:
  assumes "mgr_reachable sh u0 m0 m" "pool_inv m0" "db \<in> mg_readonly m0"
  shows "db \<in> mg_readonly m"
proof -
  have "pool_inv m \<and> db \<in> mg_readonly m"
    using assms(1)
  proof (rule mgr_reachable_keeps)
    fix m m'
    assume "pool_inv m \<and> db \<in> mg_readonly m" "mgr_step sh u0 m m'"
    then show "pool_inv m' \<and> db \<in> mg_readonly m'"
      using mgr_step_inv [of sh u0 m m'] by auto
  qed (use assms(2,3) in simp)
  then show ?thesis ..
qed

end
