(* ===== verification/Sql_Guard.thy ===== *)
theory Sql_Guard
  imports Common_Types
begin

text \<open>
  The textual checks on user SQL (\<open>data-node/src/sql.rs\<close>): the search for a second statement and
  for a forbidden first one.  A position \<open>i\<close> in the bytes of the statement is represented by the
  suffix that starts there; a position past the end is the empty suffix.
\<close>

section \<open>The checks\<close>

definition FORBIDDEN_PREFIXES :: "str list" where
  "FORBIDDEN_PREFIXES = [''vacuum'']"

definition is_quote :: "char \<Rightarrow> bool" where
  "is_quote c \<longleftrightarrow> c = CHR 0x27 \<or> c = CHR 0x22 \<or> c = CHR 0x60"

definition is_blank :: "char \<Rightarrow> bool" where
  "is_blank c \<longleftrightarrow> c = CHR '' '' \<or> c = CHR 0x09 \<or> c = CHR 0x0D \<or> c = CHR 0x0A"

text \<open>From the byte after an opening quote to its closing quote, or to the end.\<close>

fun skip_quoted :: "char \<Rightarrow> str \<Rightarrow> str" where
  "skip_quoted q [] = []"
| "skip_quoted q [a] = (if a = q then [a] else [])"
| "skip_quoted q (a # b # s) = (if a = q then (if b = q then skip_quoted q s else a # b # s) else skip_quoted q (b # s))"

definition skip_line :: "str \<Rightarrow> str" where
  "skip_line s = dropWhile (\<lambda>c. c \<noteq> CHR 0x0A) s"

text \<open>From the byte after a comment opening to the byte after its end, or to the end.\<close>

fun skip_block :: "str \<Rightarrow> str" where
  "skip_block (a # b # s) = (if a = CHR ''*'' \<and> b = CHR ''/'' then s else skip_block (b # s))"
| "skip_block s = []"

lemma skip_shorter:
  "length (skip_quoted q s) \<le> length s" "length (skip_line s) \<le> length s" "length (skip_block s) \<le> length s"
proof -
  show "length (skip_quoted q s) \<le> length s"
    by (induction q s rule: skip_quoted.induct) auto
  show "length (skip_line s) \<le> length s"
    by (simp add: skip_line_def length_dropWhile_le)
  show "length (skip_block s) \<le> length s"
    by (induction s rule: skip_block.induct) auto
qed

definition opens :: "str \<Rightarrow> str \<Rightarrow> bool" where
  "opens p s \<longleftrightarrow> take 2 s = p"

function trailing_has_sql :: "str \<Rightarrow> bool" where
  "trailing_has_sql s =
    (let t = dropWhile is_blank s in
     if t = [] then False
     else if opens ''--'' t then trailing_has_sql (skip_line t)
     else if opens ''/*'' t then trailing_has_sql (skip_block (drop 2 t))
     else True)"
  by pat_completeness auto

lemma opens_cases:
  assumes "opens [a, b] t"
  obtains u where "t = a # b # u"
  using assms by (cases t rule: remdups_adj.cases) (auto simp: opens_def)

lemma skip_line_opens: "opens ''--'' t \<Longrightarrow> length (skip_line t) < length t"
proof (erule opens_cases)
  fix u
  assume t: "t = CHR ''-'' # CHR ''-'' # u"
  have "skip_line t = skip_line u"
    unfolding t skip_line_def by simp
  then show ?thesis
    using skip_shorter(2) [of u] t by simp
qed

lemma skip_block_opens: "opens ''/*'' t \<Longrightarrow> length (skip_block (drop 2 t)) < length t"
  using skip_shorter(3) [of "drop 2 t"] by (cases t) (auto simp: opens_def)

termination trailing_has_sql
proof (relation "measure length", simp, goal_cases)
  case (1 s t)
  then show ?case
    using skip_line_opens [of t] length_dropWhile_le [of is_blank s] by simp
next
  case (2 s t)
  then show ?case
    using skip_block_opens [of t] length_dropWhile_le [of is_blank s] by simp
qed

declare trailing_has_sql.simps [simp del]

function has_multiple_statements :: "str \<Rightarrow> bool" where
  "has_multiple_statements [] = False"
| "has_multiple_statements (c # s) =
    (if is_quote c then has_multiple_statements (tl (skip_quoted c s))
     else if opens ''--'' (c # s) then has_multiple_statements (tl (skip_line (c # s)))
     else if opens ''/*'' (c # s) then has_multiple_statements (tl (skip_block (tl s)))
     else if c = CHR '';'' then trailing_has_sql s
     else has_multiple_statements s)"
  by pat_completeness auto
termination
proof (relation "measure length", simp_all, goal_cases)
  case (1 c s)
  then show ?case
    using skip_shorter(1) [of c s] by simp
next
  case (2 c s)
  then show ?case
    using skip_line_opens [of "c # s"] by simp
next
  case (3 c s)
  then show ?case
    using skip_block_opens [of "c # s"] by (simp add: drop_Suc)
qed

declare has_multiple_statements.simps(2) [simp del]

function skip_leading_trivia :: "str \<Rightarrow> str" where
  "skip_leading_trivia [] = []"
| "skip_leading_trivia (c # s) =
    (if is_blank c then skip_leading_trivia s
     else if opens ''--'' (c # s) then skip_leading_trivia (skip_line (c # s))
     else if opens ''/*'' (c # s) then skip_leading_trivia (skip_block (tl s))
     else c # s)"
  by pat_completeness auto
termination
proof (relation "measure length", simp_all, goal_cases)
  case (1 c s)
  then show ?case
    using skip_line_opens [of "c # s"] by simp
next
  case (2 c s)
  then show ?case
    using skip_block_opens [of "c # s"] by (simp add: drop_Suc)
qed

declare skip_leading_trivia.simps(2) [simp del]

text \<open>\<open>str::contains\<close>.\<close>

fun contains :: "str \<Rightarrow> str \<Rightarrow> bool" where
  "contains [] p = (p = [])"
| "contains (c # s) p = (starts_with (c # s) p \<or> contains s p)"

definition check_statement :: "str \<Rightarrow> unit result" where
  "check_statement sql =
    (let lower = to_ascii_lowercase (trim_start sql) in
     if contains lower ''__sys'' then Inl (Forbidden ''access to __sys_* internal tables is not allowed'')
     else let leading = to_ascii_lowercase (trim_start (skip_leading_trivia sql)) in
       case find (starts_with leading) FORBIDDEN_PREFIXES of
         Some p \<Rightarrow> Inl (InvalidRequest (''statement starting with '' @ [CHR 0x27] @ p @ [CHR 0x27] @
           '' is not allowed; use the /transaction endpoint for transactions''))
       | None \<Rightarrow>
           if has_multiple_statements sql then
             Inl (InvalidRequest ''multiple statements in one request are not allowed'')
           else Inr ())"

section \<open>A reference lexer\<close>

text \<open>
  The lexical structure of SQL read byte by byte: code, a quoted literal or name, a line comment,
  a block comment.  \<open>second\<close> tells whether anything but blanks and comments follows the first
  semicolon in the code.
\<close>

datatype lex_mode = Code | Quoted char | Line | Block

fun second :: "lex_mode \<Rightarrow> bool \<Rightarrow> str \<Rightarrow> bool" where
  "second m seen [] = False"
| "second (Quoted q) seen (c # s) = (if c = q then second Code seen s else second (Quoted q) seen s)"
| "second Line seen (c # s) = (if c = CHR 0x0A then second Code seen s else second Line seen s)"
| "second Block seen [c] = False"
| "second Block seen (c # d # s) =
    (if c = CHR ''*'' \<and> d = CHR ''/'' then second Code seen s else second Block seen (d # s))"
| "second Code seen [c] = (\<not> is_blank c \<and> seen)"
| "second Code seen (c # d # s) =
    (if c = CHR ''-'' \<and> d = CHR ''-'' then second Line seen s
     else if c = CHR ''/'' \<and> d = CHR ''*'' then second Block seen s
     else if is_blank c then second Code seen (d # s)
     else if seen then True
     else if is_quote c then second (Quoted c) seen (d # s)
     else if c = CHR '';'' then second Code True (d # s)
     else second Code seen (d # s))"

lemma second_line: "second Line seen s = second Code seen (tl (skip_line s))"
  by (induction s) (auto simp: skip_line_def)

lemma second_block: "second Block seen s = second Code seen (skip_block s)"
  by (induction s rule: skip_block.induct) auto

lemma quote_facts: "is_quote q \<Longrightarrow> q \<noteq> CHR ''-'' \<and> q \<noteq> CHR ''/'' \<and> q \<noteq> CHR '';'' \<and> \<not> is_blank q"
  by (auto simp: is_quote_def is_blank_def)

lemma blank_facts: "is_blank c \<Longrightarrow> c \<noteq> CHR ''-'' \<and> c \<noteq> CHR ''/'' \<and> c \<noteq> CHR '';'' \<and> \<not> is_quote c"
  by (auto simp: is_quote_def is_blank_def)

lemma second_code:
  "second Code seen (c # s) =
    (if opens ''--'' (c # s) then second Line seen (tl s)
     else if opens ''/*'' (c # s) then second Block seen (tl s)
     else if is_blank c then second Code seen s
     else if seen then True
     else if is_quote c then second (Quoted c) seen s
     else if c = CHR '';'' then second Code True s
     else second Code seen s)"
  by (cases s) (simp_all add: opens_def)

lemma opens_Cons: "opens [a, b] (c # s) \<longleftrightarrow> c = a \<and> s \<noteq> [] \<and> hd s = b"
  by (cases s) (auto simp: opens_def)

lemma second_quoted:
  assumes "is_quote q"
  shows "second (Quoted q) False s = second Code False (tl (skip_quoted q s))"
  using assms
proof (induction q s rule: skip_quoted.induct)
  case (3 q a b s)
  show ?case
  proof (cases "a = q")
    case True
    have "second Code False (q # s) = second (Quoted q) False s"
      unfolding second_code using quote_facts [OF 3(3)] 3(3) by (simp add: opens_Cons)
    then show ?thesis
      using True 3 by simp
  next
    case False
    then show ?thesis
      using 3 by simp
  qed
qed auto

lemma second_blank: "second Code seen (dropWhile is_blank s) = second Code seen s"
proof (induction s)
  case (Cons c s)
  show ?case
  proof (cases "is_blank c")
    case True
    then have "second Code seen (c # s) = second Code seen s"
      unfolding second_code using blank_facts [of c] by (simp add: opens_Cons)
    with True Cons show ?thesis
      by simp
  qed simp
qed simp

lemma skip_line_Cons: "opens ''--'' (c # s) \<Longrightarrow> skip_line (c # s) = skip_line (tl s)"
  by (cases s) (auto simp: opens_Cons skip_line_def)

text \<open>After a semicolon the code agrees with the reference.\<close>

lemma second_newline: "second Code seen (skip_line s) = second Code seen (tl (skip_line s))"
proof (induction s)
  case (Cons c s)
  show ?case
  proof (cases "c = CHR 0x0A")
    case True
    then have "skip_line (c # s) = c # s" "is_blank c"
      by (simp_all add: skip_line_def is_blank_def)
    then show ?thesis
      using second_blank [of seen "c # s"] second_blank [of seen s] by simp
  next
    case False
    then show ?thesis
      using Cons by (simp add: skip_line_def)
  qed
qed (simp add: skip_line_def)

lemma trailing_second: "trailing_has_sql s = second Code True s"
proof (induction s rule: trailing_has_sql.induct)
  case (1 s)
  define t where "t = dropWhile is_blank s"
  have blank: "second Code True s = second Code True t"
    unfolding t_def by (rule second_blank [symmetric])
  show ?case
  proof (cases t)
    case Nil
    then have "\<not> trailing_has_sql s"
      by (simp add: trailing_has_sql.simps [of s] t_def [symmetric])
    then show ?thesis
      using Nil blank by simp
  next
    case (Cons c u)
    have c: "\<not> is_blank c"
      using Cons hd_dropWhile [of is_blank s] unfolding t_def by (metis list.distinct(1) list.sel(1))
    have t: "trailing_has_sql s = (if opens ''--'' t then trailing_has_sql (skip_line t)
        else if opens ''/*'' t then trailing_has_sql (skip_block (drop 2 t)) else True)"
      using Cons by (simp add: trailing_has_sql.simps [of s] t_def [symmetric] Let_def)
    consider (line) "opens ''--'' t" | (block) "\<not> opens ''--'' t" "opens ''/*'' t" | (sql) "\<not> opens ''--'' t" "\<not> opens ''/*'' t"
      by blast
    then have "trailing_has_sql s = second Code True t"
    proof cases
      case line
      have "trailing_has_sql s = second Code True (skip_line t)"
        using t line 1(1) [OF t_def] Cons by simp
      also have "\<dots> = second Line True (tl u)"
        using line unfolding Cons second_newline second_line by (simp add: skip_line_Cons)
      finally show ?thesis
        using line unfolding Cons second_code by simp
    next
      case block
      then show ?thesis
        using t 1(2) [OF t_def] unfolding Cons second_code by (simp add: second_block drop_Suc)
    next
      case sql
      then show ?thesis
        using t c unfolding Cons second_code by simp
    qed
    then show ?thesis
      using blank by simp
  qed
qed

text \<open>No block comment opens before the first semicolon of the code.\<close>

definition no_block :: "str \<Rightarrow> bool" where
  "no_block s \<longleftrightarrow> \<not> contains s ''/*''"

lemma no_block_suffix: "no_block t \<Longrightarrow> suffix s t \<Longrightarrow> no_block s"
  unfolding suffix_def
proof (elim exE, hypsubst)
  fix p
  show "no_block (p @ s) \<Longrightarrow> no_block s"
    by (induction p) (auto simp: no_block_def)
qed

lemma suffixes: "suffix (skip_quoted q s) s" "suffix (skip_line s) s" "suffix (tl s) s"
proof -
  show "suffix (skip_quoted q s) s"
    by (induction q s rule: skip_quoted.induct) (auto intro: suffix_ConsI)
  show "suffix (skip_line s) s"
    unfolding skip_line_def by (rule suffix_dropWhile)
  show "suffix (tl s) s"
    by (rule suffix_tl)
qed

lemmas no_block_skips = no_block_suffix [OF _ suffixes(1)] no_block_suffix [OF _ suffixes(2)] no_block_suffix [OF _ suffixes(3)]

text \<open>
  C23: The search for a second statement is right for SQL without block comments: it finds one
  exactly if, in the lexical structure of the text (quoted literals and names, line comments),
  anything but blanks and comments follows the first semicolon outside them.
\<close>

theorem multiple_statements_exact:
  assumes "no_block s"
  shows "has_multiple_statements s \<longleftrightarrow> second Code False s"
  using assms
proof (induction s rule: has_multiple_statements.induct)
  case (2 c s)
  have nb: "\<not> opens ''/*'' (c # s)"
    using 2(5) by (auto simp: no_block_def starts_with_def opens_def numeral_2_eq_2)
  have tail: "no_block s"
    using no_block_skips(3) [OF 2(5)] by simp
  consider (quote) "is_quote c" | (line) "\<not> is_quote c" "opens ''--'' (c # s)" | (semi) "\<not> is_quote c" "\<not> opens ''--'' (c # s)" "c = CHR '';''"
    | (other) "\<not> is_quote c" "\<not> opens ''--'' (c # s)" "c \<noteq> CHR '';''"
    by blast
  then show ?case
  proof cases
    case quote
    have "has_multiple_statements (c # s) = second Code False (tl (skip_quoted c s))"
      using quote 2(1) no_block_skips(1,3) tail by (simp add: has_multiple_statements.simps(2))
    then show ?thesis
      using quote quote_facts [OF quote] nb unfolding second_code by (simp add: opens_Cons second_quoted)
  next
    case line
    have "has_multiple_statements (c # s) = second Code False (tl (skip_line (c # s)))"
      using line 2(2) no_block_skips(2,3) 2(5) by (simp add: has_multiple_statements.simps(2))
    then show ?thesis
      using line unfolding second_code by (simp add: second_line skip_line_Cons)
  next
    case semi
    then show ?thesis
      using nb unfolding second_code
      by (simp add: has_multiple_statements.simps(2) trailing_second is_blank_def)
  next
    case other
    have "has_multiple_statements (c # s) = second Code False s"
      using other 2(4) nb tail by (simp add: has_multiple_statements.simps(2))
    then show ?thesis
      using other nb unfolding second_code by simp
  qed
qed simp

theorem multiple_statements_exact_witness:
  "has_multiple_statements ''select 1 -- a;b'' = False \<and> has_multiple_statements ''select 1; drop table t'' = True"
proof -
  have "no_block ''select 1 -- a;b''" "no_block ''select 1; drop table t''"
    by code_simp+
  moreover have "second Code False ''select 1 -- a;b'' = False" "second Code False ''select 1; drop table t'' = True"
    by code_simp+
  ultimately show ?thesis
    using multiple_statements_exact by simp
qed

section \<open>Comments hide a semicolon\<close>

text \<open>
  A semicolon right after a block comment is not seen. After a block comment the search steps
  one byte too far, so the text after the semicolon is judged as if it stood alone: a second
  statement after a comment passes the check, and so does a VACUUM behind an empty statement.
\<close>

theorem comment_hides_semicolon:
  "has_multiple_statements (''/**/;'' @ s) = has_multiple_statements s \<and>
   second Code False ''select 1/**/;drop table t'' \<and> check_statement ''select 1/**/;drop table t'' = Inr () \<and>
   check_statement ''/**/;vacuum into f'' = Inr ()"
proof -
  have "has_multiple_statements (''/**/;'' @ s) = has_multiple_statements s"
    by (simp add: has_multiple_statements.simps(2) is_quote_def opens_def)
  moreover have "second Code False ''select 1/**/;drop table t''" "check_statement ''select 1/**/;drop table t'' = Inr ()"
    "check_statement ''/**/;vacuum into f'' = Inr ()"
    by code_simp+
  ultimately show ?thesis
    by simp
qed

end
