(* ===== verification/Sql_Exec.thy ===== *)
theory Sql_Exec
  imports Sql_Guard State_Result Runtime_Config
begin

text \<open>
  Execution of user SQL (\<open>data-node/src/sql.rs\<close>) under the authorizer (\<open>sandbox.rs\<close>).  SQLite is a
  parameter, the record \<open>engine\<close>: it compiles a statement under an authorizer, executes it, steps
  through the rows of a query, and begins and commits transactions, on the user's tables of an
  arbitrary type.  \<open>serde_json\<close> is the parameter \<open>serde\<close>; its numbers and the floating-point numbers
  are of arbitrary types.  The state of the operations is the user's tables together with the
  thread-local flag that marks user SQL.
\<close>

section \<open>The authorizer\<close>

datatype auth_action =
    Attach | Detach | Transaction | Savepoint
  | Pragma str "str option"
  | Function str
  | Read str | Insert str | Update str | Delete str
  | OtherAction str

datatype authorization = Allow | Deny

definition pragma_allowed :: "str \<Rightarrow> bool \<Rightarrow> bool" where
  "pragma_allowed name has_value =
    (if name \<in> set [''quick_check'', ''integrity_check'', ''table_info'', ''table_xinfo'', ''table_list'',
        ''database_list'', ''index_list'', ''index_info'', ''index_xinfo'', ''collation_list'',
        ''compile_options'', ''function_list'', ''module_list'', ''pragma_list''] then True
     else if name \<notin> set [''user_version'', ''application_id'', ''page_count'', ''freelist_count'',
        ''schema_version'', ''data_version'', ''journal_mode'', ''foreign_keys'', ''wal_checkpoint''] then False
     else if has_value then name \<in> set [''user_version'', ''application_id'']
     else True)"

definition function_allowed :: "str \<Rightarrow> bool" where
  "function_allowed name \<longleftrightarrow>
    name \<notin> set [''load_extension'', ''readfile'', ''writefile'', ''sqlite_compileoption_used'']"

definition hidden_table :: "str \<Rightarrow> bool" where
  "hidden_table t \<longleftrightarrow> starts_with t ''__sys''"

text \<open>The callback \<open>install\<close> registers; \<open>active\<close> is the flag of the current thread.\<close>

fun authorize :: "bool \<Rightarrow> auth_action \<Rightarrow> authorization" where
  "authorize active action =
    (if \<not> active then Allow
     else case action of
         Attach \<Rightarrow> Deny | Detach \<Rightarrow> Deny | Transaction \<Rightarrow> Deny | Savepoint \<Rightarrow> Deny
       | Pragma name value \<Rightarrow> if pragma_allowed (to_ascii_lowercase name) (value \<noteq> None) then Allow else Deny
       | Function name \<Rightarrow> if function_allowed (to_ascii_lowercase name) then Allow else Deny
       | Read t \<Rightarrow> if hidden_table t then Deny else Allow
       | Insert t \<Rightarrow> if hidden_table t then Deny else Allow
       | Update t \<Rightarrow> if hidden_table t then Deny else Allow
       | Delete t \<Rightarrow> if hidden_table t then Deny else Allow
       | OtherAction _ \<Rightarrow> Allow)"

text \<open>
  \<open>UserSqlGuard\<close>: the flag is set for the life of the guard and put back to what it was when the
  guard is dropped, on every way out of the scope.
\<close>

definition guarded :: "bool \<Rightarrow> ('u \<times> bool, 'a) op \<Rightarrow> ('u \<times> bool, 'a) op" where
  "guarded active f = (\<lambda>(u, prev). let (r, u', _) = f (u, active) in (r, u', prev))"

definition guard_enter :: "('u \<times> bool, 'a) op \<Rightarrow> ('u \<times> bool, 'a) op" where
  "guard_enter = guarded True"

definition guard_leave :: "('u \<times> bool, 'a) op \<Rightarrow> ('u \<times> bool, 'a) op" where
  "guard_leave = guarded False"

section \<open>Values\<close>

datatype 'n json = JNull | JBool bool | JNumber 'n | JString str | JArray "'n json list" | JObject "(str \<times> 'n json) list"

datatype 'f sql_value = SNull | SInteger int | SReal 'f | SText str | SBlob str

record ('n, 'f) serde =
  as_i64 :: "'n \<Rightarrow> int option"
  as_f64 :: "'n \<Rightarrow> 'f option"
  from_i64 :: "int \<Rightarrow> 'n"
  from_f64 :: "'f \<Rightarrow> 'n option"
  json_text :: "'n json \<Rightarrow> str"
  to_vec_len :: "'n json list \<Rightarrow> str + nat"
  utf8_lossy :: "str \<Rightarrow> str"

definition to_sql_value :: "('n, 'f) serde \<Rightarrow> 'n json \<Rightarrow> 'f sql_value result" where
  "to_sql_value J p = (case p of
      JNull \<Rightarrow> Inr SNull
    | JBool b \<Rightarrow> Inr (SInteger (if b then 1 else 0))
    | JNumber n \<Rightarrow> (case as_i64 J n of
          Some i \<Rightarrow> Inr (SInteger i)
        | None \<Rightarrow> (case as_f64 J n of
              Some f \<Rightarrow> Inr (SReal f)
            | None \<Rightarrow> Inl (InvalidRequest (''unsupported number parameter: '' @ json_text J p))))
    | JString s \<Rightarrow> Inr (SText s)
    | other \<Rightarrow> Inl (InvalidRequest (''unsupported parameter type: '' @ json_text J other)))"

fun to_sql_values :: "('n, 'f) serde \<Rightarrow> 'n json list \<Rightarrow> 'f sql_value list result" where
  "to_sql_values J [] = Inr []"
| "to_sql_values J (p # ps) = rbind (to_sql_value J p) (\<lambda>v. rbind (to_sql_values J ps) (\<lambda>vs. Inr (v # vs)))"

fun value_to_json :: "('n, 'f) serde \<Rightarrow> 'f sql_value \<Rightarrow> 'n json" where
  "value_to_json J SNull = JNull"
| "value_to_json J (SInteger i) = JNumber (from_i64 J i)"
| "value_to_json J (SReal f) = (case from_f64 J f of Some n \<Rightarrow> JNumber n | None \<Rightarrow> JNull)"
| "value_to_json J (SText s) = JString s"
| "value_to_json J (SBlob b) = JString (utf8_lossy J b)"

text \<open>A row the engine delivers has for every column a value or the message of a failed read.\<close>

fun row_to_json :: "('n, 'f) serde \<Rightarrow> (str + 'f sql_value) list \<Rightarrow> 'n json list result" where
  "row_to_json J [] = Inr []"
| "row_to_json J (c # cs) = (case c of
      Inl e \<Rightarrow> Inl (Sql e)
    | Inr v \<Rightarrow> rbind (row_to_json J cs) (\<lambda>js. Inr (value_to_json J v # js)))"

section \<open>Statements\<close>

record 'n sql_request =
  rq_sql :: str
  rq_params :: "'n json list"

record 'n sql_result =
  rs_columns :: "str list"
  rs_rows :: "'n json list list"
  rs_rows_affected :: nat
  rs_truncated :: bool

type_synonym authorizer = "auth_action \<Rightarrow> authorization"

record ('u, 'f) engine =
  en_prepare :: "authorizer \<Rightarrow> str \<Rightarrow> 'u \<Rightarrow> str + str list"
  en_execute :: "authorizer \<Rightarrow> str \<Rightarrow> 'f sql_value list \<Rightarrow> 'u \<Rightarrow> (str + nat) \<times> 'u"
  en_query :: "authorizer \<Rightarrow> str \<Rightarrow> 'f sql_value list \<Rightarrow> 'u \<Rightarrow> (str + (str + (str + 'f sql_value) list) list) \<times> 'u"
  en_begin :: "authorizer \<Rightarrow> 'u \<Rightarrow> (str + unit) \<times> 'u"
  en_commit :: "authorizer \<Rightarrow> 'u \<Rightarrow> (str + unit) \<times> 'u"
  en_rollback :: "authorizer \<Rightarrow> 'u \<Rightarrow> 'u"

definition lift_sql :: "(authorizer \<Rightarrow> 'u \<Rightarrow> (str + 'a) \<times> 'u) \<Rightarrow> ('u \<times> bool, 'a) op" where
  "lift_sql call = (\<lambda>(u, active). let (r, u') = call (authorize active) u in (case r of Inl e \<Rightarrow> Inl (Sql e) | Inr x \<Rightarrow> Inr x, u', active))"

definition of_result :: "'a result \<Rightarrow> ('s, 'a) op" where
  "of_result r = (\<lambda>s. (r, s))"

text \<open>The loop over the rows of a query: \<open>out\<close> and \<open>total_bytes\<close> are its accumulators.\<close>

fun collect_rows ::
  "('n, 'f) serde \<Rightarrow> nat \<Rightarrow> nat \<Rightarrow> (str + (str + 'f sql_value) list) list \<Rightarrow> 'n json list list \<Rightarrow> nat
    \<Rightarrow> ('n json list list \<times> bool) result" where
  "collect_rows J max_rows max_bytes [] out total_bytes = Inr (out, False)"
| "collect_rows J max_rows max_bytes (row # rows) out total_bytes = (case row of
      Inl e \<Rightarrow> Inl (Sql e)
    | Inr cells \<Rightarrow>
        if max_rows > 0 \<and> length out \<ge> max_rows then Inr (out, True)
        else rbind (row_to_json J cells) (\<lambda>json_row.
          if max_bytes > 0 then
            (case to_vec_len J json_row of
               Inl e \<Rightarrow> Inl (Sql e)
             | Inr n \<Rightarrow>
                 if total_bytes + n > max_bytes then Inr (out, True)
                 else collect_rows J max_rows max_bytes rows (out @ [json_row]) (total_bytes + n))
          else collect_rows J max_rows max_bytes rows (out @ [json_row]) total_bytes))"

definition execute_sql_quota ::
  "('u, 'f) engine \<Rightarrow> ('n, 'f) serde \<Rightarrow> quota_config option \<Rightarrow> 'n sql_request \<Rightarrow> ('u \<times> bool, 'n sql_result) op" where
  "execute_sql_quota E J quota req = guard_enter (
    try_then (of_result (check_statement (rq_sql req))) (\<lambda>_.
    try_then (of_result (to_sql_values J (rq_params req))) (\<lambda>values.
    try_then (lift_sql (\<lambda>auth u. (en_prepare E auth (rq_sql req) u, u))) (\<lambda>columns.
    let max_rows = (case quota of Some q \<Rightarrow> max_sql_rows q | None \<Rightarrow> 0);
        max_bytes = (case quota of Some q \<Rightarrow> max_sql_result_bytes q | None \<Rightarrow> 0)
    in if columns = [] then
         try_then (lift_sql (\<lambda>auth. en_execute E auth (rq_sql req) values)) (\<lambda>affected.
           done_with \<lparr>rs_columns = [], rs_rows = [], rs_rows_affected = affected, rs_truncated = False\<rparr>)
       else
         try_then (lift_sql (\<lambda>auth. en_query E auth (rq_sql req) values)) (\<lambda>rows.
         try_then (of_result (collect_rows J max_rows max_bytes rows [] 0)) (\<lambda>(rows_out, truncated).
           done_with \<lparr>rs_columns = columns, rs_rows = rows_out, rs_rows_affected = 0, rs_truncated = truncated\<rparr>))))))"

definition execute_sql :: "('u, 'f) engine \<Rightarrow> ('n, 'f) serde \<Rightarrow> 'n sql_request \<Rightarrow> ('u \<times> bool, 'n sql_result) op" where
  "execute_sql E J req = execute_sql_quota E J None req"

text \<open>
  Dropping a transaction that was not committed rolls it back, in the SQL context of the moment: a
  failed statement leaves by the end of the function, a failed commit within the scope of the guard.
\<close>

definition drop_transaction :: "('u, 'f) engine \<Rightarrow> 'u \<times> bool \<Rightarrow> 'u \<times> bool" where
  "drop_transaction E = (\<lambda>(u, active). (en_rollback E (authorize active) u, active))"

definition execute_transaction ::
  "('u, 'f) engine \<Rightarrow> ('n, 'f) serde \<Rightarrow> quota_config option \<Rightarrow> 'n sql_request list
    \<Rightarrow> ('u \<times> bool, 'n sql_result list) op" where
  "execute_transaction E J quota statements =
    (if statements = [] then raise (InvalidRequest ''transaction requires at least one statement'')
     else try_then (guard_leave (lift_sql (en_begin E))) (\<lambda>_ s.
       case for_each (execute_sql_quota E J quota) statements s of
         (Inl e, s') \<Rightarrow> (Inl e, drop_transaction E s')
       | (Inr results, s') \<Rightarrow> guard_leave (\<lambda>s. case lift_sql (en_commit E) s of
             (Inl e, s') \<Rightarrow> (Inl e, drop_transaction E s')
           | (Inr _, s') \<Rightarrow> (Inr results, s')) s'))"

section \<open>Results within the quota\<close>

definition row_bytes :: "('n, 'f) serde \<Rightarrow> 'n json list \<Rightarrow> nat" where
  "row_bytes J r = (case to_vec_len J r of Inr n \<Rightarrow> n | Inl _ \<Rightarrow> 0)"

definition converted :: "('n, 'f) serde \<Rightarrow> (str + (str + 'f sql_value) list) list \<Rightarrow> 'n json list list \<Rightarrow> bool" where
  "converted J rows out \<longleftrightarrow>
    list_all2 (\<lambda>row js. \<exists>cells. row = Inr cells \<and> row_to_json J cells = Inr js) rows out"

lemma collect_rows_cases [consumes 1, case_names full large more]:
  assumes run: "collect_rows J max_rows max_bytes (row # rows) out n = Inr (out', trunc)"
  obtains (full) cells where "row = Inr cells" "max_rows > 0" "length out \<ge> max_rows" "out' = out" "trunc"
  | (large) cells where "row = Inr cells" "max_bytes > 0" "out' = out" "trunc"
  | (more) cells js n' where "row = Inr cells" "row_to_json J cells = Inr js"
      "collect_rows J max_rows max_bytes rows (out @ [js]) n' = Inr (out', trunc)"
      "max_rows > 0 \<Longrightarrow> length out < max_rows" "max_bytes > 0 \<Longrightarrow> n' = n + row_bytes J js \<and> n' \<le> max_bytes"
proof -
  obtain cells where row: "row = Inr cells"
    using run by (cases row) auto
  show ?thesis
  proof (cases "max_rows > 0 \<and> length out \<ge> max_rows")
    case True
    then show ?thesis
      using run row by (intro full) auto
  next
    case False
    then obtain js where js: "row_to_json J cells = Inr js"
      using run row by (cases "row_to_json J cells") auto
    show ?thesis
    proof (cases "max_bytes > 0")
      case True
      then obtain k where k: "to_vec_len J js = Inr k"
        using run row False js by (cases "to_vec_len J js") (auto split: if_splits)
      show ?thesis
      proof (cases "n + k > max_bytes")
        case over: True
        then show ?thesis
          using run row False js k True by (intro large) (auto split: if_splits)
      next
        case under: False
        then show ?thesis
          using run row False js k True by (intro more [OF row js, of "n + k"]) (auto simp: row_bytes_def split: if_splits)
      qed
    next
      case unlimited: False
      then show ?thesis
        using run row False js by (intro more [OF row js, of n]) (auto split: if_splits)
    qed
  qed
qed

lemma collect_rows_bounds:
  assumes "collect_rows J max_rows max_bytes rows out n = Inr (out', trunc)"
    "max_rows > 0 \<Longrightarrow> length out \<le> max_rows" "max_bytes > 0 \<Longrightarrow> n = (\<Sum>r\<leftarrow>out. row_bytes J r) \<and> n \<le> max_bytes"
  shows "max_rows > 0 \<Longrightarrow> length out' \<le> max_rows" "max_bytes > 0 \<Longrightarrow> (\<Sum>r\<leftarrow>out'. row_bytes J r) \<le> max_bytes"
    "\<exists>taken. out' = out @ taken \<and> converted J (take (length taken) rows) taken \<and> (\<not> trunc \<longrightarrow> length taken = length rows)"
proof -
  have "(max_rows > 0 \<longrightarrow> length out' \<le> max_rows) \<and> (max_bytes > 0 \<longrightarrow> (\<Sum>r\<leftarrow>out'. row_bytes J r) \<le> max_bytes) \<and>
    (\<exists>taken. out' = out @ taken \<and> converted J (take (length taken) rows) taken \<and> (\<not> trunc \<longrightarrow> length taken = length rows))"
    using assms
  proof (induction rows arbitrary: out n)
    case Nil
    then show ?case
      by (auto simp: converted_def)
  next
    case (Cons row rows)
    from Cons.prems(1) show ?case
    proof (cases rule: collect_rows_cases)
      case (more cells js n')
      have "(max_rows > 0 \<longrightarrow> length out' \<le> max_rows) \<and> (max_bytes > 0 \<longrightarrow> (\<Sum>r\<leftarrow>out'. row_bytes J r) \<le> max_bytes) \<and>
        (\<exists>taken. out' = (out @ [js]) @ taken \<and> converted J (take (length taken) rows) taken \<and> (\<not> trunc \<longrightarrow> length taken = length rows))"
        using more(4,5) Cons.prems(2,3) by (intro Cons.IH [OF more(3)]) auto
      then obtain taken where "out' = out @ js # taken" "converted J (take (length taken) rows) taken"
        "\<not> trunc \<longrightarrow> length taken = length rows"
        "max_rows > 0 \<longrightarrow> length out' \<le> max_rows" "max_bytes > 0 \<longrightarrow> (\<Sum>r\<leftarrow>out'. row_bytes J r) \<le> max_bytes"
        by auto
      then show ?thesis
        using more(1,2) by (intro conjI exI [of _ "js # taken"]) (auto simp: converted_def)
    qed (use Cons.prems(2,3) in \<open>auto simp: converted_def\<close>)
  qed
  then show "max_rows > 0 \<Longrightarrow> length out' \<le> max_rows" "max_bytes > 0 \<Longrightarrow> (\<Sum>r\<leftarrow>out'. row_bytes J r) \<le> max_bytes"
    "\<exists>taken. out' = out @ taken \<and> converted J (take (length taken) rows) taken \<and> (\<not> trunc \<longrightarrow> length taken = length rows)"
    by blast+
qed

text \<open>The ways a statement ends with a result.\<close>

lemma execute_sql_quota_ok [consumes 1, case_names wrote queried]:
  assumes run: "execute_sql_quota E J lim req (u, fl) = (Inr res, s')"
  obtains (wrote) vs where "to_sql_values J (rq_params req) = Inr vs"
      "en_prepare E (authorize True) (rq_sql req) u = Inr []"
      "en_execute E (authorize True) (rq_sql req) vs u = (Inr (rs_rows_affected res), fst s')" "snd s' = fl"
      "rs_rows res = []" "\<not> rs_truncated res"
  | (queried) vs columns rows where "to_sql_values J (rq_params req) = Inr vs" "columns \<noteq> []"
      "en_prepare E (authorize True) (rq_sql req) u = Inr columns"
      "en_query E (authorize True) (rq_sql req) vs u = (Inr rows, fst s')" "snd s' = fl"
      "collect_rows J (case lim of Some q \<Rightarrow> max_sql_rows q | None \<Rightarrow> 0)
        (case lim of Some q \<Rightarrow> max_sql_result_bytes q | None \<Rightarrow> 0) rows [] 0 = Inr (rs_rows res, rs_truncated res)"
proof -
  note defs = execute_sql_quota_def guard_enter_def guarded_def op_defs of_result_def lift_sql_def Let_def
  obtain v where "check_statement (rq_sql req) = Inr v"
    using run by (cases "check_statement (rq_sql req)") (auto simp: defs)
  moreover obtain vs where vs: "to_sql_values J (rq_params req) = Inr vs"
    using run calculation by (cases "to_sql_values J (rq_params req)") (auto simp: defs)
  moreover obtain columns where columns: "en_prepare E (authorize True) (rq_sql req) u = Inr columns"
    using run calculation by (cases "en_prepare E (authorize True) (rq_sql req) u") (auto simp: defs)
  ultimately have pre: "check_statement (rq_sql req) = Inr v" "to_sql_values J (rq_params req) = Inr vs"
    "en_prepare E (authorize True) (rq_sql req) u = Inr columns"
    by simp_all
  show ?thesis
  proof (cases "columns = []")
    case True
    obtain r u' where ex: "en_execute E (authorize True) (rq_sql req) vs u = (r, u')"
      by fastforce
    then show ?thesis
      using run pre True by (intro wrote [OF vs]) (cases r; auto simp: defs)+
  next
    case False
    obtain r u' where ex: "en_query E (authorize True) (rq_sql req) vs u = (r, u')"
      by fastforce
    then obtain rows where r: "r = Inr rows"
      using run pre False by (cases r) (auto simp: defs)
    obtain c where c: "collect_rows J (case lim of Some q \<Rightarrow> max_sql_rows q | None \<Rightarrow> 0)
        (case lim of Some q \<Rightarrow> max_sql_result_bytes q | None \<Rightarrow> 0) rows [] 0 = c"
      by simp
    then show ?thesis
      using run pre False ex r by (intro queried [OF vs False columns, of rows]) (cases c; auto simp: defs)+
  qed
qed

text \<open>
  C29: The result of a query keeps to the quota. With a limit on the rows, no more rows are
  returned; with a limit on the bytes, the encoded rows take no more; a result that is not marked
  truncated holds every row of the query, in order; and the thread is in the SQL context it was in
  before.
\<close>

theorem sql_result_bounded:
  assumes "execute_sql_quota E J (Some q) req (u, fl) = (Inr res, s')"
  shows "(max_sql_rows q > 0 \<longrightarrow> length (rs_rows res) \<le> max_sql_rows q)
    \<and> (max_sql_result_bytes q > 0 \<longrightarrow> (\<Sum>r\<leftarrow>rs_rows res. row_bytes J r) \<le> max_sql_result_bytes q)
    \<and> (\<not> rs_truncated res \<and> en_prepare E (authorize True) (rq_sql req) u \<noteq> Inr [] \<longrightarrow>
        (\<exists>vs rows. to_sql_values J (rq_params req) = Inr vs \<and>
          en_query E (authorize True) (rq_sql req) vs u = (Inr rows, fst s') \<and> converted J rows (rs_rows res)))
    \<and> snd s' = fl"
  using assms
proof (cases rule: execute_sql_quota_ok)
  case (queried vs columns rows)
  note bounds = collect_rows_bounds [OF queried(6)]
  have "converted J rows (rs_rows res)" if "\<not> rs_truncated res"
    using bounds(3) that by (auto simp: take_all)
  then show ?thesis
    using bounds(1,2) queried by auto
qed simp

section \<open>The sandbox\<close>

text \<open>
  What the code relies on in SQLite.  \<open>acts sql\<close> are the actions a statement needs, and compiling it
  fails if the authorizer denies one of them.  \<open>saved u\<close> is the content to which a rollback would
  return, \<open>None\<close> outside a transaction: beginning one saves the content; a statement that may not use
  the transaction commands keeps it, unless it fails and has rolled the transaction back itself (the
  conflict clause \<open>ROLLBACK\<close>), and so does a commit that fails; a rollback returns to it.
\<close>

definition engine_obeys :: "('u, 'f) engine \<Rightarrow> (str \<Rightarrow> auth_action list) \<Rightarrow> bool" where
  "engine_obeys E acts \<longleftrightarrow>
    (\<forall>auth sql u. (\<exists>a \<in> set (acts sql). auth a = Deny) \<longrightarrow> (\<exists>e. en_prepare E auth sql u = Inl e))"

definition stays :: "('u \<Rightarrow> 'u option) \<Rightarrow> bool \<Rightarrow> 'u \<Rightarrow> 'u \<Rightarrow> bool" where
  "stays saved ok u u' \<longleftrightarrow> saved u' = saved u \<or> \<not> ok \<and> saved u = Some u'"

definition rows_start :: "str + (str + 'a) list \<Rightarrow> bool" where
  "rows_start r = (case r of Inl _ \<Rightarrow> False | Inr (Inl _ # _) \<Rightarrow> False | Inr _ \<Rightarrow> True)"

definition engine_saves :: "('u, 'f) engine \<Rightarrow> ('u \<Rightarrow> 'u option) \<Rightarrow> bool" where
  "engine_saves E saved \<longleftrightarrow>
    (\<forall>auth u. case en_begin E auth u of (Inl _, u') \<Rightarrow> u' = u | (Inr _, u') \<Rightarrow> saved u = None \<and> saved u' = Some u) \<and>
    (\<forall>auth sql vs u. auth Transaction = Deny \<longrightarrow> auth Savepoint = Deny \<longrightarrow>
      (case en_execute E auth sql vs u of (r, u') \<Rightarrow> stays saved (\<not> isl r) u u') \<and>
      (case en_query E auth sql vs u of (r, u') \<Rightarrow> stays saved (rows_start r) u u')) \<and>
    (\<forall>auth u. case en_commit E auth u of (Inl _, u') \<Rightarrow> stays saved False u u' | (Inr _, _) \<Rightarrow> True) \<and>
    (\<forall>auth u. auth Transaction = Allow \<longrightarrow> en_rollback E auth u = (case saved u of Some v \<Rightarrow> v | None \<Rightarrow> u))"

lemma engine_saves_laws:
  assumes "engine_saves E saved"
  shows "en_begin E auth u = (Inl m, u') \<Longrightarrow> u' = u"
    "en_begin E auth u = (Inr x, u') \<Longrightarrow> saved u = None \<and> saved u' = Some u"
    "en_execute E (authorize True) sql vs u = (r, u') \<Longrightarrow> stays saved (\<not> isl r) u u'"
    "en_query E (authorize True) sql vs u = (q, u') \<Longrightarrow> stays saved (rows_start q) u u'"
    "en_commit E auth u = (Inl m, u') \<Longrightarrow> stays saved False u u'"
    "en_rollback E (authorize False) u = (case saved u of Some v \<Rightarrow> v | None \<Rightarrow> u)"
proof -
  have deny: "authorize True Transaction = Deny" "authorize True Savepoint = Deny" "authorize False Transaction = Allow"
    by simp_all
  note laws = assms [unfolded engine_saves_def]
  note begins = laws [THEN conjunct1, rule_format, where auth = auth and u = u]
  note stmts = laws [THEN conjunct2, THEN conjunct1, rule_format, where auth = "authorize True" and sql = sql and vs = vs and u = u, OF deny(1,2)]
  note commits = laws [THEN conjunct2, THEN conjunct2, THEN conjunct1, rule_format, where auth = auth and u = u]
  show "en_begin E auth u = (Inl m, u') \<Longrightarrow> u' = u"
    "en_begin E auth u = (Inr x, u') \<Longrightarrow> saved u = None \<and> saved u' = Some u"
    using begins by simp_all
  show "en_execute E (authorize True) sql vs u = (r, u') \<Longrightarrow> stays saved (\<not> isl r) u u'"
    "en_query E (authorize True) sql vs u = (q, u') \<Longrightarrow> stays saved (rows_start q) u u'"
    using stmts by simp_all
  show "en_commit E auth u = (Inl m, u') \<Longrightarrow> stays saved False u u'"
    using commits by simp
  show "en_rollback E (authorize False) u = (case saved u of Some v \<Rightarrow> v | None \<Rightarrow> u)"
    by (rule laws [THEN conjunct2, THEN conjunct2, THEN conjunct2, rule_format, where auth = "authorize False", OF deny(3)])
qed

lemma stays_fail: "stays saved ok u u' \<Longrightarrow> stays saved False u u'"
  by (auto simp: stays_def)

lemma stays_then: "stays saved True u u1 \<Longrightarrow> stays saved ok u1 u' \<Longrightarrow> stays saved ok u u'"
  by (auto simp: stays_def)

text \<open>A user's statement keeps the transaction it runs in, or fails; the rows it returns begin with one.\<close>

lemma collect_starts: "is_ok (collect_rows J mr mb rows [] 0) \<Longrightarrow> rows_start (Inr rows)"
  by (cases rows) (auto simp: rows_start_def split: sum.splits)

lemma statement_stays:
  assumes "engine_saves E saved" "execute_sql_quota E J lim req (u, fl) = (r, (u', fl'))"
  shows "fl' = fl" "stays saved (is_ok r) u u'"
proof -
  note defs = execute_sql_quota_def guard_enter_def guarded_def of_result_def lift_sql_def op_defs Let_def
  show "fl' = fl"
    using assms(2) by (auto simp: execute_sql_quota_def guard_enter_def guarded_def split: prod.splits)
  have same: "u' = u \<Longrightarrow> stays saved (is_ok r) u u'"
    by (simp add: stays_def)
  show "stays saved (is_ok r) u u'"
  proof (cases "check_statement (rq_sql req)")
    case (Inl e)
    then show ?thesis
      using assms(2) by (intro same) (simp add: defs)
  next
    case c: (Inr c)
    show ?thesis
    proof (cases "to_sql_values J (rq_params req)")
      case (Inl e)
      then show ?thesis
        using assms(2) c by (intro same) (simp add: defs)
    next
      case v: (Inr vs)
      show ?thesis
      proof (cases "en_prepare E (authorize True) (rq_sql req) u")
        case (Inl e)
        then show ?thesis
          using assms(2) c v by (intro same) (simp add: defs)
      next
        case p: (Inr cols)
        obtain x ux where x: "en_execute E (authorize True) (rq_sql req) vs u = (x, ux)"
          by fastforce
        obtain q uq where q: "en_query E (authorize True) (rq_sql req) vs u = (q, uq)"
          by fastforce
        show ?thesis
        proof (cases "cols = []")
          case True
          then have "u' = ux" "is_ok r = (\<not> isl x)"
            using assms(2) c v p x by (cases x; auto simp: defs)+
          then show ?thesis
            using engine_saves_laws(3) [OF assms(1) x] by simp
        next
          case False
          define cr where "cr = (\<lambda>rows. collect_rows J (case lim of Some q \<Rightarrow> max_sql_rows q | None \<Rightarrow> 0)
            (case lim of Some q \<Rightarrow> max_sql_result_bytes q | None \<Rightarrow> 0) rows [] 0)"
          have starts: "is_ok (cr rows) \<Longrightarrow> rows_start (Inr rows)" for rows
            unfolding cr_def by (rule collect_starts)
          have "u' = uq \<and> (is_ok r \<longrightarrow> rows_start q)"
          proof (cases q)
            case (Inl m)
            then show ?thesis
              using assms(2) c v p q False by (auto simp: defs)
          next
            case (Inr rows)
            then show ?thesis
              using assms(2) c v p q False starts [of rows] by (cases "cr rows") (auto simp: defs cr_def)
          qed
          then show ?thesis
            using engine_saves_laws(4) [OF assms(1) q] stays_fail [of saved _ u u'] by (cases "is_ok r") auto
        qed
      qed
    qed
  qed
qed

lemma for_each_fails:
  assumes "x \<in> set xs" "\<And>s. \<exists>e s'. f x s = (Inl e, s')"
  shows "\<exists>e s'. for_each f xs s = (Inl e, s')"
  using assms(1)
proof (induction xs arbitrary: s)
  case (Cons y ys)
  obtain r t where r: "f y s = (r, t)"
    by fastforce
  show ?case
  proof (cases "x = y")
    case True
    then show ?thesis
      using assms(2) [of s] by (auto simp: split: prod.splits sum.splits)
  next
    case False
    then have "x \<in> set ys"
      using Cons.prems by simp
    then obtain e s' where "for_each f ys t = (Inl e, s')"
      using Cons.IH by blast
    then show ?thesis
      using r by (cases r) auto
  qed
qed simp

lemma execute_sql_denied:
  assumes "engine_obeys E acts" "a \<in> set (acts (rq_sql req))" "authorize True a = Deny"
  shows "\<exists>e. execute_sql_quota E J lim req (u, fl) = (Inl e, (u, fl))"
proof -
  obtain m where "en_prepare E (authorize True) (rq_sql req) u = Inl m"
    using assms unfolding engine_obeys_def by blast
  then show ?thesis
    by (cases "check_statement (rq_sql req)"; cases "to_sql_values J (rq_params req)")
      (auto simp: execute_sql_quota_def guard_enter_def guarded_def op_defs of_result_def lift_sql_def Let_def)
qed

lemma statements_stay:
  assumes "engine_saves E saved" "for_each (execute_sql_quota E J lim) reqs (u, fl) = (r, (u', fl'))"
  shows "fl' = fl \<and> stays saved (is_ok r) u u'"
  using assms(2)
proof (induction reqs arbitrary: u fl r)
  case (Cons x reqs)
  obtain q u1 fl1 where q: "execute_sql_quota E J lim x (u, fl) = (q, (u1, fl1))"
    using prod_cases3 by blast
  note st = statement_stays [OF assms(1) q]
  show ?case
  proof (cases q)
    case (Inl e)
    with Cons.prems q st show ?thesis
      by auto
  next
    case (Inr a)
    obtain r1 where "for_each (execute_sql_quota E J lim) reqs (u1, fl1) = (r1, (u', fl'))" "is_ok r1 = is_ok r"
      using Cons.prems q Inr by (auto split: prod.splits sum.splits)
    then have "fl' = fl1" "stays saved (is_ok r) u1 u'"
      using Cons.IH by fastforce+
    then show ?thesis
      using st Inr stays_then [of saved u u1 "is_ok r" u'] by simp
  qed
qed (auto simp: stays_def)

lemma rollback_returns:
  assumes "engine_saves E saved" "saved u = None" "saved u1 = Some u" "stays saved ok u1 u2"
  shows "en_rollback E (authorize False) u2 = u"
  using assms engine_saves_laws(6) [OF assms(1)] by (auto simp: stays_def)

lemma transaction_cases:
  assumes "engine_saves E saved" "execute_transaction E J lim reqs (u, False) = (r, (u', fl'))"
  shows "fl' = False"
    "r = Inl e \<Longrightarrow> u' = u"
    "r = Inr res \<Longrightarrow> \<exists>u1 u2. en_begin E (authorize False) u = (Inr (), u1)
      \<and> for_each (execute_sql_quota E J lim) reqs (u1, False) = (Inr res, (u2, False))
      \<and> en_commit E (authorize False) u2 = (Inr (), u')"
proof -
  note defs = execute_transaction_def guard_leave_def guarded_def lift_sql_def drop_transaction_def op_defs Let_def
  obtain b u1 where b: "en_begin E (authorize False) u = (b, u1)"
    by fastforce
  obtain q u2 f2 where q: "for_each (execute_sql_quota E J lim) reqs (u1, False) = (q, (u2, f2))"
    using prod_cases3 by blast
  obtain k u3 where k: "en_commit E (authorize False) u2 = (k, u3)"
    by fastforce
  note st = statements_stay [OF assms(1) q]
  consider (empty) "reqs = []" | (unbegun) m where "reqs \<noteq> []" "b = Inl m" | (stmt) m where "reqs \<noteq> []" "b = Inr ()" "q = Inl m"
    | (commit) x m where "reqs \<noteq> []" "b = Inr ()" "q = Inr x" "k = Inl m" | (fine) x where "reqs \<noteq> []" "b = Inr ()" "q = Inr x" "k = Inr ()"
    by (cases b; cases q; cases k) auto
  then have "fl' = False \<and> (case r of Inl e \<Rightarrow> u' = u | Inr res \<Rightarrow> b = Inr () \<and> q = Inr res \<and> k = Inr () \<and> u' = u3)"
  proof cases
    case empty
    then show ?thesis
      using assms(2) by (auto simp: defs)
  next
    case unbegun
    then show ?thesis
      using assms(2) b engine_saves_laws(1) [OF assms(1)] by (auto simp: defs)
  next
    case stmt
    have "en_rollback E (authorize False) u2 = u"
      using rollback_returns [OF assms(1)] engine_saves_laws(2) [OF assms(1)] b stmt(2) st by blast
    then show ?thesis
      using assms(2) b q st stmt by (auto simp: defs)
  next
    case commit
    have s: "saved u = None" "saved u1 = Some u"
      using engine_saves_laws(2) [OF assms(1)] b commit(2) by blast+
    have "stays saved False u1 u3"
      using st commit(3,4) engine_saves_laws(5) [OF assms(1)] k stays_then by fastforce
    then have "en_rollback E (authorize False) u3 = u"
      using rollback_returns [OF assms(1) s] by blast
    then show ?thesis
      using assms(2) b q k st commit by (auto simp: defs)
  next
    case fine
    then show ?thesis
      using assms(2) b q k st by (auto simp: defs)
  qed
  then show "fl' = False" "r = Inl e \<Longrightarrow> u' = u"
    "r = Inr res \<Longrightarrow> \<exists>u1 u2. en_begin E (authorize False) u = (Inr (), u1)
      \<and> for_each (execute_sql_quota E J lim) reqs (u1, False) = (Inr res, (u2, False))
      \<and> en_commit E (authorize False) u2 = (Inr (), u')"
    using b q k st by auto
qed

text \<open>
  C8: User SQL cannot leave its sandbox. For an engine that refuses to compile a statement the
  authorizer denies, a statement that needs to attach or detach a database, control a transaction or
  savepoint, use a pragma outside the allowed list, call a file or extension function, or touch a
  table whose name starts with \<open>__sys\<close>, returns an error and leaves the database alone; so does a
  transaction that contains one.
\<close>

theorem sandbox_blocks:
  assumes "engine_obeys E acts" "engine_saves E saved" "a \<in> set (acts (rq_sql req))"
    "a \<in> {Attach, Detach, Transaction, Savepoint}
      \<or> (\<exists>name v. a = Pragma name v \<and> \<not> pragma_allowed (to_ascii_lowercase name) (v \<noteq> None))
      \<or> (\<exists>name. a = Function name \<and> \<not> function_allowed (to_ascii_lowercase name))
      \<or> (\<exists>t. a \<in> {Read t, Insert t, Update t, Delete t} \<and> hidden_table t)"
  shows "(\<exists>e. execute_sql_quota E J lim req (u, fl) = (Inl e, (u, fl)))
    \<and> (req \<in> set statements \<longrightarrow> (\<exists>e. execute_transaction E J lim statements (u, False) = (Inl e, (u, False))))"
proof -
  have deny: "authorize True a = Deny"
    using assms(4) by auto
  note one = execute_sql_denied [OF assms(1,3) deny]
  have "\<exists>e. execute_transaction E J lim statements (u, False) = (Inl e, (u, False))" if st: "req \<in> set statements"
  proof -
    obtain r u' fl' where run: "execute_transaction E J lim statements (u, False) = (r, (u', fl'))"
      using prod_cases3 by blast
    have fails: "\<exists>e s'. for_each (execute_sql_quota E J lim) statements s = (Inl e, s')" for s
    proof (rule for_each_fails [OF st])
      fix t :: "'a \<times> bool"
      show "\<exists>e s'. execute_sql_quota E J lim req t = (Inl e, s')"
        using one by (cases t) blast
    qed
    have "r \<noteq> Inr res" for res
      using transaction_cases(3) [OF assms(2) run, of res] fails by (metis Inl_Inr_False prod.inject)
    then obtain e where "r = Inl e"
      by (cases r) auto
    then show ?thesis
      using run transaction_cases(1,2) [OF assms(2) run] by simp
  qed
  with one show ?thesis
    by blast
qed

text \<open>
  C13: A transaction is atomic. If it fails, at a statement or at the commit, the tables are as they
  were: the statements run under the sandbox, so none of them can end the transaction early, and the
  rollback runs outside it, so it is not refused. If it succeeds, every statement succeeded, each on
  the tables the one before left, there is one result per statement in order, and the commit was
  accepted. Either way the thread is back in its SQL context.
\<close>

theorem transaction_atomic:
  assumes "engine_saves E saved" "execute_transaction E J lim statements (u, False) = (r, (u', fl'))"
  shows "fl' = False \<and> (case r of
      Inl _ \<Rightarrow> u' = u
    | Inr results \<Rightarrow> length results = length statements \<and>
        (\<exists>u1 u2. en_begin E (authorize False) u = (Inr (), u1)
          \<and> for_each (execute_sql_quota E J lim) statements (u1, False) = (Inr results, (u2, False))
          \<and> en_commit E (authorize False) u2 = (Inr (), u')))"
proof (cases r)
  case (Inl e)
  then show ?thesis
    using transaction_cases(1,2) [OF assms] by simp
next
  case (Inr results)
  then show ?thesis
    using transaction_cases(1,3) [OF assms] by (auto dest: for_each_length)
qed

section \<open>A small engine\<close>

text \<open>One table that is a counter; the statements are single words.\<close>

definition counter_acts :: "str \<Rightarrow> auth_action list" where
  "counter_acts sql = (if sql = ''attach'' then [Attach] else if sql = ''list'' then [Read ''counter''] else [])"

text \<open>The content is the counter and, within a transaction, its value at the beginning.\<close>

definition counter_saved :: "nat \<times> nat option \<Rightarrow> (nat \<times> nat option) option" where
  "counter_saved u = map_option (\<lambda>n. (n, None)) (snd u)"

definition counter_engine :: "(nat \<times> nat option, unit) engine" where
  "counter_engine = \<lparr>
    en_prepare = (\<lambda>auth sql u. if \<exists>a \<in> set (counter_acts sql). auth a = Deny then Inl ''not authorized''
      else Inr (if sql = ''list'' then [''n''] else [])),
    en_execute = (\<lambda>auth sql vs u. if sql = ''inc'' then (Inr 1, (Suc (fst u), snd u)) else (Inl ''no such statement'', u)),
    en_query = (\<lambda>auth sql vs u. (Inr (map (\<lambda>i. Inr [Inr (SInteger (int i))]) [0..<fst u]), u)),
    en_begin = (\<lambda>auth u. if auth Transaction = Deny \<or> snd u \<noteq> None then (Inl ''not authorized'', u)
      else (Inr (), (fst u, Some (fst u)))),
    en_commit = (\<lambda>auth u. if auth Transaction = Deny then (Inl ''not authorized'', u) else (Inr (), (fst u, None))),
    en_rollback = (\<lambda>auth u. if auth Transaction = Deny then u else (case snd u of Some n \<Rightarrow> (n, None) | None \<Rightarrow> u))\<rparr>"

definition int_serde :: "(int, unit) serde" where
  "int_serde = \<lparr>as_i64 = Some, as_f64 = (\<lambda>_. None), from_i64 = id, from_f64 = (\<lambda>_. None), json_text = (\<lambda>_. ''''),
    to_vec_len = (\<lambda>js. Inr (length js)), utf8_lossy = id\<rparr>"

definition stmt :: "str \<Rightarrow> int sql_request" where
  "stmt sql = \<lparr>rq_sql = sql, rq_params = []\<rparr>"

definition two_rows :: quota_config where
  "two_rows = \<lparr>max_request_body_bytes = 0, max_kv_key_bytes = 0, max_kv_value_bytes = 0, max_sql_rows = 2,
    max_sql_result_bytes = 0, max_cells_per_tenant = 0, max_per_tenant_concurrency = 0,
    max_per_cell_concurrency = 0, storage_soft_bytes = 0, storage_hard_bytes = 0, max_ttl_seconds = 0\<rparr>"

lemma counter_obeys: "engine_obeys counter_engine counter_acts" "engine_saves counter_engine counter_saved"
  by (auto simp: engine_obeys_def engine_saves_def counter_engine_def counter_saved_def stays_def rows_start_def
      split: option.splits list.splits)

theorem sql_result_bounded_witness:
  "\<exists>res. execute_sql_quota counter_engine int_serde (Some two_rows) (stmt ''list'') ((3, None), False) = (Inr res, ((3, None), False))
    \<and> rs_truncated res \<and> length (rs_rows res) \<le> 2"
proof -
  have run: "execute_sql_quota counter_engine int_serde (Some two_rows) (stmt ''list'') ((3, None), False) =
      (Inr \<lparr>rs_columns = [''n''], rs_rows = [[JNumber 0], [JNumber 1]], rs_rows_affected = 0, rs_truncated = True\<rparr>, ((3, None), False))"
    by code_simp
  with sql_result_bounded [OF run] show ?thesis
    by (simp add: two_rows_def)
qed

theorem sandbox_blocks_witness:
  "(\<exists>e. execute_sql_quota counter_engine int_serde None (stmt ''attach'') ((3, None), False) = (Inl e, ((3, None), False)))
    \<and> (\<exists>e. execute_transaction counter_engine int_serde None [stmt ''inc'', stmt ''attach''] ((3, None), False) = (Inl e, ((3, None), False)))"
  using sandbox_blocks [OF counter_obeys, of Attach "stmt ''attach''" int_serde None "(3, None)" False "[stmt ''inc'', stmt ''attach'']"]
  by (simp add: stmt_def counter_acts_def)

theorem transaction_atomic_witness:
  "execute_transaction counter_engine int_serde None [stmt ''inc'', stmt ''bad''] ((3, None), False)
      = (Inl (Sql ''no such statement''), ((3, None), False))
    \<and> snd (execute_transaction counter_engine int_serde None [stmt ''inc'', stmt ''inc''] ((3, None), False)) = ((5, None), False)"
proof -
  obtain r u' fl' where run: "execute_transaction counter_engine int_serde None [stmt ''inc'', stmt ''bad''] ((3, None), False) = (r, (u', fl'))"
    using prod_cases3 by blast
  have r: "fst (execute_transaction counter_engine int_serde None [stmt ''inc'', stmt ''bad''] ((3, None), False)) = Inl (Sql ''no such statement'')"
    by code_simp
  have "snd (execute_transaction counter_engine int_serde None [stmt ''inc'', stmt ''inc''] ((3, None), False)) = ((5, None), False)"
    by code_simp
  then show ?thesis
    using transaction_atomic [OF counter_obeys(2) run] run r by auto
qed

end
