(* ===== verification/Data_Node.thy ===== *)
theory Data_Node
  imports Kv_Cache Db_Pool Sql_Exec
begin

text \<open>
  The service of a data node (\<open>data-node/src/lib.rs\<close>): the KV operations through the cache, user
  SQL, fencing by generation, read-only protection and the life of a cell.  The libraries are bundled
  in \<open>libs\<close>; what the operating system and SQLite do during a request is its \<open>io_env\<close>; every
  reading of the wall clock is an argument, in the order of the code.
\<close>

record ('c, 'u, 'f, 'n) libs =
  lb_moka :: "'c moka"
  lb_show :: "uuid \<Rightarrow> str"
  lb_debug :: "str \<Rightarrow> str"
  lb_empty :: 'u
  lb_engine :: "('u, 'f) engine"
  lb_serde :: "('n, 'f) serde"

record ('c, 'u) data_node =
  dn_mgr :: "'u mgr"
  dn_cache :: "'c kv_cache"
  dn_sql_timeout :: "nat option"
  dn_generations :: "(database_id, int) hashmap"
  dn_quota :: quota_config

definition node_new :: "('c, 'u, 'f, 'n) libs \<Rightarrow> data_node_config \<Rightarrow> 'u disk \<Rightarrow> ('c, 'u) data_node" where
  "node_new L cfg d = \<lparr>dn_mgr = mgr_new cfg d,
    dn_cache = cache_new (lb_moka L) (max (dc_kv_cache_capacity cfg) 1),
    dn_sql_timeout = dc_sql_timeout cfg, dn_generations = [], dn_quota = dc_quota cfg\<rparr>"

section \<open>Guards\<close>

definition fence_cell :: "database_id \<Rightarrow> int \<Rightarrow> ('c, 'u) data_node \<Rightarrow> ('c, 'u) data_node" where
  "fence_cell db gen n = n\<lparr>dn_generations := AList.update db gen (dn_generations n)\<rparr>"

definition current_generation :: "('c, 'u) data_node \<Rightarrow> database_id \<Rightarrow> int" where
  "current_generation n db = (case map_of (dn_generations n) db of Some g \<Rightarrow> g | None \<Rightarrow> 0)"

definition check_generation :: "('c, 'u, 'f, 'n) libs \<Rightarrow> database_id \<Rightarrow> int \<Rightarrow> (('c, 'u) data_node, unit) op" where
  "check_generation L db gen = (\<lambda>n.
    let cur = current_generation n db
    in if gen \<noteq> cur then
         (Inl (Forbidden (''cell '' @ lb_show L (db_uuid db) @ '' fenced: write generation '' @ show_int gen
           @ '' != current '' @ show_int cur)), n)
       else (Inr (), n))"

definition check_writable :: "('c, 'u, 'f, 'n) libs \<Rightarrow> database_id \<Rightarrow> (('c, 'u) data_node, unit) op" where
  "check_writable L db = (\<lambda>n.
    if is_readonly (dn_mgr n) db then
      (Inl (Internal (''cell '' @ lb_show L (db_uuid db)
        @ '' is read-only (integrity check failed); contact operator to restore from backup'')), n)
    else (Inr (), n))"

definition check_ttl :: "nat option \<Rightarrow> (('c, 'u) data_node, unit) op" where
  "check_ttl ttl_seconds = (\<lambda>n.
    let max_ttl = max_ttl_seconds (dn_quota n) in
    case ttl_seconds of
      Some ttl \<Rightarrow>
        if max_ttl > 0 \<and> ttl > max_ttl then
          (Inl (QuotaExceeded (''ttl too large: '' @ show_nat ttl @ ''s (max '' @ show_nat max_ttl @ ''s)'')), n)
        else (Inr (), n)
    | None \<Rightarrow> (Inr (), n))"

text \<open>Whether the future runs out of time is an argument; the worker's effects stay either way.\<close>

definition timeout_sql :: "bool \<Rightarrow> (('c, 'u) data_node, 'a) op \<Rightarrow> (('c, 'u) data_node, 'a) op" where
  "timeout_sql timed_out fut = (\<lambda>n. case dn_sql_timeout n of
      Some d \<Rightarrow>
        if timed_out then (Inl (Sql (''query timed out after '' @ show_nat d @ ''s (interrupted)'')), snd (fut n))
        else fut n
    | None \<Rightarrow> fut n)"

section \<open>Work on a connection\<close>

definition in_conn ::
  "('c, 'u, 'f, 'n) libs \<Rightarrow> io_env \<Rightarrow> database_id \<Rightarrow> ('u conn \<times> 'c kv_cache, 'a) op \<Rightarrow> (('c, 'u) data_node, 'a) op" where
  "in_conn L io db f = (\<lambda>n.
    let (r, m, kc) = with_conn (lb_show L) (lb_empty L) io db f (dn_mgr n, dn_cache n)
    in (r, n\<lparr>dn_mgr := m, dn_cache := kc\<rparr>))"

definition on_kv :: "('u conn, 'a) op \<Rightarrow> ('u conn \<times> 'x, 'a) op" where
  "on_kv f = (\<lambda>(c, x). let (r, c') = f c in (r, c', x))"

definition on_cache :: "('x \<Rightarrow> 'x) \<Rightarrow> ('u conn \<times> 'x, unit) op" where
  "on_cache g = (\<lambda>(c, x). (Inr (), c, g x))"

definition on_user :: "('u \<times> bool, 'a) op \<Rightarrow> ('u conn \<times> 'x, 'a) op" where
  "on_user f = (\<lambda>(c, x). let (r, u, _) = f (user_db c, False) in (r, c\<lparr>user_db := u\<rparr>, x))"

section \<open>SQL\<close>

definition node_execute_sql ::
  "('c, 'u, 'f, 'n) libs \<Rightarrow> io_env \<Rightarrow> bool \<Rightarrow> database_id \<Rightarrow> 'n sql_request \<Rightarrow> int
    \<Rightarrow> (('c, 'u) data_node, 'n sql_result) op" where
  "node_execute_sql L io timed_out db req gen =
    try_then (check_generation L db gen) (\<lambda>_.
    try_then (check_writable L db) (\<lambda>_ n.
      timeout_sql timed_out
        (in_conn L io db (on_user (execute_sql_quota (lb_engine L) (lb_serde L) (Some (dn_quota n)) req))) n))"

definition node_execute_transaction ::
  "('c, 'u, 'f, 'n) libs \<Rightarrow> io_env \<Rightarrow> bool \<Rightarrow> database_id \<Rightarrow> 'n sql_request list \<Rightarrow> int
    \<Rightarrow> (('c, 'u) data_node, 'n sql_result list) op" where
  "node_execute_transaction L io timed_out db statements gen =
    try_then (check_generation L db gen) (\<lambda>_.
    try_then (check_writable L db) (\<lambda>_ n.
      timeout_sql timed_out
        (in_conn L io db (on_user (execute_transaction (lb_engine L) (lb_serde L) (Some (dn_quota n)) statements))) n))"

section \<open>KV\<close>

definition kv_scan ::
  "('c, 'u, 'f, 'n) libs \<Rightarrow> io_env \<Rightarrow> int \<Rightarrow> database_id \<Rightarrow> str \<Rightarrow> nat \<Rightarrow> str \<Rightarrow> (('c, 'u) data_node, kv_scan_result) op" where
  "kv_scan L io now db pfx limit cursor = in_conn L io db (on_kv (scan_kv now pfx limit cursor))"

text \<open>The lock-free look into the cache that the reading operations start with.\<close>

definition cache_lookup ::
  "('c, 'u, 'f, 'n) libs \<Rightarrow> int \<Rightarrow> database_id \<Rightarrow> str \<Rightarrow> ('c, 'u) data_node \<Rightarrow> kv_entry option \<times> ('c, 'u) data_node" where
  "cache_lookup L now db key n =
    (let (found, kc) = cache_get (lb_moka L) db key now (dn_cache n) in (found, n\<lparr>dn_cache := kc\<rparr>))"

definition kv_get ::
  "('c, 'u, 'f, 'n) libs \<Rightarrow> io_env \<Rightarrow> int \<Rightarrow> int \<Rightarrow> int \<Rightarrow> database_id \<Rightarrow> str \<Rightarrow> (('c, 'u) data_node, kv_entry option) op" where
  "kv_get L io now0 now1 now2 db key n = (case cache_lookup L now0 db key n of
      (Some entry, n) \<Rightarrow> (Inr (Some entry), n)
    | (None, n) \<Rightarrow>
        in_conn L io db (try_then (on_kv (read_with_expiry now2 key)) (\<lambda>row. case row of
            Some (v, expires_at) \<Rightarrow>
              try_then (on_cache (cache_put (lb_moka L) db key v expires_at)) (\<lambda>_.
                done_with (Some \<lparr>ke_value = v, ke_ttl_seconds = ttl_or_remaining expires_at now1\<rparr>))
          | None \<Rightarrow> done_with None)) n)"

definition too_large :: "str \<Rightarrow> nat \<Rightarrow> nat \<Rightarrow> combee_error" where
  "too_large what n lim = QuotaExceeded (''kv '' @ what @ '' too large: '' @ show_nat n @ '' bytes (max '' @ show_nat lim @ '')'')"

text \<open>\<open>main_len\<close> is the size of the cell's main file when the limit is checked.\<close>

definition check_storage :: "nat option \<Rightarrow> str \<Rightarrow> (('c, 'u) data_node, unit) op" where
  "check_storage main_len v = (\<lambda>n.
    let hard = storage_hard_bytes (dn_quota n);
        projected = saturating_add_u64 (storage_bytes main_len) (length v)
    in if hard > 0 \<and> projected > hard then
         (Inl (QuotaExceeded (''storage hard limit exceeded: '' @ show_nat projected @ '' bytes (max ''
           @ show_nat hard @ '')'')), n)
       else (Inr (), n))"

definition check_sizes :: "str \<Rightarrow> str \<Rightarrow> (('c, 'u) data_node, unit) op" where
  "check_sizes key v = (\<lambda>n. let q = dn_quota n in
    try_then (refuse_if (max_kv_key_bytes q > 0 \<and> length key > max_kv_key_bytes q)
        (too_large ''key'' (length key) (max_kv_key_bytes q))) (\<lambda>_.
      refuse_if (max_kv_value_bytes q > 0 \<and> length v > max_kv_value_bytes q)
        (too_large ''value'' (length v) (max_kv_value_bytes q))) n)"

text \<open>Writing a key: SQLite first, then the cache, with a new reading of the clock.\<close>

definition write_key ::
  "('c, 'u, 'f, 'n) libs \<Rightarrow> int \<Rightarrow> int \<Rightarrow> database_id \<Rightarrow> str \<Rightarrow> str \<Rightarrow> nat option \<Rightarrow> bool \<Rightarrow> bool
    \<Rightarrow> ('u conn \<times> 'c kv_cache, bool) op" where
  "write_key L now0 now1 db key v ttl_seconds nx xx =
    try_then (on_kv (set_kv now0 key v ttl_seconds nx xx)) (\<lambda>written.
      if written then
        try_then (on_cache (cache_put (lb_moka L) db key v (expires_at_from ttl_seconds now1))) (\<lambda>_. done_with True)
      else done_with False)"

definition kv_set ::
  "('c, 'u, 'f, 'n) libs \<Rightarrow> io_env \<Rightarrow> nat option \<Rightarrow> int \<Rightarrow> int \<Rightarrow> database_id \<Rightarrow> str \<Rightarrow> str \<Rightarrow> nat option \<Rightarrow> bool \<Rightarrow> bool
    \<Rightarrow> int \<Rightarrow> (('c, 'u) data_node, bool) op" where
  "kv_set L io main_len now0 now1 db key v ttl_seconds nx xx gen =
    try_then (check_generation L db gen) (\<lambda>_.
    try_then (check_writable L db) (\<lambda>_.
    try_then (check_ttl ttl_seconds) (\<lambda>_.
    try_then (check_sizes key v) (\<lambda>_.
    try_then (check_storage main_len v) (\<lambda>_.
      in_conn L io db (write_key L now0 now1 db key v ttl_seconds nx xx))))))"

definition kv_del ::
  "('c, 'u, 'f, 'n) libs \<Rightarrow> io_env \<Rightarrow> database_id \<Rightarrow> str \<Rightarrow> int \<Rightarrow> (('c, 'u) data_node, bool) op" where
  "kv_del L io db key gen =
    try_then (check_generation L db gen) (\<lambda>_.
    try_then (check_writable L db) (\<lambda>_.
      in_conn L io db (try_then (on_kv (del_kv key)) (\<lambda>deleted.
        if deleted then try_then (on_cache (cache_invalidate (lb_moka L) db key)) (\<lambda>_. done_with True)
        else done_with False))))"

definition kv_exists ::
  "('c, 'u, 'f, 'n) libs \<Rightarrow> io_env \<Rightarrow> int \<Rightarrow> int \<Rightarrow> database_id \<Rightarrow> str \<Rightarrow> (('c, 'u) data_node, bool) op" where
  "kv_exists L io now0 now1 db key n = (case cache_lookup L now0 db key n of
      (Some _, n) \<Rightarrow> (Inr True, n)
    | (None, n) \<Rightarrow> in_conn L io db (on_kv (exists_kv now1 key)) n)"

fun mget_fast ::
  "('c, 'u, 'f, 'n) libs \<Rightarrow> int \<Rightarrow> database_id \<Rightarrow> str list \<Rightarrow> ('c, 'u) data_node \<Rightarrow> str option list \<times> ('c, 'u) data_node" where
  "mget_fast L now db [] n = ([], n)"
| "mget_fast L now db (k # ks) n =
    (let (found, n) = cache_lookup L now db k n; (rest, n) = mget_fast L now db ks n
     in (map_option ke_value found # rest, n))"

definition missing :: "'a option list \<Rightarrow> nat list" where
  "missing out = filter (\<lambda>i. out ! i = None) [0..<length out]"

fun mget_fill ::
  "('c, 'u, 'f, 'n) libs \<Rightarrow> (nat \<Rightarrow> int) \<Rightarrow> database_id \<Rightarrow> str list \<Rightarrow> nat list \<Rightarrow> str option list
    \<Rightarrow> ('u conn \<times> 'c kv_cache, str option list) op" where
  "mget_fill L clock db keys [] out = done_with out"
| "mget_fill L clock db keys (i # miss) out =
    try_then (on_kv (read_with_expiry (clock i) (keys ! i))) (\<lambda>row. case row of
        Some (v, expires_at) \<Rightarrow>
          try_then (on_cache (cache_put (lb_moka L) db (keys ! i) v expires_at)) (\<lambda>_.
            mget_fill L clock db keys miss (out[i := Some v]))
      | None \<Rightarrow> mget_fill L clock db keys miss out)"

definition kv_mget ::
  "('c, 'u, 'f, 'n) libs \<Rightarrow> io_env \<Rightarrow> int \<Rightarrow> (nat \<Rightarrow> int) \<Rightarrow> database_id \<Rightarrow> str list
    \<Rightarrow> (('c, 'u) data_node, str option list) op" where
  "kv_mget L io now clock db keys n =
    (let (out, n) = mget_fast L now db keys n; miss = missing out
     in if miss = [] then (Inr out, n) else in_conn L io db (mget_fill L clock db keys miss out) n)"

text \<open>The items of an \<open>MSET\<close> come with the two readings of the clock made for each.\<close>

definition kv_mset ::
  "('c, 'u, 'f, 'n) libs \<Rightarrow> io_env \<Rightarrow> database_id \<Rightarrow> ((int \<times> int) \<times> kv_set_item) list \<Rightarrow> int \<Rightarrow> (('c, 'u) data_node, unit) op" where
  "kv_mset L io db items gen =
    try_then (check_generation L db gen) (\<lambda>_.
    try_then (check_writable L db) (\<lambda>_.
    try_then (for_each (\<lambda>(_, it). try_then (check_sizes (si_key it) (si_value it)) (\<lambda>_. check_ttl (si_ttl_seconds it))) items) (\<lambda>_.
      in_conn L io db (try_then
        (for_each (\<lambda>((now0, now1), it). write_key L now0 now1 db (si_key it) (si_value it) (si_ttl_seconds it) False False) items)
        (\<lambda>_. done_with ())))))"

definition kv_ttl ::
  "('c, 'u, 'f, 'n) libs \<Rightarrow> io_env \<Rightarrow> int \<Rightarrow> int \<Rightarrow> database_id \<Rightarrow> str \<Rightarrow> (('c, 'u) data_node, int option) op" where
  "kv_ttl L io now0 now1 db key n = (case cache_lookup L now0 db key n of
      (Some entry, n) \<Rightarrow> (Inr (ke_ttl_seconds entry), n)
    | (None, n) \<Rightarrow> in_conn L io db (on_kv (ttl_kv now1 key)) n)"

definition kv_expire ::
  "('c, 'u, 'f, 'n) libs \<Rightarrow> io_env \<Rightarrow> int \<Rightarrow> int \<Rightarrow> database_id \<Rightarrow> str \<Rightarrow> nat option \<Rightarrow> int \<Rightarrow> (('c, 'u) data_node, bool) op" where
  "kv_expire L io now0 now1 db key ttl_seconds gen =
    try_then (check_generation L db gen) (\<lambda>_.
    try_then (check_ttl ttl_seconds) (\<lambda>_.
    try_then (check_writable L db) (\<lambda>_.
      in_conn L io db (try_then (on_kv (expire_kv now0 now1 key ttl_seconds)) (\<lambda>updated.
        if updated then try_then (on_cache (cache_invalidate (lb_moka L) db key)) (\<lambda>_. done_with True)
        else done_with False)))))"

definition kv_incr ::
  "('c, 'u, 'f, 'n) libs \<Rightarrow> io_env \<Rightarrow> int \<Rightarrow> database_id \<Rightarrow> str \<Rightarrow> int \<Rightarrow> nat option \<Rightarrow> int \<Rightarrow> (('c, 'u) data_node, int) op" where
  "kv_incr L io now db key delta ttl_seconds gen =
    try_then (check_generation L db gen) (\<lambda>_.
    try_then (check_ttl ttl_seconds) (\<lambda>_.
    try_then (check_writable L db) (\<lambda>_.
      in_conn L io db (try_then (on_kv (incr_kv (lb_debug L) now key delta ttl_seconds)) (\<lambda>v.
        try_then (on_cache (cache_invalidate (lb_moka L) db key)) (\<lambda>_. done_with v))))))"

section \<open>The life of a cell\<close>

text \<open>The probing \<open>SELECT 1\<close> touches no table.\<close>

definition ensure_database :: "('c, 'u, 'f, 'n) libs \<Rightarrow> io_env \<Rightarrow> database_id \<Rightarrow> (('c, 'u) data_node, unit) op" where
  "ensure_database L io db = in_conn L io db (on_kv (run_stmt (\<lambda>t. ((), t))))"

definition on_mgr :: "('u mgr, 'a) op \<Rightarrow> (('c, 'u) data_node, 'a) op" where
  "on_mgr f = (\<lambda>n. let (r, m) = f (dn_mgr n) in (r, n\<lparr>dn_mgr := m\<rparr>))"

definition clear_cell :: "('c, 'u, 'f, 'n) libs \<Rightarrow> database_id \<Rightarrow> (('c, 'u) data_node, unit) op" where
  "clear_cell L db = (\<lambda>n. (Inr (), n\<lparr>dn_cache := clear_database (lb_moka L) db (dn_cache n)\<rparr>))"

definition remove_cell_files :: "io_env \<Rightarrow> database_id \<Rightarrow> ('u mgr, unit) op" where
  "remove_cell_files io db = (\<lambda>m.
    let (r, f) = remove_each (io_fail io) (\<lambda>_ e. Internal (''reset remove file failed: '' @ e))
        ['''', ''-wal'', ''-shm'', ''-journal''] (files_of (mg_disk m) db)
    in (r, m\<lparr>mg_disk := AList.update db f (mg_disk m)\<rparr>))"

definition node_reset_database :: "('c, 'u, 'f, 'n) libs \<Rightarrow> io_env \<Rightarrow> database_id \<Rightarrow> (('c, 'u) data_node, unit) op" where
  "node_reset_database L io db =
    try_then (on_mgr (close_database io db)) (\<lambda>_.
    try_then (clear_cell L db) (\<lambda>_.
      on_mgr (remove_cell_files io db)))"

definition node_delete_database :: "('c, 'u, 'f, 'n) libs \<Rightarrow> io_env \<Rightarrow> database_id \<Rightarrow> (('c, 'u) data_node, unit) op" where
  "node_delete_database L io db =
    try_then (on_mgr (mgr_delete_database (lb_show L) io db)) (\<lambda>_. clear_cell L db)"

definition node_active_count :: "('c, 'u) data_node \<Rightarrow> nat" where
  "node_active_count n = active_count (dn_mgr n)"

definition node_cache_stats :: "('c, 'u) data_node \<Rightarrow> nat \<times> nat" where
  "node_cache_stats n = cache_stats (dn_cache n)"

end
