(* ===== verification/Cache_Contract.thy ===== *)
theory Cache_Contract
  imports Kv_Contract Kv_Cache
begin

text \<open>
  The contract between the KV store of a cell and the cache in front of it.  The locale
  \<open>kv_backend\<close> states what the data node uses of the store; under it, filling, updating and
  invalidating the cache the way \<open>lib.rs\<close> does keeps the cache coherent with the rows.  A write
  reads the clock twice, for the row and for the cache entry, so an entry may expire up to \<open>d\<close>
  seconds after its row, where \<open>d\<close> bounds the time between two readings of one operation.
\<close>

section \<open>Rows\<close>

definition rows_of :: "kv_table \<Rightarrow> kv_map" where
  "rows_of t k = map_option (\<lambda>r. (kv_value r, kv_expires_at r)) (map_of t k)"

lemma shown_rows: "shown n (rows_of t) = live n t"
  by (auto simp: shown_def rows_of_def live_def fun_eq_iff split: option.splits)

lemma rows_update [simp]: "rows_of (AList.update k r t) = (rows_of t)(k \<mapsto> (kv_value r, kv_expires_at r))"
  by (auto simp: rows_of_def map_of_update fun_eq_iff)

lemma rows_delete [simp]: "rows_of (AList.delete k t) = (rows_of t)(k := None)"
  by (auto simp: rows_of_def map_of_delete fun_eq_iff)

definition drops :: "int \<Rightarrow> str \<Rightarrow> kv_map \<Rightarrow> kv_map \<Rightarrow> bool" where
  "drops now k m m' \<longleftrightarrow> m' = m \<or> m' = m(k := None) \<and> shown now m k = None"

section \<open>Coherence\<close>

definition close :: "int \<Rightarrow> int option \<Rightarrow> int option \<Rightarrow> bool" where
  "close d row entry = (case row of None \<Rightarrow> entry = None | Some a \<Rightarrow> \<exists>b. entry = Some b \<and> b \<le> a + d)"

definition coherent_cell :: "'c moka \<Rightarrow> int \<Rightarrow> int \<Rightarrow> database_id \<Rightarrow> 'c kv_cache \<Rightarrow> kv_map \<Rightarrow> bool" where
  "coherent_cell M d T db kc m \<longleftrightarrow>
    (\<forall>k v e. cached M kc db k = Some (v, e) \<longrightarrow>
      (\<exists>x. m k = Some (v, x) \<and> close d x e) \<or> (\<exists>b. e = Some b \<and> b \<le> T + d))"

lemma coherent_cellI:
  assumes "\<And>k v e. cached M kc db k = Some (v, e) \<Longrightarrow> (\<exists>x. m k = Some (v, x) \<and> close d x e) \<or> (\<exists>b. e = Some b \<and> b \<le> T + d)"
  shows "coherent_cell M d T db kc m"
  using assms by (simp add: coherent_cell_def)

lemma coherent_cellD:
  assumes "coherent_cell M d T db kc m" "cached M kc db k = Some (v, e)"
  obtains (row) x where "m k = Some (v, x)" "close d x e" | (fading) b where "e = Some b" "b \<le> T + d"
  using assms unfolding coherent_cell_def by blast

lemma close_refl: "0 \<le> d \<Longrightarrow> close d e e"
  by (cases e) (auto simp: close_def)

text \<open>Reading the clock later for the entry than for the row costs at most the time in between.\<close>

lemma wrap_i64_later:
  assumes "0 \<le> y"
  shows "wrap_i64 (x + y) \<le> wrap_i64 x + y"
proof -
  have "(x + y + 2 ^ 63) mod 2 ^ 64 = ((x + 2 ^ 63) mod 2 ^ 64 + y) mod 2 ^ 64"
    using mod_add_left_eq [of "x + 2 ^ 63" "2 ^ 64" y] by (simp only: add.assoc add.commute add.left_commute)
  also have "\<dots> \<le> (x + 2 ^ 63) mod 2 ^ 64 + y"
    using assms by (intro zmod_le_nonneg_dividend) simp
  finally show ?thesis
    by (simp add: wrap_i64_def)
qed

lemma close_later:
  assumes "now \<le> now'" "now' \<le> now + d"
  shows "close d (expires_at_from ttl now) (expires_at_from ttl now')"
proof (cases ttl)
  case (Some s)
  have "wrap_i64 (now + wrap_i64 (int s) + (now' - now)) \<le> wrap_i64 (now + wrap_i64 (int s)) + (now' - now)"
    using assms by (intro wrap_i64_later) simp
  with Some assms(2) show ?thesis
    by (simp add: close_def expires_at_from_def algebra_simps)
qed (simp add: close_def expires_at_from_def)

lemma coherent_time: "coherent_cell M d T db kc m \<Longrightarrow> T \<le> T' \<Longrightarrow> coherent_cell M d T' db kc m"
  unfolding coherent_cell_def by force

lemma coherent_fewer:
  assumes "coherent_cell M d T db kc m" "\<And>k w. cached M kc' db k = Some w \<Longrightarrow> cached M kc db k = Some w"
  shows "coherent_cell M d T db kc' m"
  using assms unfolding coherent_cell_def by blast

lemma coherent_drops:
  assumes "coherent_cell M d T db kc m" "drops now k m m'" "T \<le> now"
  shows "coherent_cell M d now db kc m'"
proof (rule coherent_cellI)
  fix k' v e
  assume "cached M kc db k' = Some (v, e)"
  with assms(1) show "(\<exists>x. m' k' = Some (v, x) \<and> close d x e) \<or> (\<exists>b. e = Some b \<and> b \<le> now + d)"
  proof (cases rule: coherent_cellD)
    case (row x)
    show ?thesis
    proof (cases "m' k' = m k'")
      case True
      with row show ?thesis
        by auto
    next
      case False
      then have "k' = k" "shown now m k = None"
        using assms(2) by (auto simp: drops_def split: if_splits)
      then have "is_expired x now"
        using row by (auto simp: shown_def split: if_splits)
      then obtain a where "x = Some a" "a \<le> now"
        by (cases x) auto
      with row(2) show ?thesis
        by (auto simp: close_def)
    qed
  next
    case (fading b)
    with assms(3) show ?thesis
      by auto
  qed
qed

lemma coherent_put:
  assumes "moka_ok M" "coherent_cell M d T db kc m" "m' = m(k \<mapsto> (v, x))" "close d x e"
  shows "coherent_cell M d T db (cache_put M db k v e kc) m'"
proof (rule coherent_cellI)
  fix k' w e'
  assume c: "cached M (cache_put M db k v e kc) db k' = Some (w, e')"
  show "(\<exists>x. m' k' = Some (w, x) \<and> close d x e') \<or> (\<exists>b. e' = Some b \<and> b \<le> T + d)"
    using cached_put [OF assms(1) c] assms(2-4) by (cases "k' = k") (auto simp: coherent_cell_def)
qed

lemma coherent_invalidate:
  assumes "moka_ok M" "coherent_cell M d T db kc m" "\<And>k'. k' \<noteq> k \<Longrightarrow> m' k' = m k'"
  shows "coherent_cell M d T db (cache_invalidate M db k kc) m'"
proof (rule coherent_cellI)
  fix k' w e'
  assume c: "cached M (cache_invalidate M db k kc) db k' = Some (w, e')"
  show "(\<exists>x. m' k' = Some (w, x) \<and> close d x e') \<or> (\<exists>b. e' = Some b \<and> b \<le> T + d)"
    using cached_invalidate [OF assms(1) c] assms(2,3) by (auto simp: coherent_cell_def)
qed

section \<open>The store as the cache sees it\<close>

locale kv_backend =
  fixes rows :: "'s \<Rightarrow> kv_map"
    and good :: "'s \<Rightarrow> bool"
    and fetch :: "int \<Rightarrow> str \<Rightarrow> ('s, (str \<times> int option) option) op"
    and assign :: "int \<Rightarrow> str \<Rightarrow> str \<Rightarrow> nat option \<Rightarrow> bool \<Rightarrow> bool \<Rightarrow> ('s, bool) op"
    and remove :: "str \<Rightarrow> ('s, bool) op"
    and renew :: "int \<Rightarrow> int \<Rightarrow> str \<Rightarrow> nat option \<Rightarrow> ('s, bool) op"
    and add :: "int \<Rightarrow> str \<Rightarrow> int \<Rightarrow> nat option \<Rightarrow> ('s, int) op"
  assumes fetch_rows: "good s \<Longrightarrow> fetch now k s = (r, s') \<Longrightarrow>
      good s' \<and> drops now k (rows s) (rows s') \<and> (\<forall>x. r = Inr x \<longrightarrow> x = shown now (rows s) k)"
    and assign_rows: "good s \<Longrightarrow> assign now k v ttl nx xx s = (b, s') \<Longrightarrow>
      good s' \<and> rows s' = (if b = Inr True then (rows s)(k \<mapsto> (v, expires_at_from ttl now)) else rows s)"
    and remove_rows: "good s \<Longrightarrow> remove k s = (b, s') \<Longrightarrow>
      good s' \<and> rows s' = (if b = Inr True then (rows s)(k := None) else rows s)"
    and renew_rows: "good s \<Longrightarrow> renew now now' k ttl s = (b, s') \<Longrightarrow>
      good s' \<and> (if b = Inr True then \<forall>k'. k' \<noteq> k \<longrightarrow> rows s' k' = rows s k' else rows s' = rows s)"
    and add_rows: "good s \<Longrightarrow> add now k delta ttl s = (z, s') \<Longrightarrow>
      good s' \<and> (if is_ok z then \<forall>k'. k' \<noteq> k \<longrightarrow> rows s' k' = rows s k' else drops now k (rows s) (rows s'))"
begin

lemma fetch_coherent:
  assumes "moka_ok M" "good s" "coherent_cell M d T db kc (rows s)" "0 \<le> d" "T \<le> now" "fetch now k s = (r, s')"
  shows "coherent_cell M d now db kc (rows s')"
    "r = Inr (Some (v, e)) \<Longrightarrow> coherent_cell M d now db (cache_put M db k v e kc) (rows s')"
proof -
  note law = fetch_rows [OF assms(2,6)]
  show co: "coherent_cell M d now db kc (rows s')"
    using coherent_drops [OF assms(3) _ assms(5)] law by blast
  assume r: "r = Inr (Some (v, e))"
  then have "shown now (rows s) k = Some (v, e)"
    using law by auto
  then have "rows s' = rows s" "rows s k = Some (v, e)"
    using law by (auto simp: drops_def shown_def split: option.splits if_splits)
  then have "rows s' = (rows s')(k \<mapsto> (v, e))"
    by auto
  then show "coherent_cell M d now db (cache_put M db k v e kc) (rows s')"
    by (rule coherent_put [OF assms(1) co _ close_refl [OF assms(4)]])
qed

lemma assign_coherent:
  assumes "moka_ok M" "good s" "coherent_cell M d T db kc (rows s)" "T \<le> now" "now \<le> now'" "now' \<le> now + d"
    "assign now k v ttl nx xx s = (r, s')"
  shows "r = Inr True \<Longrightarrow> coherent_cell M d now' db (cache_put M db k v (expires_at_from ttl now') kc) (rows s')"
    "r \<noteq> Inr True \<Longrightarrow> coherent_cell M d now' db kc (rows s')"
proof -
  note law = assign_rows [OF assms(2,7)]
  have co: "coherent_cell M d now' db kc (rows s)"
    using coherent_time [OF assms(3)] assms(4,5) by simp
  show "r = Inr True \<Longrightarrow> coherent_cell M d now' db (cache_put M db k v (expires_at_from ttl now') kc) (rows s')"
    using law by (intro coherent_put [OF assms(1) co _ close_later [OF assms(5,6)]]) simp
  show "r \<noteq> Inr True \<Longrightarrow> coherent_cell M d now' db kc (rows s')"
    using law co by simp
qed

lemma remove_coherent:
  assumes "moka_ok M" "good s" "coherent_cell M d T db kc (rows s)" "remove k s = (r, s')"
  shows "r = Inr True \<Longrightarrow> coherent_cell M d T db (cache_invalidate M db k kc) (rows s')"
    "r \<noteq> Inr True \<Longrightarrow> coherent_cell M d T db kc (rows s')"
  using remove_rows [OF assms(2,4)] coherent_invalidate [OF assms(1,3)] assms(3) by auto

lemma renew_coherent:
  assumes "moka_ok M" "good s" "coherent_cell M d T db kc (rows s)" "renew now now' k ttl s = (r, s')"
  shows "r = Inr True \<Longrightarrow> coherent_cell M d T db (cache_invalidate M db k kc) (rows s')"
    "r \<noteq> Inr True \<Longrightarrow> coherent_cell M d T db kc (rows s')"
  using renew_rows [OF assms(2,4)] coherent_invalidate [OF assms(1,3)] assms(3) by auto

lemma add_coherent:
  assumes "moka_ok M" "good s" "coherent_cell M d T db kc (rows s)" "T \<le> now" "add now k delta ttl s = (r, s')"
  shows "r = Inr x \<Longrightarrow> coherent_cell M d now db (cache_invalidate M db k kc) (rows s')"
    "r = Inl e \<Longrightarrow> coherent_cell M d now db kc (rows s')"
proof -
  note law = add_rows [OF assms(2,5)]
  show "r = Inr x \<Longrightarrow> coherent_cell M d now db (cache_invalidate M db k kc) (rows s')"
    using law coherent_invalidate [OF assms(1) coherent_time [OF assms(3,4)]] by simp
  show "r = Inl e \<Longrightarrow> coherent_cell M d now db kc (rows s')"
    using law by (intro coherent_drops [OF assms(3) _ assms(4), of k]) simp
qed

end

text \<open>The store of \<open>kv.rs\<close> is such a backend.\<close>

definition kv_good :: "'u conn \<Rightarrow> bool" where
  "kv_good c \<longleftrightarrow> kv_inv (sys_kv c)"

lemma drops_table:
  "sys_kv c' = sys_kv c \<or> sys_kv c' = AList.delete k (sys_kv c) \<and> live now (sys_kv c) k = None \<Longrightarrow>
    drops now k (rows_of (sys_kv c)) (rows_of (sys_kv c')) \<and> (kv_inv (sys_kv c) \<longrightarrow> kv_inv (sys_kv c'))"
  by (auto simp: drops_def shown_rows kv_inv_delete)

lemma kv_inv_upsert: "kv_inv t \<Longrightarrow> k \<noteq> [] \<Longrightarrow> kv_inv (snd (UPSERT k v e t))"
  using kv_inv_version [of t k] by (force simp: UPSERT_def intro!: kv_inv_update split: option.splits)

lemma rows_upsert: "rows_of (snd (UPSERT k v e t)) = (rows_of t)(k \<mapsto> (v, e))"
  by (simp add: UPSERT_def)

interpretation kv_rows: kv_backend "\<lambda>c. rows_of (sys_kv c)" kv_good read_with_expiry set_kv del_kv expire_kv "incr_kv dbg"
proof (unfold_locales, goal_cases)
  case (1 s now k r s')
  then show ?case
    using read_with_expiry_result [of now k s r s'] drops_table [of s' s k now]
    by (auto simp: kv_good_def shown_rows)
next
  case (2 s now k v ttl nx xx r s')
  note res = set_kv_result [OF 2(2)]
  show ?case
  proof (cases "r = Inr True")
    case True
    then obtain i where i: "k \<noteq> []" "sys_kv s' = AList.update k \<lparr>kv_value = v, kv_expires_at = expires_at_from ttl now, kv_version = i\<rparr> (sys_kv s)"
      "i = (case map_of (sys_kv s) k of None \<Rightarrow> 1 | Some q \<Rightarrow> kv_version q + 1)"
      using res(2) by auto
    then have "sys_kv s' = snd (UPSERT k v (expires_at_from ttl now) (sys_kv s))"
      by (simp add: UPSERT_def)
    then show ?thesis
      using 2(1) True i(1) by (simp add: kv_good_def kv_inv_upsert rows_upsert)
  next
    case False
    then show ?thesis
      using 2(1) res(1) by (simp add: kv_good_def)
  qed
next
  case (3 s k r s')
  note res = del_kv_result [OF 3(2)]
  have "rows_of (AList.delete k (sys_kv s)) = rows_of (sys_kv s)" if "map_of (sys_kv s) k = None"
    using that by (auto simp: rows_of_def map_of_delete fun_eq_iff)
  then show ?case
    using 3(1) res by (cases r) (auto simp: kv_good_def kv_inv_delete)
next
  case (4 s now now' k ttl r s')
  note res = expire_kv_result [OF 4(2)]
  show ?case
  proof (cases "r = Inr True")
    case True
    then obtain q where q: "map_of (sys_kv s) k = Some q"
      "sys_kv s' = AList.update k (q\<lparr>kv_expires_at := expires_at_from ttl now', kv_version := kv_version q + 1\<rparr>) (sys_kv s)"
      using res(2) by auto
    then show ?thesis
      using 4(1) True kv_inv_key [OF _ q(1)] kv_inv_version [OF _ q(1)]
      by (force simp: kv_good_def intro: kv_inv_update)
  next
    case False
    then show ?thesis
      using 4(1) res(1) by (simp add: kv_good_def)
  qed
next
  case (5 s now k delta ttl r s')
  note res = incr_kv_result [OF 5(2)]
  show ?case
  proof (cases r)
    case (Inl e)
    then show ?thesis
      using 5(1) drops_table [OF res(1) [OF Inl]] by (simp add: kv_good_def)
  next
    case (Inr x)
    then obtain t where t: "k \<noteq> []" "t = sys_kv s \<or> t = AList.delete k (sys_kv s)"
      "sys_kv s' = snd (UPSERT k (show_int x) (incr_expiry ttl now (live now (sys_kv s) k)) t)"
      using res(2) by blast
    have "kv_inv t"
      using t(2) 5(1) by (auto simp: kv_good_def kv_inv_delete)
    moreover have "\<forall>k'. k' \<noteq> k \<longrightarrow> rows_of t k' = rows_of (sys_kv s) k'"
      using t(2) by auto
    ultimately show ?thesis
      using t(1,3) Inr by (simp add: kv_good_def kv_inv_upsert rows_upsert)
  qed
qed

end
