(* ===== verification/Node_Coherence.thy ===== *)
theory Node_Coherence
  imports Data_Node Cache_Contract
begin

text \<open>
  The cache of a data node against the databases of its cells: every operation of the node keeps the
  cache coherent, whatever \<open>moka\<close> evicts, whatever SQLite or the operating system fail, and whichever
  connections the pool closes.
\<close>

section \<open>Work that keeps a cell coherent\<close>

text \<open>
  A closure run on the connection of a cell, from the time \<open>T\<close> to \<open>T'\<close>: it keeps the table well formed
  and the cache coherent with it, and adds nothing to the cache for other cells.
\<close>

definition keeps_cell ::
  "'c moka \<Rightarrow> int \<Rightarrow> int \<Rightarrow> int \<Rightarrow> database_id \<Rightarrow> ('u conn \<times> 'c kv_cache, 'a) op \<Rightarrow> bool" where
  "keeps_cell M d T T' db f \<longleftrightarrow>
    (\<forall>c kc r c' kc'. kv_good c \<longrightarrow> coherent_cell M d T db kc (rows_of (sys_kv c)) \<longrightarrow> f (c, kc) = (r, c', kc') \<longrightarrow>
      kv_good c' \<and> coherent_cell M d T' db kc' (rows_of (sys_kv c')) \<and>
      (\<forall>db' k w. db' \<noteq> db \<longrightarrow> cached M kc' db' k = Some w \<longrightarrow> cached M kc db' k = Some w))"

lemma keeps_cellI:
  assumes "\<And>c kc r c' kc'. kv_good c \<Longrightarrow> coherent_cell M d T db kc (rows_of (sys_kv c)) \<Longrightarrow> f (c, kc) = (r, c', kc') \<Longrightarrow>
      kv_good c' \<and> coherent_cell M d T' db kc' (rows_of (sys_kv c')) \<and>
      (\<forall>db' k w. db' \<noteq> db \<longrightarrow> cached M kc' db' k = Some w \<longrightarrow> cached M kc db' k = Some w)"
  shows "keeps_cell M d T T' db f"
  using assms unfolding keeps_cell_def by blast

lemma keeps_cellD:
  assumes "keeps_cell M d T T' db f" "kv_good c" "coherent_cell M d T db kc (rows_of (sys_kv c))" "f (c, kc) = (r, c', kc')"
  shows "kv_good c'" "coherent_cell M d T' db kc' (rows_of (sys_kv c'))"
    "db' \<noteq> db \<Longrightarrow> cached M kc' db' k = Some w \<Longrightarrow> cached M kc db' k = Some w"
  using assms unfolding keeps_cell_def by blast+

lemma keeps_cell_then:
  assumes f: "keeps_cell M d T U db f" and g: "\<And>a. keeps_cell M d U V db (g a)" and "U \<le> V"
  shows "keeps_cell M d T V db (try_then f g)"
proof (rule keeps_cellI)
  fix c kc r c' kc'
  assume good: "kv_good c" and co: "coherent_cell M d T db kc (rows_of (sys_kv c))"
    and run: "try_then f g (c, kc) = (r, c', kc')"
  obtain q c1 kc1 where q: "f (c, kc) = (q, c1, kc1)"
    using prod_cases3 by blast
  note f' = keeps_cellD [OF f good co q]
  show "kv_good c' \<and> coherent_cell M d V db kc' (rows_of (sys_kv c')) \<and>
      (\<forall>db' k w. db' \<noteq> db \<longrightarrow> cached M kc' db' k = Some w \<longrightarrow> cached M kc db' k = Some w)"
  proof (cases q)
    case (Inl e)
    then show ?thesis
      using f' run q coherent_time [OF f'(2) assms(3)] by (simp add: try_then_def)
  next
    case (Inr a)
    then have "g a (c1, kc1) = (r, c', kc')"
      using run q by (simp add: try_then_def)
    from keeps_cellD [OF g f'(1,2) this] f'(3) show ?thesis
      by blast
  qed
qed

lemma keeps_cell_done: "T \<le> T' \<Longrightarrow> keeps_cell M d T T' db (done_with a)"
  by (rule keeps_cellI) (auto simp: done_with_def intro: coherent_time)

lemma cached_other:
  assumes "moka_ok M" "db' \<noteq> db"
  shows "cached M (cache_put M db k v e kc) db' k' = Some w \<Longrightarrow> cached M kc db' k' = Some w"
    "cached M (cache_invalidate M db k kc) db' k' = Some w \<Longrightarrow> cached M kc db' k' = Some w"
  using cached_put [OF assms(1), of db k v e kc db' k' w] cached_invalidate [OF assms(1), of db k kc db' k' w] assms(2)
  by auto

text \<open>The closures of \<open>lib.rs\<close>.\<close>

lemma keeps_fill:
  assumes "moka_ok M" "0 \<le> d" "T \<le> now"
  shows "keeps_cell M d T now db (try_then (on_kv (read_with_expiry now key)) (\<lambda>row. case row of
      Some (v, e) \<Rightarrow> try_then (on_cache (cache_put M db key v e)) (\<lambda>_. done_with (g v e))
    | None \<Rightarrow> done_with y))"
proof (rule keeps_cellI)
  fix c :: "'u conn" and kc r c' kc'
  assume good: "kv_good c" and co: "coherent_cell M d T db kc (rows_of (sys_kv c))"
    and run: "try_then (on_kv (read_with_expiry now key)) (\<lambda>row. case row of
      Some (v, e) \<Rightarrow> try_then (on_cache (cache_put M db key v e)) (\<lambda>_. done_with (g v e))
    | None \<Rightarrow> done_with y) (c, kc) = (r, c', kc')"
  obtain q c1 where q: "read_with_expiry now key c = (q, c1)"
    by fastforce
  note fetch = kv_rows.fetch_coherent [OF assms(1) good co assms(2,3) q]
  have "kv_good c1"
    using kv_rows.fetch_rows [OF good q] by blast
  moreover have "c' = c1" "(kc' = kc \<and> (\<forall>v e. q \<noteq> Inr (Some (v, e)))) \<or> (\<exists>v e. q = Inr (Some (v, e)) \<and> kc' = cache_put M db key v e kc)"
    using run q by (auto simp: on_kv_def on_cache_def op_defs split: sum.splits option.splits prod.splits)
  ultimately show "kv_good c' \<and> coherent_cell M d now db kc' (rows_of (sys_kv c')) \<and>
      (\<forall>db' k w. db' \<noteq> db \<longrightarrow> cached M kc' db' k = Some w \<longrightarrow> cached M kc db' k = Some w)"
    using fetch cached_other(1) [OF assms(1)] by blast
qed

lemma keeps_write:
  assumes "moka_ok (lb_moka L)" "T \<le> now0" "now0 \<le> now1" "now1 \<le> now0 + d"
  shows "keeps_cell (lb_moka L) d T now1 db (write_key L now0 now1 db key v ttl nx xx)"
proof (rule keeps_cellI)
  fix c kc r c' kc'
  assume good: "kv_good c" and co: "coherent_cell (lb_moka L) d T db kc (rows_of (sys_kv c))"
    and run: "write_key L now0 now1 db key v ttl nx xx (c, kc) = (r, c', kc')"
  obtain q c1 where q: "set_kv now0 key v ttl nx xx c = (q, c1)"
    by fastforce
  note assign = kv_rows.assign_coherent [OF assms(1) good co assms(2-4) q]
  have "kv_good c1"
    using kv_rows.assign_rows [OF good q] by blast
  moreover have "c' = c1" "kc' = (if q = Inr True then cache_put (lb_moka L) db key v (expires_at_from ttl now1) kc else kc)"
    using run q by (auto simp: write_key_def on_kv_def on_cache_def op_defs split: sum.splits if_splits)
  ultimately show "kv_good c' \<and> coherent_cell (lb_moka L) d now1 db kc' (rows_of (sys_kv c')) \<and>
      (\<forall>db' k w. db' \<noteq> db \<longrightarrow> cached (lb_moka L) kc' db' k = Some w \<longrightarrow> cached (lb_moka L) kc db' k = Some w)"
    using assign by (auto dest: cached_other(1) [OF assms(1), rotated])
qed

lemma keeps_remove:
  assumes "moka_ok M" "T \<le> T'"
  shows "keeps_cell M d T T' db (try_then (on_kv (del_kv key)) (\<lambda>hit.
      if hit then try_then (on_cache (cache_invalidate M db key)) (\<lambda>_. done_with True) else done_with False))"
proof (rule keeps_cellI)
  fix c :: "'u conn" and kc r c' kc'
  assume good: "kv_good c" and co: "coherent_cell M d T db kc (rows_of (sys_kv c))"
    and run: "try_then (on_kv (del_kv key)) (\<lambda>hit.
      if hit then try_then (on_cache (cache_invalidate M db key)) (\<lambda>_. done_with True) else done_with False) (c, kc) = (r, c', kc')"
  obtain q c1 where q: "del_kv key c = (q, c1)"
    by fastforce
  note law = kv_rows.remove_coherent [OF assms(1) good coherent_time [OF co assms(2)] q]
  have "kv_good c1"
    using kv_rows.remove_rows [OF good q] by blast
  moreover have "c' = c1" "kc' = (if q = Inr True then cache_invalidate M db key kc else kc)"
    using run q by (auto simp: on_kv_def on_cache_def op_defs split: sum.splits if_splits)
  ultimately show "kv_good c' \<and> coherent_cell M d T' db kc' (rows_of (sys_kv c')) \<and>
      (\<forall>db' k w. db' \<noteq> db \<longrightarrow> cached M kc' db' k = Some w \<longrightarrow> cached M kc db' k = Some w)"
    using law by (auto dest: cached_other(2) [OF assms(1), rotated])
qed

lemma keeps_renew:
  assumes "moka_ok M" "T \<le> T'"
  shows "keeps_cell M d T T' db (try_then (on_kv (expire_kv now0 now1 key ttl)) (\<lambda>hit.
      if hit then try_then (on_cache (cache_invalidate M db key)) (\<lambda>_. done_with True) else done_with False))"
proof (rule keeps_cellI)
  fix c :: "'u conn" and kc r c' kc'
  assume good: "kv_good c" and co: "coherent_cell M d T db kc (rows_of (sys_kv c))"
    and run: "try_then (on_kv (expire_kv now0 now1 key ttl)) (\<lambda>hit.
      if hit then try_then (on_cache (cache_invalidate M db key)) (\<lambda>_. done_with True) else done_with False) (c, kc) = (r, c', kc')"
  obtain q c1 where q: "expire_kv now0 now1 key ttl c = (q, c1)"
    by fastforce
  note law = kv_rows.renew_coherent [OF assms(1) good coherent_time [OF co assms(2)] q]
  have "kv_good c1"
    using kv_rows.renew_rows [OF good q] by blast
  moreover have "c' = c1" "kc' = (if q = Inr True then cache_invalidate M db key kc else kc)"
    using run q by (auto simp: on_kv_def on_cache_def op_defs split: sum.splits if_splits)
  ultimately show "kv_good c' \<and> coherent_cell M d T' db kc' (rows_of (sys_kv c')) \<and>
      (\<forall>db' k w. db' \<noteq> db \<longrightarrow> cached M kc' db' k = Some w \<longrightarrow> cached M kc db' k = Some w)"
    using law by (auto dest: cached_other(2) [OF assms(1), rotated])
qed

lemma keeps_add:
  assumes "moka_ok M" "T \<le> now"
  shows "keeps_cell M d T now db (try_then (on_kv (incr_kv dbg now key delta ttl)) (\<lambda>v.
      try_then (on_cache (cache_invalidate M db key)) (\<lambda>_. done_with v)))"
proof (rule keeps_cellI)
  fix c :: "'u conn" and kc r c' kc'
  assume good: "kv_good c" and co: "coherent_cell M d T db kc (rows_of (sys_kv c))"
    and run: "try_then (on_kv (incr_kv dbg now key delta ttl)) (\<lambda>v.
      try_then (on_cache (cache_invalidate M db key)) (\<lambda>_. done_with v)) (c, kc) = (r, c', kc')"
  obtain q c1 where q: "incr_kv dbg now key delta ttl c = (q, c1)"
    by fastforce
  note law = kv_rows.add_coherent [OF assms(1) good co assms(2) q]
  have "kv_good c1"
    using kv_rows.add_rows [OF good q] by blast
  moreover have "c' = c1" "kc' = (if is_ok q then cache_invalidate M db key kc else kc)"
    using run q by (auto simp: on_kv_def on_cache_def op_defs split: sum.splits)
  ultimately show "kv_good c' \<and> coherent_cell M d now db kc' (rows_of (sys_kv c')) \<and>
      (\<forall>db' k w. db' \<noteq> db \<longrightarrow> cached M kc' db' k = Some w \<longrightarrow> cached M kc db' k = Some w)"
    using law by (cases q) (auto dest: cached_other(2) [OF assms(1), rotated])
qed

text \<open>Work that leaves the KV table and the cache alone.\<close>

lemma keeps_static:
  assumes "\<And>c kc r c' kc'. f (c, kc) = (r, c', kc') \<Longrightarrow> sys_kv c' = sys_kv c \<and> kc' = kc" "T \<le> T'"
  shows "keeps_cell M d T T' db f"
proof (rule keeps_cellI)
  fix c kc r c' kc'
  assume "kv_good c" "coherent_cell M d T db kc (rows_of (sys_kv c))" and run: "f (c, kc) = (r, c', kc')"
  then show "kv_good c' \<and> coherent_cell M d T' db kc' (rows_of (sys_kv c')) \<and>
      (\<forall>db' k w. db' \<noteq> db \<longrightarrow> cached M kc' db' k = Some w \<longrightarrow> cached M kc db' k = Some w)"
    using assms(1) [OF run] coherent_time [OF _ assms(2)] by (simp add: kv_good_def)
qed

lemma keeps_reads:
  assumes "T \<le> T'"
  shows "keeps_cell M d T T' db (on_kv (exists_kv now key))" "keeps_cell M d T T' db (on_kv (ttl_kv now key))"
    "keeps_cell M d T T' db (on_kv (scan_kv now pfx lim cursor))" "keeps_cell M d T T' db (on_kv (run_stmt (\<lambda>t. ((), t))))"
    "keeps_cell M d T T' db (on_user g)"
proof -
  have scan: "sys_kv c' = sys_kv c" if "scan_kv now pfx lim cursor c = (r, c')" for c c' :: "'u conn" and r
    using that by (auto simp: scan_kv_def op_defs Let_def SELECT_KEYS_def split: prod.splits sum.splits dest!: stmt_results)
  have probe: "sys_kv c' = sys_kv c" if "run_stmt (Pair ()) c = (r, c')" for c c' :: "'u conn" and r
    using that by (auto simp: run_stmt_def split: list.splits option.splits)
  show "keeps_cell M d T T' db (on_kv (exists_kv now key))" "keeps_cell M d T T' db (on_kv (ttl_kv now key))"
    "keeps_cell M d T T' db (on_kv (scan_kv now pfx lim cursor))" "keeps_cell M d T T' db (on_kv (run_stmt (\<lambda>t. ((), t))))"
    "keeps_cell M d T T' db (on_user g)"
    using assms scan probe
    by (auto intro!: keeps_static simp: on_kv_def on_user_def split: prod.splits sum.splits
        dest: exists_kv_result(1) ttl_kv_result(1) stmt_results)
qed

text \<open>The misses of an \<open>MGET\<close> are filled one after the other, each with its reading of the clock.\<close>

lemma mget_fill_step:
  "mget_fill L clock db keys (i # miss) out =
    try_then (try_then (on_kv (read_with_expiry (clock i) (keys ! i))) (\<lambda>row. case row of
        Some (v, e) \<Rightarrow> try_then (on_cache (cache_put (lb_moka L) db (keys ! i) v e)) (\<lambda>_. done_with (Some v))
      | None \<Rightarrow> done_with None))
    (\<lambda>x. mget_fill L clock db keys miss (case x of Some v \<Rightarrow> out[i := Some v] | None \<Rightarrow> out))"
  by (rule ext) (auto simp: op_defs split: sum.splits option.splits prod.splits)

lemma keeps_mget:
  assumes "moka_ok (lb_moka L)" "0 \<le> d" "sorted (T # map clock miss @ [T'])"
  shows "keeps_cell (lb_moka L) d T T' db (mget_fill L clock db keys miss out)"
  using assms(3)
proof (induction miss arbitrary: out T)
  case Nil
  then show ?case
    by (simp add: keeps_cell_done)
next
  case (Cons i miss)
  then show ?case
    unfolding mget_fill_step
    by (intro keeps_cell_then [where U = "clock i"] keeps_fill [OF assms(1,2)] Cons.IH) auto
qed

text \<open>The items of an \<open>MSET\<close>, each with its two readings.\<close>

fun in_order :: "int \<Rightarrow> int \<Rightarrow> int \<Rightarrow> ((int \<times> int) \<times> 'a) list \<Rightarrow> bool" where
  "in_order d T T' [] \<longleftrightarrow> T \<le> T'"
| "in_order d T T' (((t0, t1), _) # xs) \<longleftrightarrow> T \<le> t0 \<and> t0 \<le> t1 \<and> t1 \<le> t0 + d \<and> in_order d t1 T' xs"

lemma in_order_le: "in_order d T T' xs \<Longrightarrow> T \<le> T'"
  by (induction d T T' xs rule: in_order.induct) auto

lemma keeps_mset:
  assumes "moka_ok (lb_moka L)" "in_order d T T' items"
  shows "keeps_cell (lb_moka L) d T T' db (try_then
      (for_each (\<lambda>((t0, t1), it). write_key L t0 t1 db (si_key it) (si_value it) (si_ttl_seconds it) False False) items)
      (\<lambda>_. done_with ()))"
proof -
  have "keeps_cell (lb_moka L) d T T' db
      (for_each (\<lambda>((t0, t1), it). write_key L t0 t1 db (si_key it) (si_value it) (si_ttl_seconds it) False False) items)"
    using assms(2)
  proof (induction items arbitrary: T)
    case (Cons x items)
    obtain t0 t1 it where x: "x = ((t0, t1), it)"
      by (cases x) auto
    with Cons.prems have t: "T \<le> t0" "t0 \<le> t1" "t1 \<le> t0 + d" "in_order d t1 T' items"
      by simp_all
    show ?case
      unfolding for_each_seq x prod.case
      by (intro keeps_cell_then [where U = t1] keeps_cell_then [where U = T'] keeps_write [OF assms(1) t(1-3)]
          Cons.IH [OF t(4)] keeps_cell_done in_order_le [OF t(4)] order_refl)
  qed (simp add: keeps_cell_done for_each_seq)
  then show ?thesis
    by (intro keeps_cell_then keeps_cell_done) auto
qed

section \<open>The node\<close>

definition table_of :: "'u disk \<Rightarrow> database_id \<Rightarrow> kv_table" where
  "table_of dk db = (case cf_main (files_of dk db) of Some c \<Rightarrow> db_kv c | None \<Rightarrow> [])"

definition node_inv :: "'c moka \<Rightarrow> int \<Rightarrow> int \<Rightarrow> ('c, 'u) data_node \<Rightarrow> bool" where
  "node_inv M d T n \<longleftrightarrow> (\<forall>db. kv_inv (table_of (mg_disk (dn_mgr n)) db) \<and>
    coherent_cell M d T db (dn_cache n) (rows_of (table_of (mg_disk (dn_mgr n)) db)))"

lemma table_update [simp]:
  "table_of (AList.update k f dk) db = (if db = k then (case cf_main f of Some c \<Rightarrow> db_kv c | None \<Rightarrow> []) else table_of dk db)"
  by (simp add: table_of_def)

lemma table_open_db: "open_db sh dir u0 io dur db dk = (r, dk') \<Longrightarrow> table_of dk' k = table_of dk k"
  by (auto simp: open_db_def create_main_def table_of_def split: option.splits if_splits)

lemma table_manifest: "table_of (snd (write_manifest sh dir io db dk)) k = table_of dk k"
  by (auto simp: write_manifest_def table_of_def split: option.splits if_splits)

lemma table_ensure_conn:
  "ensure_conn sh u0 io db m = (r, m') \<Longrightarrow> table_of (mg_disk m') k = table_of (mg_disk m) k"
  by (cases rule: ensure_conn_cases) (auto simp: table_manifest dest: table_open_db)

lemma table_acquire [simp]: "mg_disk (acquire_lock io db m) = mg_disk m"
  by (simp add: acquire_lock_def lock_granted_def lock_enter_def Let_def)

lemma conn_table: "sys_kv (conn_of u0 io db m) = table_of (mg_disk m) db"
  by (simp add: conn_of_def table_of_def split: option.splits)

lemma store_table [simp]:
  "table_of (mg_disk (store_conn db c m)) k = (if k = db then sys_kv c else table_of (mg_disk m) k)"
  by (simp add: store_conn_def)

text \<open>An operation of the node that keeps its cache coherent from the time \<open>T\<close> to \<open>T'\<close>.\<close>

definition keeps_node :: "'c moka \<Rightarrow> int \<Rightarrow> int \<Rightarrow> int \<Rightarrow> (('c, 'u) data_node, 'a) op \<Rightarrow> bool" where
  "keeps_node M d T T' g \<longleftrightarrow> (\<forall>n r n'. node_inv M d T n \<longrightarrow> g n = (r, n') \<longrightarrow> node_inv M d T' n')"

lemma node_inv_later: "node_inv M d T n \<Longrightarrow> T \<le> T' \<Longrightarrow> node_inv M d T' n"
  unfolding node_inv_def using coherent_time by blast

lemma node_inv_static:
  assumes "node_inv M d T n" "\<And>db. table_of (mg_disk (dn_mgr n')) db = table_of (mg_disk (dn_mgr n)) db"
    "\<And>db k w. cached M (dn_cache n') db k = Some w \<Longrightarrow> cached M (dn_cache n) db k = Some w"
  shows "node_inv M d T n'"
  unfolding node_inv_def
proof (intro allI conjI)
  fix db
  show "kv_inv (table_of (mg_disk (dn_mgr n')) db)"
    using assms(1,2) by (simp add: node_inv_def)
  have "coherent_cell M d T db (dn_cache n) (rows_of (table_of (mg_disk (dn_mgr n)) db))"
    using assms(1) by (simp add: node_inv_def)
  then show "coherent_cell M d T db (dn_cache n') (rows_of (table_of (mg_disk (dn_mgr n')) db))"
    unfolding assms(2) by (rule coherent_fewer) (rule assms(3))
qed

lemma in_conn_keeps:
  assumes f: "keeps_cell (lb_moka L) d T T' db f" and "T \<le> T'"
  shows "keeps_node (lb_moka L) d T T' (in_conn L io db f)"
  unfolding keeps_node_def
proof (intro allI impI)
  fix n r n'
  assume inv: "node_inv (lb_moka L) d T n" and run: "in_conn L io db f n = (r, n')"
  obtain q m' kc' where q: "with_conn (lb_show L) (lb_empty L) io db f (dn_mgr n, dn_cache n) = (q, m', kc')"
    using prod_cases3 by blast
  have n': "n' = n\<lparr>dn_mgr := m', dn_cache := kc'\<rparr>"
    using run q by (simp add: in_conn_def)
  from q show "node_inv (lb_moka L) d T' n'"
  proof (cases rule: with_conn_cases)
    case (failed e)
    then have "node_inv (lb_moka L) d T n'"
      using n' table_ensure_conn [OF failed(1)] by (intro node_inv_static [OF inv]) simp_all
    then show ?thesis
      using assms(2) by (rule node_inv_later)
  next
    case (worked m1 c)
    let ?c = "conn_of (lb_empty L) io db m1"
    have t: "table_of (mg_disk m1) k = table_of (mg_disk (dn_mgr n)) k" for k
      using table_ensure_conn [OF worked(1)] by simp
    have "kv_good ?c" "coherent_cell (lb_moka L) d T db (dn_cache n) (rows_of (sys_kv ?c))"
      using inv by (simp_all add: node_inv_def conn_table t kv_good_def)
    note k = keeps_cellD [OF f this worked(2)]
    have "coherent_cell (lb_moka L) d T' db' kc' (rows_of (table_of (mg_disk (dn_mgr n)) db'))" if "db' \<noteq> db" for db'
      using inv coherent_fewer [OF coherent_time [OF _ assms(2)] k(3) [OF that]] by (simp add: node_inv_def)
    then show ?thesis
      using k(1,2) inv worked(3) n' t by (simp add: node_inv_def kv_good_def)
  qed
qed

lemma keeps_node_then:
  assumes "keeps_node M d T T f" "\<And>a. keeps_node M d T T' (g a)" "T \<le> T'"
  shows "keeps_node M d T T' (try_then f g)"
  using assms node_inv_later [OF _ assms(3)] unfolding keeps_node_def
  by (auto simp: try_then_def split: prod.splits sum.splits) blast+

lemma keeps_node_guard:
  assumes "\<And>n. snd (g n) = n"
  shows "keeps_node M d T T g"
  using assms unfolding keeps_node_def by (metis snd_conv)

lemma guards_static [simp]:
  "snd (check_generation L db gen n) = n" "snd (check_writable L db n) = n" "snd (check_ttl ttl n) = n"
  "snd (check_storage len v n) = n" "snd (check_sizes key v n) = n"
  by (auto simp: check_generation_def check_writable_def check_ttl_def check_storage_def check_sizes_def Let_def op_defs
      split: option.splits)

lemma guard_loop_static [simp]:
  "snd (for_each (\<lambda>(_, it). try_then (check_sizes (si_key it) (si_value it)) (\<lambda>_. check_ttl (si_ttl_seconds it))) items n) = n"
proof (rule for_each_keeps [where P = "\<lambda>s. s = n"], goal_cases)
  case (1 x s)
  show ?case
  proof (cases x)
    case (Pair t it)
    obtain q where "check_sizes (si_key it) (si_value it) n = (q, n)"
      using guards_static(5) [of "si_key it" "si_value it" n] by (metis prod.collapse)
    then show ?thesis
      using 1 Pair by (cases q) (simp_all add: try_then_def)
  qed
qed simp

section \<open>The operations of the node\<close>

lemma lookup_keeps:
  assumes "moka_ok (lb_moka L)" "keeps_node (lb_moka L) d T T' h" "T \<le> T'"
  shows "keeps_node (lb_moka L) d T T' (\<lambda>n. case cache_lookup L now db key n of
      (Some e, n) \<Rightarrow> (Inr (f e), n) | (None, n) \<Rightarrow> h n)"
  unfolding keeps_node_def
proof (intro allI impI)
  fix n r n'
  assume inv: "node_inv (lb_moka L) d T n"
    and run: "(case cache_lookup L now db key n of (Some e, n) \<Rightarrow> (Inr (f e), n) | (None, n) \<Rightarrow> h n) = (r, n')"
  obtain q kc where q: "cache_get (lb_moka L) db key now (dn_cache n) = (q, kc)"
    by fastforce
  have inv': "node_inv (lb_moka L) d T (n\<lparr>dn_cache := kc\<rparr>)"
    by (rule node_inv_static [OF inv]) (use cached_get(1) [OF assms(1) q] in simp_all)
  show "node_inv (lb_moka L) d T' n'"
  proof (cases q)
    case None
    then show ?thesis
      using run q inv' assms(2) unfolding keeps_node_def by (auto simp: cache_lookup_def)
  next
    case (Some e)
    then show ?thesis
      using run q node_inv_later [OF inv' assms(3)] by (simp add: cache_lookup_def)
  qed
qed

lemma mget_fast_keeps:
  assumes "moka_ok (lb_moka L)" "node_inv (lb_moka L) d T n" "mget_fast L now db keys n = (out, n')"
  shows "node_inv (lb_moka L) d T n'"
  using assms(2,3)
proof (induction keys arbitrary: n out)
  case (Cons k ks)
  obtain q kc where q: "cache_get (lb_moka L) db k now (dn_cache n) = (q, kc)"
    by fastforce
  have "node_inv (lb_moka L) d T (n\<lparr>dn_cache := kc\<rparr>)"
    by (rule node_inv_static [OF Cons.prems(1)]) (use cached_get(1) [OF assms(1) q] in simp_all)
  with Cons q show ?case
    by (auto simp: cache_lookup_def split: prod.splits)
qed simp

lemma timeout_keeps: "keeps_node M d T T' g \<Longrightarrow> keeps_node M d T T' (timeout_sql late g)"
  unfolding keeps_node_def timeout_sql_def by (auto split: option.splits if_splits prod.splits) (metis prod.collapse)+

lemmas guard_rules = keeps_node_then keeps_node_guard guards_static

lemma kv_reads_keep:
  assumes "moka_ok (lb_moka L)" "0 \<le> d"
  shows "T \<le> now2 \<Longrightarrow> keeps_node (lb_moka L) d T now2 (kv_get L io now0 now1 now2 db key)"
    "T \<le> T' \<Longrightarrow> keeps_node (lb_moka L) d T T' (kv_exists L io now0 now1 db key)"
    "T \<le> T' \<Longrightarrow> keeps_node (lb_moka L) d T T' (kv_ttl L io now0 now1 db key)"
    "T \<le> T' \<Longrightarrow> keeps_node (lb_moka L) d T T' (kv_scan L io now0 db pfx lim cursor)"
    "T \<le> T' \<Longrightarrow> keeps_node (lb_moka L) d T T' (ensure_database L io db)"
  unfolding kv_get_def kv_exists_def kv_ttl_def kv_scan_def ensure_database_def
  by (intro lookup_keeps [OF assms(1)] in_conn_keeps keeps_fill [OF assms] keeps_reads; assumption)+

lemma kv_mget_keeps:
  assumes "moka_ok (lb_moka L)" "0 \<le> d" "sorted (T # map clock (missing (fst (mget_fast L now db keys n))) @ [T'])"
    "node_inv (lb_moka L) d T n" "kv_mget L io now clock db keys n = (r, n')"
  shows "node_inv (lb_moka L) d T' n'"
proof -
  obtain out n1 where f: "mget_fast L now db keys n = (out, n1)"
    by fastforce
  note inv = mget_fast_keeps [OF assms(1,4) f]
  have le: "T \<le> T'"
    using assms(3) by simp
  have "keeps_node (lb_moka L) d T T' (in_conn L io db (mget_fill L clock db keys (missing out) out))"
    using assms(3) f by (intro in_conn_keeps keeps_mget [OF assms(1,2)] le) simp
  then show ?thesis
    using assms(5) f inv node_inv_later [OF inv le] unfolding keeps_node_def kv_mget_def
    by (auto simp: Let_def split: if_splits)
qed

lemma kv_writes_keep:
  assumes "moka_ok (lb_moka L)" "0 \<le> d"
  shows "T \<le> now0 \<Longrightarrow> now0 \<le> now1 \<Longrightarrow> now1 \<le> now0 + d \<Longrightarrow>
      keeps_node (lb_moka L) d T now1 (kv_set L io len now0 now1 db key v ttl nx xx gen)"
    "T \<le> T' \<Longrightarrow> keeps_node (lb_moka L) d T T' (kv_del L io db key gen)"
    "T \<le> T' \<Longrightarrow> keeps_node (lb_moka L) d T T' (kv_expire L io now0 now1 db key ttl gen)"
    "T \<le> now0 \<Longrightarrow> keeps_node (lb_moka L) d T now0 (kv_incr L io now0 db key delta ttl gen)"
    "in_order d T T' items \<Longrightarrow> keeps_node (lb_moka L) d T T' (kv_mset L io db items gen)"
  unfolding kv_set_def kv_del_def kv_expire_def kv_incr_def kv_mset_def
  by (intro guard_rules in_conn_keeps guard_loop_static keeps_write keeps_remove keeps_renew keeps_add keeps_mset assms(1);
      (assumption | erule in_order_le | linarith))+

lemma keeps_quota:
  "(\<And>q. keeps_node M d T T' (h q)) \<Longrightarrow> keeps_node M d T T' (\<lambda>n. timeout_sql late (h (dn_quota n)) n)"
  using timeout_keeps [of M d T T' "h _" late] unfolding keeps_node_def by blast

lemma sql_keeps:
  assumes "T \<le> T'"
  shows "keeps_node (lb_moka L) d T T' (node_execute_sql L io late db req gen)"
    "keeps_node (lb_moka L) d T T' (node_execute_transaction L io late db reqs gen)"
proof -
  have k: "keeps_node (lb_moka L) d T T' (\<lambda>n. timeout_sql late (in_conn L io db (on_user (g (dn_quota n)))) n)" for g
    by (rule keeps_quota [where h = "\<lambda>q. in_conn L io db (on_user (g q))"]) (intro in_conn_keeps keeps_reads assms)
  show "keeps_node (lb_moka L) d T T' (node_execute_sql L io late db req gen)"
    unfolding node_execute_sql_def
    by (intro guard_rules assms k [of "\<lambda>q. execute_sql_quota (lb_engine L) (lb_serde L) (Some q) req"])
  show "keeps_node (lb_moka L) d T T' (node_execute_transaction L io late db reqs gen)"
    unfolding node_execute_transaction_def
    by (intro guard_rules assms k [of "\<lambda>q. execute_transaction (lb_engine L) (lb_serde L) (Some q) reqs"])
qed

text \<open>The life of a cell: its entries leave the cache before its files do, or right after.\<close>

lemma node_inv_cleared:
  assumes "moka_ok M" "node_inv M d T n" "\<And>k. k \<noteq> db \<Longrightarrow> table_of (mg_disk m') k = table_of (mg_disk (dn_mgr n)) k"
    "kv_inv (table_of (mg_disk m') db)"
  shows "node_inv M d T (n\<lparr>dn_mgr := m', dn_cache := clear_database M db (dn_cache n)\<rparr>)"
  unfolding node_inv_def
proof (intro allI conjI)
  fix k
  let ?n = "n\<lparr>dn_mgr := m', dn_cache := clear_database M db (dn_cache n)\<rparr>"
  show "kv_inv (table_of (mg_disk (dn_mgr ?n)) k)"
    using assms(2-4) by (cases "k = db") (simp_all add: node_inv_def)
  show "coherent_cell M d T k (dn_cache ?n) (rows_of (table_of (mg_disk (dn_mgr ?n)) k))"
  proof (cases "k = db")
    case True
    then show ?thesis
      by (auto simp: coherent_cell_def dest: cached_clear [OF assms(1)])
  next
    case False
    then have "coherent_cell M d T k (dn_cache n) (rows_of (table_of (mg_disk m') k))"
      using assms(2,3) by (simp add: node_inv_def)
    then show ?thesis
      by (auto elim!: coherent_fewer dest: cached_clear [OF assms(1)])
  qed
qed

lemma remove_each_main:
  "remove_each fails err ss f = (r, f') \<Longrightarrow> cf_main f' = cf_main f \<or> cf_main f' = None"
proof (induction ss arbitrary: f)
  case (Cons s ss)
  then show ?case
    by (fastforce simp: Let_def split: if_splits option.splits)
qed simp

text \<open>Removing the files of a cell takes its database away or, when that fails, leaves it.\<close>

definition unlinked :: "database_id \<Rightarrow> 'u disk \<Rightarrow> 'u disk \<Rightarrow> bool" where
  "unlinked db dk dk' \<longleftrightarrow> (\<forall>k. table_of dk' k = table_of dk k \<or> k = db \<and> table_of dk' k = [])"

lemma files_removed:
  "remove_files sh dir io db dk = (r, dk') \<Longrightarrow> unlinked db dk dk'"
  "remove_cell_files io db m = (r, m') \<Longrightarrow> unlinked db (mg_disk m) (mg_disk m')"
  by (auto simp: remove_files_def remove_cell_files_def unlinked_def table_of_def Let_def simp del: remove_each.simps
      split: prod.splits option.splits if_splits dest!: remove_each_main)

lemma node_inv_unlinked:
  assumes "moka_ok M" "node_inv M d T n" "unlinked db (mg_disk (dn_mgr n)) (mg_disk m')"
  shows "node_inv M d T (n\<lparr>dn_mgr := m', dn_cache := clear_database M db (dn_cache n)\<rparr>)"
proof (rule node_inv_cleared [OF assms(1,2)])
  show "table_of (mg_disk m') k = table_of (mg_disk (dn_mgr n)) k" if "k \<noteq> db" for k
    using assms(3) that by (auto simp: unlinked_def)
  have "kv_inv (table_of (mg_disk (dn_mgr n)) db)" "kv_inv []"
    using assms(2) by (simp_all add: node_inv_def kv_inv_def)
  then show "kv_inv (table_of (mg_disk m') db)"
    using assms(3) by (auto simp: unlinked_def dest: spec [of _ db])
qed

lemma reset_keeps:
  assumes "moka_ok (lb_moka L)"
  shows "keeps_node (lb_moka L) d T T (node_reset_database L io db)"
  unfolding keeps_node_def
proof (intro allI impI)
  fix n r n'
  assume inv: "node_inv (lb_moka L) d T n" and run: "node_reset_database L io db n = (r, n')"
  obtain m where m: "close_database io db (dn_mgr n) = (Inr (), m)" "mg_disk m = mg_disk (dn_mgr n)"
    by (simp add: close_database_def Let_def)
  obtain q m' where q: "remove_cell_files io db m = (q, m')"
    by fastforce
  have "n' = n\<lparr>dn_mgr := m', dn_cache := clear_database (lb_moka L) db (dn_cache n)\<rparr>"
    using run m(1) q by (cases n) (auto simp: node_reset_database_def try_then_def on_mgr_def clear_cell_def)
  then show "node_inv (lb_moka L) d T n'"
    using node_inv_unlinked [OF assms inv] files_removed(2) [OF q] m(2) by simp
qed

lemma delete_keeps:
  assumes "moka_ok (lb_moka L)" "node_inv (lb_moka L) d T n" "node_delete_database L io db n = (Inr u, n')"
  shows "node_inv (lb_moka L) d T n'"
proof -
  obtain m' where m': "mgr_delete_database (lb_show L) io db (dn_mgr n) = (Inr (), m')"
    "n' = n\<lparr>dn_mgr := m', dn_cache := clear_database (lb_moka L) db (dn_cache n)\<rparr>"
    using assms(3) by (auto simp: node_delete_database_def try_then_def on_mgr_def clear_cell_def Let_def split: prod.splits sum.splits)
  obtain q dk where q: "remove_files (lb_show L) (mg_data_dir (acquire_lock io db (dn_mgr n))) io db (mg_disk (dn_mgr n)) = (q, dk)"
    by fastforce
  then have "mg_disk m' = dk"
    using m'(1) by (auto simp: mgr_delete_database_def Let_def split: sum.splits)
  then show ?thesis
    using node_inv_unlinked [OF assms(1,2)] files_removed(1) [OF q] m'(2) by simp
qed

text \<open>Garbage collection removes rows that are expired; their entries are about to.\<close>

lemma coherent_shown:
  assumes "coherent_cell M d T db kc m" "shown T' m' = shown T' m" "T \<le> T'"
  shows "coherent_cell M d T' db kc m'"
proof (rule coherent_cellI)
  fix k v e
  assume "cached M kc db k = Some (v, e)"
  with assms(1) show "(\<exists>x. m' k = Some (v, x) \<and> close d x e) \<or> (\<exists>b. e = Some b \<and> b \<le> T' + d)"
  proof (cases rule: coherent_cellD)
    case (row x)
    show ?thesis
    proof (cases "is_expired x T'")
      case True
      with row show ?thesis
        by (cases x) (auto simp: close_def is_expired_def)
    next
      case False
      then have "shown T' m' k = Some (v, x)"
        using row assms(2) by (simp add: shown_def)
      with row show ?thesis
        by (auto simp: shown_def split: option.splits if_splits)
    qed
  next
    case (fading b)
    with assms(3) show ?thesis
      by auto
  qed
qed

lemma gc_cell_keeps:
  assumes "node_inv M d T n" "snd (env db) \<le> T"
  shows "node_inv M d T (n\<lparr>dn_mgr := gc_cell u0 env db (dn_mgr n)\<rparr>)"
proof -
  obtain io wall where env: "env db = (io, wall)"
    by fastforce
  let ?t = "table_of (mg_disk (dn_mgr n)) db"
  let ?c = "snd (gc_expired wall 1000 (conn_of u0 io db (dn_mgr n)))"
  have inv: "kv_inv ?t" "coherent_cell M d T db (dn_cache n) (rows_of ?t)"
    using assms(1) by (simp_all add: node_inv_def)
  have "sys_kv ?c = ?t \<or> sys_kv ?c = snd (DELETE_EXPIRED wall 1000 ?t)"
    using stmt_results [of "DELETE_EXPIRED wall 1000" "conn_of u0 io db (dn_mgr n)" "fst (gc_expired wall 1000 (conn_of u0 io db (dn_mgr n)))" ?c]
    by (auto simp: gc_expired_def conn_table split: sum.splits)
  then have "kv_inv (sys_kv ?c)" "live T (sys_kv ?c) = live T ?t"
    using inv(1) DELETE_EXPIRED_live [OF inv(1), of wall T 1000] assms(2) env by auto
  then show ?thesis
    using assms(1) coherent_shown [OF inv(2), of T "rows_of (sys_kv ?c)"] env
    by (simp add: node_inv_def gc_cell_def shown_rows)
qed

lemma tick_keeps:
  assumes "node_inv M d T n" "\<forall>db. snd (env db) \<le> T'" "T \<le> T'"
  shows "node_inv M d T' (n\<lparr>dn_mgr := maintenance_tick u0 now env (dn_mgr n)\<rparr>)"
proof -
  have folds: "node_inv M d T' (k\<lparr>dn_mgr := fold (gc_cell u0 env) dbs (dn_mgr k)\<rparr>)" if "node_inv M d T' k" for dbs k
    using that
  proof (induction dbs arbitrary: k)
    case (Cons db dbs)
    have "node_inv M d T' (k\<lparr>dn_mgr := gc_cell u0 env db (dn_mgr k)\<rparr>)"
      using gc_cell_keeps [OF Cons.prems] assms(2) by blast
    from Cons.IH [OF this] show ?case
      by simp
  qed simp
  define idle where "idle = map fst (filter (\<lambda>(_, e). now - last_used e > mg_idle_timeout (dn_mgr n)) (mg_conns (dn_mgr n)))"
  have "node_inv M d T' (n\<lparr>dn_mgr := (dn_mgr n)\<lparr>mg_conns := fold AList.delete idle (mg_conns (dn_mgr n))\<rparr>\<rparr>)"
    by (rule node_inv_static [OF node_inv_later [OF assms(1,3)]]) simp_all
  from folds [OF this] show ?thesis
    by (simp add: maintenance_tick_def idle_def Let_def)
qed

section \<open>Every run of a node\<close>

text \<open>
  The steps of a node that serves requests, from the time \<open>T\<close> to \<open>T'\<close>: the readings of the wall clock
  do not go back, and the two readings of one write are at most \<open>d\<close> seconds apart.  A call that fails
  is a step too, except that a failed deletion of a cell is not.
\<close>

inductive node_step ::
  "('c, 'u, 'f, 'n) libs \<Rightarrow> int \<Rightarrow> int \<Rightarrow> ('c, 'u) data_node \<Rightarrow> int \<Rightarrow> ('c, 'u) data_node \<Rightarrow> bool" for L d where
  get: "T \<le> now2 \<Longrightarrow> kv_get L io now0 now1 now2 db key n = (r1, n') \<Longrightarrow> node_step L d T n now2 n'"
| exists: "T \<le> T' \<Longrightarrow> kv_exists L io now0 now1 db key n = (r2, n') \<Longrightarrow> node_step L d T n T' n'"
| mget: "sorted (T # map clock (missing (fst (mget_fast L now db keys n))) @ [T']) \<Longrightarrow>
    kv_mget L io now clock db keys n = (r3, n') \<Longrightarrow> node_step L d T n T' n'"
| ttl: "T \<le> T' \<Longrightarrow> kv_ttl L io now0 now1 db key n = (r4, n') \<Longrightarrow> node_step L d T n T' n'"
| scan: "T \<le> T' \<Longrightarrow> kv_scan L io now0 db pfx lim cursor n = (r5, n') \<Longrightarrow> node_step L d T n T' n'"
| set: "T \<le> now0 \<Longrightarrow> now0 \<le> now1 \<Longrightarrow> now1 \<le> now0 + d \<Longrightarrow>
    kv_set L io len now0 now1 db key v ttl nx xx gen n = (r6, n') \<Longrightarrow> node_step L d T n now1 n'"
| mset: "in_order d T T' items \<Longrightarrow> kv_mset L io db items gen n = (r7, n') \<Longrightarrow> node_step L d T n T' n'"
| del: "T \<le> T' \<Longrightarrow> kv_del L io db key gen n = (r8, n') \<Longrightarrow> node_step L d T n T' n'"
| expire: "T \<le> T' \<Longrightarrow> kv_expire L io now0 now1 db key ttl gen n = (r9, n') \<Longrightarrow> node_step L d T n T' n'"
| incr: "T \<le> now0 \<Longrightarrow> kv_incr L io now0 db key delta ttl gen n = (r10, n') \<Longrightarrow> node_step L d T n now0 n'"
| sql: "T \<le> T' \<Longrightarrow> node_execute_sql L io late db req gen n = (r11, n') \<Longrightarrow> node_step L d T n T' n'"
| transaction: "T \<le> T' \<Longrightarrow> node_execute_transaction L io late db reqs gen n = (r12, n') \<Longrightarrow> node_step L d T n T' n'"
| ensure: "T \<le> T' \<Longrightarrow> ensure_database L io db n = (r13, n') \<Longrightarrow> node_step L d T n T' n'"
| reset: "node_reset_database L io db n = (r14, n') \<Longrightarrow> node_step L d T n T n'"
| delete: "node_delete_database L io db n = (Inr u, n') \<Longrightarrow> node_step L d T n T n'"
| fence: "node_step L d T n T (fence_cell db gen n)"
| tick: "\<forall>db. snd (env db) \<le> T' \<Longrightarrow> T \<le> T' \<Longrightarrow>
    node_step L d T n T' (n\<lparr>dn_mgr := maintenance_tick (lb_empty L) now env (dn_mgr n)\<rparr>)"
| close_all: "node_step L d T n T (n\<lparr>dn_mgr := close_all (dn_mgr n)\<rparr>)"
| mark: "node_step L d T n T (n\<lparr>dn_mgr := mark_readonly db (dn_mgr n)\<rparr>)"
| stats: "node_step L d T n T (n\<lparr>dn_mgr := reset_lock_stats (dn_mgr n)\<rparr>)"

lemma node_step_keeps:
  assumes "moka_ok (lb_moka L)" "0 \<le> d" "node_step L d T n T' n'" "node_inv (lb_moka L) d T n"
  shows "node_inv (lb_moka L) d T' n'"
proof -
  have run: "keeps_node (lb_moka L) d T T' g \<Longrightarrow> g n = (r, n') \<Longrightarrow> node_inv (lb_moka L) d T' n'" for g :: "(_, 'x) op" and r
    using assms(4) unfolding keeps_node_def by blast
  note reads = kv_reads_keep [OF assms(1,2)] and writes = kv_writes_keep [OF assms(1,2)]
  have same: "node_inv (lb_moka L) d T (n\<lparr>dn_mgr := m\<rparr>)" if "mg_disk m = mg_disk (dn_mgr n)" for m
    by (rule node_inv_static [OF assms(4)]) (simp_all add: that)
  from assms(3) show ?thesis
  proof cases
    case mget
    then show ?thesis
      using kv_mget_keeps [OF assms(1,2) _ assms(4)] by blast
  next
    case delete
    then show ?thesis
      using delete_keeps [OF assms(1,4)] by simp
  next
    case fence
    then show ?thesis
      using assms(4) by (simp add: fence_cell_def node_inv_def)
  next
    case reset
    then show ?thesis
      using reset_keeps [OF assms(1)] assms(4) unfolding keeps_node_def by blast
  next
    case tick
    then show ?thesis
      using tick_keeps [OF assms(4)] by simp
  qed (auto intro: run reads writes sql_keeps same
      simp: close_all_def mark_readonly_def reset_lock_stats_def)
qed

inductive node_reachable ::
  "('c, 'u, 'f, 'n) libs \<Rightarrow> int \<Rightarrow> ('c, 'u) data_node \<Rightarrow> int \<Rightarrow> ('c, 'u) data_node \<Rightarrow> bool" for L d n0 where
  start: "node_reachable L d n0 T n0"
| step: "node_reachable L d n0 T n \<Longrightarrow> node_step L d T n T' n' \<Longrightarrow> node_reachable L d n0 T' n'"

lemma node_new_inv:
  assumes "moka_ok (lb_moka L)" "\<And>db. kv_inv (table_of dk db)"
  shows "node_inv (lb_moka L) d T (node_new L cfg dk)"
  using assms by (simp add: node_inv_def node_new_def mgr_new_def coherent_cell_def cached_new)

lemma node_reachable_inv:
  assumes "moka_ok (lb_moka L)" "0 \<le> d" "\<And>db. kv_inv (table_of dk db)"
    "node_reachable L d (node_new L cfg dk) T n"
  shows "node_inv (lb_moka L) d T n"
  using assms(4)
  by (induction rule: node_reachable.induct) (blast intro: node_new_inv assms(1,3) node_step_keeps [OF assms(1,2)])+


text \<open>A node with an exact cache, and a write and a read on it.\<close>

definition exact_libs :: "((cache_key \<times> cached_value) list, nat \<times> nat option, unit, int) libs" where
  "exact_libs = \<lparr>lb_moka = map_moka, lb_show = uuid_dec, lb_debug = id, lb_empty = (0, None), lb_engine = counter_engine, lb_serde = int_serde\<rparr>"

definition written_items :: "((int \<times> int) \<times> kv_set_item) list" where
  "written_items = [((100, 101), \<lparr>si_key = ''k'', si_value = ''v'', si_ttl_seconds = Some 10\<rparr>)]"

definition written_node :: "((cache_key \<times> cached_value) list, nat \<times> nat option) data_node" where
  "written_node = snd (kv_mset exact_libs (calm 1) (DatabaseId 1) written_items 0 (node_new exact_libs small_config []))"

lemma written_node_eval:
  "fst (cache_lookup exact_libs 105 (DatabaseId 1) ''k'' written_node) = Some \<lparr>ke_value = ''v'', ke_ttl_seconds = Some 6\<rparr>"
  "live 104 (table_of (mg_disk (dn_mgr written_node)) (DatabaseId 1)) ''k'' = Some (''v'', Some 110)"
  by code_simp+

lemma written_node_reachable: "node_reachable exact_libs 1 (node_new exact_libs small_config []) 101 written_node"
proof -
  obtain r where "kv_mset exact_libs (calm 1) (DatabaseId 1) written_items 0 (node_new exact_libs small_config []) = (r, written_node)"
    unfolding written_node_def by (metis prod.collapse)
  then have "node_step exact_libs 1 100 (node_new exact_libs small_config []) 101 written_node"
    by (rule node_step.mset [rotated]) (simp add: written_items_def)
  then show ?thesis
    by (rule node_reachable.step [OF node_reachable.start])
qed

lemma exact_libs_cache: "moka_ok (lb_moka exact_libs)"
  by (simp add: exact_libs_def map_moka_ok)

lemma no_disk_inv: "kv_inv (table_of [] db)"
  by (simp add: table_of_def files_of_def no_files_def kv_inv_def)


text \<open>
  C28: The KV table of every cell keeps its type. On a data node that started from well-formed tables
  and has served any sequence of requests, failed ones included, each cell's table has one row per
  key, no row with the empty key, and in each row a version of at least 1.
\<close>

theorem kv_tables_typed:
  assumes "moka_ok (lb_moka L)" "0 \<le> d" "\<And>db. kv_inv (table_of dk db)" "node_reachable L d (node_new L cfg dk) T n"
  shows "distinct (map fst (table_of (mg_disk (dn_mgr n)) db))
    \<and> (\<forall>key row. map_of (table_of (mg_disk (dn_mgr n)) db) key = Some row \<longrightarrow> key \<noteq> [] \<and> 1 \<le> kv_version row)"
proof -
  have inv: "kv_inv (table_of (mg_disk (dn_mgr n)) db)"
    using node_reachable_inv [OF assms] by (simp add: node_inv_def)
  then have "distinct (map fst (table_of (mg_disk (dn_mgr n)) db))"
    unfolding kv_inv_def by blast
  then show ?thesis
    using kv_inv_key [OF inv] kv_inv_version [OF inv] by blast
qed

theorem kv_tables_typed_witness:
  "\<exists>row. map_of (table_of (mg_disk (dn_mgr written_node)) (DatabaseId 1)) ''k'' = Some row \<and> 1 \<le> kv_version row"
proof -
  obtain row where "map_of (table_of (mg_disk (dn_mgr written_node)) (DatabaseId 1)) ''k'' = Some row"
    using written_node_eval(2) by (auto simp: live_def split: option.splits)
  then show ?thesis
    using kv_tables_typed [OF exact_libs_cache _ no_disk_inv written_node_reachable, of "DatabaseId 1"] by auto
qed

end
