(* ===== verification/Node_Guards.thy ===== *)
theory Node_Guards
  imports Node_Coherence
begin

text \<open>
  Who may write to a cell: a writer with an old generation is fenced off, and a cell whose database
  could not be opened takes no more writes.
\<close>

section \<open>Writing calls\<close>

text \<open>The calls of the node's interface that carry a generation.\<close>

datatype 'n write_call =
    CallSet "nat option" int int str str "nat option" bool bool
  | CallDel str
  | CallMset "((int \<times> int) \<times> kv_set_item) list"
  | CallExpire int int str "nat option"
  | CallIncr int str int "nat option"
  | CallSql bool "'n sql_request"
  | CallTransaction bool "'n sql_request list"

definition outcome :: "'a result \<times> 's \<Rightarrow> unit result \<times> 's" where
  "outcome x = (case x of (Inl e, s) \<Rightarrow> (Inl e, s) | (Inr _, s) \<Rightarrow> (Inr (), s))"

fun call_write ::
  "('c, 'u, 'f, 'n) libs \<Rightarrow> io_env \<Rightarrow> database_id \<Rightarrow> int \<Rightarrow> 'n write_call \<Rightarrow> (('c, 'u) data_node, unit) op" where
  "call_write L io db gen (CallSet len now0 now1 key v ttl nx xx) n = outcome (kv_set L io len now0 now1 db key v ttl nx xx gen n)"
| "call_write L io db gen (CallDel key) n = outcome (kv_del L io db key gen n)"
| "call_write L io db gen (CallMset items) n = outcome (kv_mset L io db items gen n)"
| "call_write L io db gen (CallExpire now0 now1 key ttl) n = outcome (kv_expire L io now0 now1 db key ttl gen n)"
| "call_write L io db gen (CallIncr now key delta ttl) n = outcome (kv_incr L io now db key delta ttl gen n)"
| "call_write L io db gen (CallSql late req) n = outcome (node_execute_sql L io late db req gen n)"
| "call_write L io db gen (CallTransaction late reqs) n = outcome (node_execute_transaction L io late db reqs gen n)"

lemmas call_defs = kv_set_def kv_del_def kv_mset_def kv_expire_def kv_incr_def node_execute_sql_def node_execute_transaction_def

text \<open>The generation is checked before anything else.\<close>

lemma call_stale:
  assumes "gen \<noteq> current_generation n db"
  shows "call_write L io db gen w n = (Inl (Forbidden (''cell '' @ lb_show L (db_uuid db) @ '' fenced: write generation ''
    @ show_int gen @ '' != current '' @ show_int (current_generation n db))), n)"
  using assms by (cases w) (simp_all add: outcome_def call_defs try_then_def check_generation_def Let_def)

section \<open>What no request changes\<close>

text \<open>
  A relation between the node before and after a request that every use of a connection and of the
  cache respects: the locale carries it through the guards, the lookups and the work of all requests.
\<close>

definition within :: "('s \<Rightarrow> 's \<Rightarrow> bool) \<Rightarrow> ('s, 'a) op \<Rightarrow> bool" where
  "within R g \<longleftrightarrow> (\<forall>s r s'. g s = (r, s') \<longrightarrow> R s s')"

lemma with_conn_readonly:
  assumes "with_conn sh u0 io db f (m, x) = (r, m', x')"
  shows "mg_readonly m \<subseteq> mg_readonly m'"
proof -
  have ro: "mg_readonly (acquire_lock io db m) = mg_readonly m"
    by (simp add: acquire_lock_def lock_granted_def lock_enter_def Let_def)
  have en: "mg_readonly m \<subseteq> mg_readonly m1" if "ensure_conn sh u0 io db (acquire_lock io db m) = (q, m1)" for q m1
    using that by (cases rule: ensure_conn_cases) (auto simp: ro)
  from assms show ?thesis
    by (cases rule: with_conn_cases) (auto dest: en simp: store_conn_def)
qed

locale node_frame =
  fixes R :: "('c, 'u) data_node \<Rightarrow> ('c, 'u) data_node \<Rightarrow> bool"
  assumes same: "R n n"
    and chain: "R n n' \<Longrightarrow> R n' n'' \<Longrightarrow> R n n''"
    and work: "mg_readonly (dn_mgr n) \<subseteq> mg_readonly m \<Longrightarrow> R n (n\<lparr>dn_mgr := m, dn_cache := kc\<rparr>)"
begin

lemma within_then: "within R f \<Longrightarrow> (\<And>a. within R (g a)) \<Longrightarrow> within R (try_then f g)"
  unfolding within_def try_then_def by (fastforce intro: chain split: prod.splits sum.splits)

lemma within_guard: "(\<And>n. snd (g n) = n) \<Longrightarrow> within R g"
  unfolding within_def using same by (metis snd_conv)

lemma within_in_conn: "within R (in_conn L io db f)"
  unfolding within_def
proof (intro allI impI)
  fix n r n'
  assume run: "in_conn L io db f n = (r, n')"
  obtain q m kc where q: "with_conn (lb_show L) (lb_empty L) io db f (dn_mgr n, dn_cache n) = (q, m, kc)"
    using prod_cases3 by blast
  then show "R n n'"
    using run work [OF with_conn_readonly [OF q]] by (auto simp: in_conn_def)
qed

lemma within_sql: "within R (\<lambda>n. timeout_sql late (in_conn L io db (on_user (g (dn_quota n)))) n)"
proof -
  have "R n (snd (in_conn L io db f n))" for f :: "(_, 'x) op" and n
    using within_in_conn [of L io db f] unfolding within_def by (metis prod.collapse)
  then show ?thesis
    by (auto simp: within_def timeout_sql_def split: option.splits if_splits) (metis snd_conv)+
qed

lemma within_lookup:
  assumes "within R h"
  shows "within R (\<lambda>n. case cache_lookup L now db key n of (Some e, n) \<Rightarrow> (Inr (f e), n) | (None, n) \<Rightarrow> h n)"
proof -
  have "R n (n\<lparr>dn_cache := kc\<rparr>)" for n kc
    using work [of n "dn_mgr n" kc] by simp
  then show ?thesis
    using assms unfolding within_def cache_lookup_def
    by (auto split: prod.splits option.splits) (blast intro: chain)
qed

lemma within_writes:
  "within R (kv_set L io len now0 now1 db key v ttl nx xx gen)" "within R (kv_del L io db key gen)"
  "within R (kv_mset L io db items gen)" "within R (kv_expire L io now0 now1 db key ttl gen)"
  "within R (kv_incr L io now db key delta ttl gen)" "within R (node_execute_sql L io late db req gen)"
  "within R (node_execute_transaction L io late db reqs gen)"
  unfolding call_defs
  by (intro within_then within_guard guards_static guard_loop_static within_in_conn
      within_sql [of late L io db "\<lambda>q. execute_sql_quota (lb_engine L) (lb_serde L) (Some q) req"]
      within_sql [of late L io db "\<lambda>q. execute_transaction (lb_engine L) (lb_serde L) (Some q) reqs"])+

lemma within_reads:
  "within R (kv_get L io now0 now1 now2 db key)" "within R (kv_exists L io now0 now1 db key)"
  "within R (kv_ttl L io now0 now1 db key)" "within R (kv_scan L io now0 db pfx lim cursor)"
  "within R (ensure_database L io db)"
  unfolding kv_get_def kv_exists_def kv_ttl_def kv_scan_def ensure_database_def
  by (intro within_lookup within_in_conn)+

lemma within_outcome: "within R g \<Longrightarrow> outcome (g n) = (r, n') \<Longrightarrow> R n n'"
  unfolding within_def outcome_def by (fastforce split: prod.splits sum.splits)

lemma call_within: "call_write L io db gen w n = (r, n') \<Longrightarrow> R n n'"
  by (cases w) (auto dest: within_outcome [OF within_writes(1)] within_outcome [OF within_writes(2)]
      within_outcome [OF within_writes(3)] within_outcome [OF within_writes(4)] within_outcome [OF within_writes(5)]
      within_outcome [OF within_writes(6)] within_outcome [OF within_writes(7)])

end

interpretation gens: node_frame "\<lambda>n n'. dn_generations n' = dn_generations n"
  by unfold_locales auto

interpretation readonly: node_frame "\<lambda>n n'. mg_readonly (dn_mgr n) \<subseteq> mg_readonly (dn_mgr n')"
  by unfold_locales auto

section \<open>Fencing\<close>

fun call_writes ::
  "('c, 'u, 'f, 'n) libs \<Rightarrow> (io_env \<times> database_id \<times> int \<times> 'n write_call) list \<Rightarrow> ('c, 'u) data_node \<Rightarrow> ('c, 'u) data_node" where
  "call_writes L [] n = n"
| "call_writes L ((io, db, gen, w) # ws) n = call_writes L ws (snd (call_write L io db gen w n))"

fun entitled :: "database_id \<Rightarrow> int \<Rightarrow> io_env \<times> database_id \<times> int \<times> 'n write_call \<Rightarrow> bool" where
  "entitled db g (io, db', gen, w) \<longleftrightarrow> (if db' = db then gen = g else True)"

text \<open>
  C4: Fencing cuts an old owner of a cell off completely. Once the cell is fenced at the generation
  \<open>g\<close>, in any interleaving of writing calls from any number of callers, those that carry another
  generation for this cell leave no trace: the node ends in the state it would be in had they never
  been made.  That state covers the databases, the cache and the pool of connections.
\<close>

theorem fenced_writers_no_effect:
  "call_writes L ws (fence_cell db g n) =
    call_writes L (filter (entitled db g) ws) (fence_cell db g n)"
proof -
  have "call_writes L ws k = call_writes L (filter (entitled db g) ws) k"
    if "current_generation k db = g" for k
    using that
  proof (induction ws arbitrary: k)
    case (Cons x ws)
    obtain io db' gen w where x: "x = (io, db', gen, w)"
      by (cases x)
    have gens: "current_generation (snd (call_write L io db' gen w k)) db = g"
      using gens.call_within [of L io db' gen w k] Cons.prems by (simp add: current_generation_def prod_eq_iff)
    show ?case
    proof (cases "db' = db \<and> gen \<noteq> g")
      case True
      then have "snd (call_write L io db' gen w k) = k"
        using call_stale [of gen k db L io w] Cons.prems by simp
      then show ?thesis
        using Cons True x by simp
    next
      case False
      then show ?thesis
        using Cons.IH [OF gens] x by auto
    qed
  qed simp
  then show ?thesis
    by (simp add: fence_cell_def current_generation_def map_of_update)
qed

section \<open>Read-only cells\<close>

text \<open>A cell marked read-only refuses every writing call, and the call leaves no trace.\<close>

lemma call_readonly:
  assumes "is_readonly (dn_mgr n) db"
  shows "\<exists>e. call_write L io db gen w n = (Inl e, n)"
proof -
  have w: "check_writable L db n = (Inl (Internal (''cell '' @ lb_show L (db_uuid db)
      @ '' is read-only (integrity check failed); contact operator to restore from backup'')), n)"
    using assms by (simp add: check_writable_def)
  obtain q where g: "check_generation L db gen n = (q, n)"
    using guards_static(1) [of L db gen n] by (metis prod.collapse)
  have t: "\<exists>p. check_ttl ttl n = (p, n)" for ttl
    using guards_static(3) [of ttl n] by (metis prod.collapse)
  show ?thesis
  proof (cases q)
    case (Inl e)
    then show ?thesis
      by (cases w) (simp_all add: outcome_def call_defs try_then_def g)
  next
    case (Inr u)
    note run = outcome_def call_defs try_then_def g Inr w
    show ?thesis
    proof (cases w)
      case (CallExpire now0 now1 key ttl)
      obtain p where p: "check_ttl ttl n = (p, n)"
        using t by blast
      show ?thesis
        by (cases p) (simp_all add: CallExpire run p)
    next
      case (CallIncr now key delta ttl)
      obtain p where p: "check_ttl ttl n = (p, n)"
        using t by blast
      show ?thesis
        by (cases p) (simp_all add: CallIncr run p)
    qed (simp_all add: run)
  qed
qed

lemma mget_fast_mgr: "mget_fast L now db keys n = (out, n') \<Longrightarrow> dn_mgr n' = dn_mgr n"
  by (induction keys arbitrary: n out) (auto simp: cache_lookup_def split: prod.splits)

lemma kv_mget_readonly:
  assumes "kv_mget L io now clock db keys n = (r, n')"
  shows "mg_readonly (dn_mgr n) \<subseteq> mg_readonly (dn_mgr n')"
proof -
  obtain out n1 where f: "mget_fast L now db keys n = (out, n1)"
    by fastforce
  have "n' = n1 \<or> in_conn L io db (mget_fill L clock db keys (missing out) out) n1 = (r, n')"
    using assms f by (auto simp: kv_mget_def Let_def split: if_splits)
  then show ?thesis
    using readonly.within_in_conn mget_fast_mgr [OF f] unfolding within_def by fastforce
qed

lemma mgr_readonly:
  "mg_readonly (maintenance_tick u0 now env m) = mg_readonly m"
  "remove_cell_files io db m = (r, m') \<Longrightarrow> mg_readonly m' = mg_readonly m"
  "close_database io db m = (r, m') \<Longrightarrow> mg_readonly m' = mg_readonly m"
  "mgr_delete_database sh io db m = (r, m') \<Longrightarrow> mg_readonly m' = mg_readonly m"
proof -
  have "mg_readonly (fold (gc_cell u0 env) dbs k) = mg_readonly k" for dbs k
    by (induction dbs arbitrary: k) (simp_all add: gc_cell_def store_conn_def split: prod.splits)
  then show "mg_readonly (maintenance_tick u0 now env m) = mg_readonly m"
    by (simp add: maintenance_tick_def Let_def)
  have lock: "mg_readonly (acquire_lock io db m) = mg_readonly m"
    by (simp add: acquire_lock_def lock_granted_def lock_enter_def Let_def)
  show "remove_cell_files io db m = (r, m') \<Longrightarrow> mg_readonly m' = mg_readonly m"
    by (auto simp: remove_cell_files_def simp del: remove_each.simps split: prod.splits)
  show "close_database io db m = (r, m') \<Longrightarrow> mg_readonly m' = mg_readonly m"
    using lock by (auto simp: close_database_def Let_def)
  show "mgr_delete_database sh io db m = (r, m') \<Longrightarrow> mg_readonly m' = mg_readonly m"
    using lock by (auto simp: mgr_delete_database_def Let_def split: prod.splits sum.splits)
qed

lemma readonly_on_mgr:
  assumes "\<And>m r m'. f m = (r, m') \<Longrightarrow> mg_readonly m' = mg_readonly m"
  shows "within (\<lambda>n n'. mg_readonly (dn_mgr n) \<subseteq> mg_readonly (dn_mgr n')) (on_mgr f)"
  unfolding within_def on_mgr_def by (auto split: prod.splits dest: assms)

lemma readonly_clear: "within (\<lambda>n n'. mg_readonly (dn_mgr n) \<subseteq> mg_readonly (dn_mgr n')) (clear_cell L db)"
  by (auto simp: within_def clear_cell_def)

lemma reset_delete_readonly:
  "within (\<lambda>n n'. mg_readonly (dn_mgr n) \<subseteq> mg_readonly (dn_mgr n')) (node_reset_database L io db)"
  "within (\<lambda>n n'. mg_readonly (dn_mgr n) \<subseteq> mg_readonly (dn_mgr n')) (node_delete_database L io db)"
  unfolding node_reset_database_def node_delete_database_def
  by (intro readonly.within_then readonly_on_mgr readonly_clear mgr_readonly(2-4); assumption)+

lemma node_step_readonly:
  assumes "node_step L d T n T' n'"
  shows "mg_readonly (dn_mgr n) \<subseteq> mg_readonly (dn_mgr n')"
proof -
  have run: "within (\<lambda>n n'. mg_readonly (dn_mgr n) \<subseteq> mg_readonly (dn_mgr n')) g \<Longrightarrow> g n = (r, n') \<Longrightarrow> ?thesis"
    for g :: "(_, 'x) op" and r
    unfolding within_def by blast
  show ?thesis
    using assms
    by cases (auto dest: kv_mget_readonly run [OF reset_delete_readonly(1)] run [OF reset_delete_readonly(2)]
        run [OF readonly.within_reads(1)] run [OF readonly.within_reads(2)] run [OF readonly.within_reads(3)]
        run [OF readonly.within_reads(4)] run [OF readonly.within_reads(5)] run [OF readonly.within_writes(1)]
        run [OF readonly.within_writes(2)] run [OF readonly.within_writes(3)] run [OF readonly.within_writes(4)]
        run [OF readonly.within_writes(5)] run [OF readonly.within_writes(6)] run [OF readonly.within_writes(7)]
        simp: fence_cell_def mgr_readonly(1) close_all_def mark_readonly_def reset_lock_stats_def)
qed


text \<open>The disk is full while the cell is created; later it is not.\<close>

definition full_disk :: io_env where
  "full_disk = (calm 1)\<lparr>io_fail := (\<lambda>s. if s = ''create_dir'' then Some ''No space left on device'' else None)\<rparr>"


end
