(* ===== verification/Backup.thy ===== *)
theory Backup
  imports Node_Guards
begin

text \<open>
  Backups of a cell (\<open>data-node/src/backup.rs\<close> and the backup part of \<open>data-node/src/lib.rs\<close>): full
  snapshots, incremental archives of the main file and its write-ahead log, restoring and the
  replica's catching up.  The object store and what SQLite writes into a file are code outside the
  sources: \<open>object_store\<close> holds the calls to the former, \<open>image\<close> the bytes of the latter, of type \<open>'b\<close>.  The
  operations act on the node and the state of the store.  Temporary files live only within one
  operation, so their content is passed on directly; each call to the operating system can fail as
  \<open>io_env\<close> says.
\<close>

section \<open>Object store and database images\<close>

record ('o, 'b) object_store =
  os_path :: "str \<Rightarrow> str"
  os_put :: "str \<Rightarrow> 'b \<Rightarrow> 'o \<Rightarrow> (str + unit) \<times> 'o"
  os_get :: "'o \<Rightarrow> str \<Rightarrow> str + 'b"
  os_list :: "'o \<Rightarrow> str \<Rightarrow> str + str list"

text \<open>
  \<open>im_vacuum\<close> is the file \<open>VACUUM INTO\<close> writes; \<open>im_files\<close> are the main file and the log of a database,
  which differ with the checkpoints made so far; \<open>im_read\<close> is the content SQLite finds when it opens
  a main file next to a log.
\<close>

record ('u, 'b) image =
  im_vacuum :: "'u cell_db \<Rightarrow> 'b"
  im_files :: "nat \<Rightarrow> 'u cell_db \<Rightarrow> 'b \<times> 'b option"
  im_read :: "'b \<Rightarrow> 'b option \<Rightarrow> 'u cell_db"
  im_len :: "'b \<Rightarrow> nat"
  im_sha256 :: "'b \<Rightarrow> nat list"

record backup_info =
  bi_key :: str
  bi_size_bytes :: nat
  bi_created_at :: nat
  bi_checksum :: "str option"

text \<open>A step that may fail with a prefix to the text of the system's error.\<close>

definition step_or :: "io_env \<Rightarrow> str \<Rightarrow> str \<Rightarrow> ('s, unit) op" where
  "step_or io what msg = (case io_fail io what of Some e \<Rightarrow> raise (Internal (msg @ e)) | None \<Rightarrow> done_with ())"

definition from_store :: "str \<Rightarrow> ('o \<Rightarrow> str + 'a) \<Rightarrow> ('n \<times> 'o, 'a) op" where
  "from_store msg f = (\<lambda>(n, ob). (case f ob of Inl e \<Rightarrow> Inl (Internal (msg @ e)) | Inr a \<Rightarrow> Inr a, n, ob))"

definition into_store :: "str \<Rightarrow> ('o \<Rightarrow> (str + unit) \<times> 'o) \<Rightarrow> ('n \<times> 'o, unit) op" where
  "into_store msg f = (\<lambda>(n, ob). case f ob of (Inl e, ob) \<Rightarrow> (Inl (Internal (msg @ e)), n, ob) | (Inr _, ob) \<Rightarrow> (Inr (), n, ob))"

definition on_node :: "('n, 'a) op \<Rightarrow> ('n \<times> 'o, 'a) op" where
  "on_node f = (\<lambda>(n, ob). let (r, n) = f n in (r, n, ob))"

section \<open>Full snapshots\<close>

definition backup_prefix :: "('o, 'b) object_store \<Rightarrow> (uuid \<Rightarrow> str) \<Rightarrow> database_id \<Rightarrow> str" where
  "backup_prefix S sh db = os_path S (''backups/'' @ sh (db_uuid db) @ ''/'')"

definition sha256_hex :: "('u, 'b) image \<Rightarrow> 'b \<Rightarrow> str" where
  "sha256_hex im b = hex_bytes (im_sha256 im b)"

text \<open>\<open>ts_ms\<close> is the time in milliseconds, \<open>drawn\<close> the drawn identifier, \<open>now\<close> the later reading in seconds.\<close>

definition upload_snapshot ::
  "('o, 'b) object_store \<Rightarrow> ('u, 'b) image \<Rightarrow> (uuid \<Rightarrow> str) \<Rightarrow> io_env \<Rightarrow> nat \<Rightarrow> uuid \<Rightarrow> int \<Rightarrow> database_id \<Rightarrow> 'b \<Rightarrow> ('n \<times> 'o, backup_info) op" where
  "upload_snapshot S im sh io ts_ms drawn now db snap =
    try_then (step_or io ''snapshot metadata'' ''snapshot metadata: '') (\<lambda>_.
    try_then (step_or io ''snapshot read'' ''snapshot read: '') (\<lambda>_.
      let key = os_path S (''backups/'' @ sh (db_uuid db) @ ''/'' @ show_nat ts_ms @ ''-'' @ sh drawn @ ''.sqlite'') in
      try_then (into_store ''upload backup: '' (os_put S key snap)) (\<lambda>_.
        done_with \<lparr>bi_key = key, bi_size_bytes = im_len im snap, bi_created_at = nat (max now 0),
          bi_checksum = Some (sha256_hex im snap)\<rparr>)))"

definition list_snapshots :: "('o, 'b) object_store \<Rightarrow> (uuid \<Rightarrow> str) \<Rightarrow> database_id \<Rightarrow> ('n \<times> 'o, str list) op" where
  "list_snapshots S sh db = from_store ''list backups: '' (\<lambda>ob. map_sum id sort (os_list S ob (backup_prefix S sh db)))"

text \<open>The bytes that end up in the file; \<open>what\<close> tells the main file from the log.\<close>

definition download_snapshot ::
  "('o, 'b) object_store \<Rightarrow> io_env \<Rightarrow> str \<Rightarrow> str \<Rightarrow> str \<Rightarrow> ('n \<times> 'o, 'b) op" where
  "download_snapshot S io parent what key =
    try_then (from_store (''download backup '' @ key @ '': '') (\<lambda>ob. os_get S ob key)) (\<lambda>b.
    try_then (step_or io (''create dir '' @ what) (''create dir '' @ parent @ '': '')) (\<lambda>_.
    try_then (step_or io (''write '' @ what) ''write snapshot: '') (\<lambda>_.
    try_then (step_or io (''rename '' @ what) ''atomic replace: '') (\<lambda>_. done_with b))))"

section \<open>Incremental archives\<close>

definition incr_prefix :: "('o, 'b) object_store \<Rightarrow> (uuid \<Rightarrow> str) \<Rightarrow> database_id \<Rightarrow> str" where
  "incr_prefix S sh db = os_path S (''backups/'' @ sh (db_uuid db) @ ''/incr/'')"

text \<open>What follows the first occurrence of a pattern.\<close>

fun after_first :: "str \<Rightarrow> str \<Rightarrow> str option" where
  "after_first pat [] = (if pat = [] then Some [] else None)"
| "after_first pat (c # cs) =
    (if starts_with (c # cs) pat then Some (drop (length pat) (c # cs)) else after_first pat cs)"

definition parse_u128 :: "str \<Rightarrow> nat option" where
  "parse_u128 s =
    (let ds = (case s of c # cs \<Rightarrow> if c = CHR ''+'' then cs else s | [] \<Rightarrow> [])
     in if ds = [] then None
        else (case parse_digits 0 ds of None \<Rightarrow> None | Some n \<Rightarrow> if n < 2 ^ 128 then Some n else None))"

definition parse_rev :: "str \<Rightarrow> nat option" where
  "parse_rev name = (case after_first ''snapshot-'' name of
      Some rest \<Rightarrow> parse_u128 (hd (split_on (CHR ''.'') rest))
    | None \<Rightarrow> (case after_first ''wal-'' name of
        Some rest \<Rightarrow> parse_u128 (hd (split_on (CHR ''.'') rest))
      | None \<Rightarrow> None))"

definition snap_key :: "(uuid \<Rightarrow> str) \<Rightarrow> database_id \<Rightarrow> nat \<Rightarrow> str" where
  "snap_key sh db rv = ''backups/'' @ sh (db_uuid db) @ ''/incr/snapshot-'' @ show_nat rv @ ''.sqlite''"

definition wal_key :: "(uuid \<Rightarrow> str) \<Rightarrow> database_id \<Rightarrow> nat \<Rightarrow> str" where
  "wal_key sh db rv = ''backups/'' @ sh (db_uuid db) @ ''/incr/wal-'' @ show_nat rv @ ''.sqlite-wal''"

definition upload_incr ::
  "('o, 'b) object_store \<Rightarrow> ('u, 'b) image \<Rightarrow> (uuid \<Rightarrow> str) \<Rightarrow> nat \<Rightarrow> database_id \<Rightarrow> 'b \<Rightarrow> 'b option \<Rightarrow> ('n \<times> 'o, backup_info) op" where
  "upload_incr S im sh rv db snap wal =
    (let skey = os_path S (snap_key sh db rv); wkey = os_path S (wal_key sh db rv) in
     try_then (into_store ''upload incr snapshot: '' (os_put S skey snap)) (\<lambda>_.
     try_then (case wal of
         Some w \<Rightarrow> if im_len im w = 0 then done_with 0
           else try_then (into_store ''upload incr wal: '' (os_put S wkey w)) (\<lambda>_. done_with (length wkey))
       | None \<Rightarrow> done_with 0) (\<lambda>wal_size.
       done_with \<lparr>bi_key = skey, bi_size_bytes = im_len im snap + wal_size, bi_created_at = rv div 1000,
         bi_checksum = Some (sha256_hex im snap)\<rparr>)))"

text \<open>The archives by revision: the key of the snapshot and of the log.\<close>

definition note_object ::
  "str \<Rightarrow> (nat, str option \<times> str option) hashmap \<Rightarrow> (nat, str option \<times> str option) hashmap" where
  "note_object name by_rev = (case parse_rev name of
      None \<Rightarrow> by_rev
    | Some rv \<Rightarrow>
        let (s, w) = (case map_of by_rev rv of Some e \<Rightarrow> e | None \<Rightarrow> (None, None))
        in AList.update rv
             (if after_first ''snapshot-'' name \<noteq> None then (Some name, w)
              else if after_first ''wal-'' name \<noteq> None then (s, Some name) else (s, w)) by_rev)"

definition newest_pair :: "str list \<Rightarrow> (str \<times> str option) option" where
  "newest_pair names =
    (let by_rev = sort_key fst (fold note_object names []) in
     case find (\<lambda>(_, s, _). s \<noteq> None) (rev by_rev) of
       Some (_, Some s, w) \<Rightarrow> Some (s, w)
     | _ \<Rightarrow> None)"

definition latest_incr :: "('o, 'b) object_store \<Rightarrow> (uuid \<Rightarrow> str) \<Rightarrow> database_id \<Rightarrow> ('n \<times> 'o, (str \<times> str option) option) op" where
  "latest_incr S sh db = from_store ''list incr backups: '' (\<lambda>ob. map_sum id newest_pair (os_list S ob (incr_prefix S sh db)))"

section \<open>Files on the node\<close>

text \<open>Replacing the main file next to the given log, and the log itself; the content is what SQLite will find.\<close>

definition put_files ::
  "('u, 'b) image \<Rightarrow> database_id \<Rightarrow> 'b \<Rightarrow> 'b option \<Rightarrow> (('c, 'u) data_node \<times> 'o, unit) op" where
  "put_files im db snap wal = on_node (\<lambda>n.
    let m = dn_mgr n; f = files_of (mg_disk m) db;
        side = filter (\<lambda>s. s \<noteq> ''-wal'') (cf_side f) @ (if wal = None then [] else [''-wal''])
    in (Inr (), n\<lparr>dn_mgr := m\<lparr>mg_disk := AList.update db
          (f\<lparr>cf_main := Some (im_read im snap wal), cf_side := side\<rparr>) (mg_disk m)\<rparr>\<rparr>))"

text \<open>\<open>wal_left\<close> is the log found next to the main file after its connection is closed.\<close>

definition drop_wal ::
  "('u, 'b) image \<Rightarrow> io_env \<Rightarrow> 'b option \<Rightarrow> database_id \<Rightarrow> 'b \<Rightarrow> (('c, 'u) data_node \<times> 'o, unit) op" where
  "drop_wal im io wal_left db snap =
    (if io_fail io ''remove-wal'' = None then put_files im db snap None else put_files im db snap wal_left)"

definition restore_from_incr ::
  "('o, 'b) object_store \<Rightarrow> ('u, 'b) image \<Rightarrow> (uuid \<Rightarrow> str) \<Rightarrow> io_env \<Rightarrow> 'b option \<Rightarrow> database_id \<Rightarrow> (('c, 'u) data_node \<times> 'o, bool) op" where
  "restore_from_incr S im sh io wal_left db =
    try_then (latest_incr S sh db) (\<lambda>found. case found of
        None \<Rightarrow> done_with False
      | Some (skey, wkey) \<Rightarrow> (\<lambda>(n, ob).
          let parent = db_parent sh (mg_data_dir (dn_mgr n)) db in
          try_then (download_snapshot S io parent ''main'' skey) (\<lambda>snap.
          try_then (put_files im db snap wal_left) (\<lambda>_.
          try_then (case wkey of
              Some k \<Rightarrow> try_then (download_snapshot S io parent ''wal'' k) (\<lambda>w. put_files im db snap (Some w))
            | None \<Rightarrow> drop_wal im io wal_left db snap) (\<lambda>_.
            done_with True))) (n, ob)))"

section \<open>The operations of the node\<close>

text \<open>\<open>S\<close> is the configured object store, if any.\<close>

definition with_store :: "('o, 'b) object_store option \<Rightarrow> (('o, 'b) object_store \<Rightarrow> ('s, 'a) op) \<Rightarrow> ('s, 'a) op" where
  "with_store S f = (case S of
      None \<Rightarrow> raise (Internal ''object storage not configured'')
    | Some st \<Rightarrow> f st)"

definition content_of :: "'u conn \<Rightarrow> 'u cell_db" where
  "content_of c = \<lparr>db_kv = sys_kv c, db_user = user_db c\<rparr>"

definition node_backup ::
  "('c, 'u, 'f, 'n) libs \<Rightarrow> ('o, 'b) object_store option \<Rightarrow> ('u, 'b) image \<Rightarrow> io_env \<Rightarrow> nat \<Rightarrow> uuid \<Rightarrow> int \<Rightarrow> database_id
    \<Rightarrow> (('c, 'u) data_node \<times> 'o, backup_info) op" where
  "node_backup L S im io ts_ms drawn now db = with_store S (\<lambda>st.
    try_then (on_node (in_conn L io db (\<lambda>(c, x). case io_fail io ''vacuum'' of
        Some e \<Rightarrow> (Inl (Sql e), c, x)
      | None \<Rightarrow> (Inr (im_vacuum im (content_of c)), c, x)))) (\<lambda>snap.
      upload_snapshot st im (lb_show L) io ts_ms drawn now db snap))"

definition copy_files :: "('u, 'b) image \<Rightarrow> io_env \<Rightarrow> nat \<Rightarrow> ('u conn \<times> 'x, 'b \<times> 'b option) op" where
  "copy_files im io checkpoints =
    try_then (step_or io ''create tmp dir'' ''create tmp dir: '') (\<lambda>_.
    try_then (step_or io ''copy db'' ''copy db: '') (\<lambda>_ (c, x).
      let (snap, wal) = im_files im checkpoints (content_of c) in
      try_then (if wal = None then done_with () else step_or io ''copy wal'' ''copy wal: '') (\<lambda>_. done_with (snap, wal)) (c, x)))"

definition incremental_backup ::
  "('c, 'u, 'f, 'n) libs \<Rightarrow> ('o, 'b) object_store option \<Rightarrow> ('u, 'b) image \<Rightarrow> io_env \<Rightarrow> nat \<Rightarrow> nat \<Rightarrow> database_id
    \<Rightarrow> (('c, 'u) data_node \<times> 'o, backup_info) op" where
  "incremental_backup L S im io checkpoints rv db = with_store S (\<lambda>st.
    try_then (on_node (in_conn L io db (copy_files im io checkpoints))) (\<lambda>(snap, wal).
    try_then (step_or io ''read snap tmp'' ''read snap tmp: '') (\<lambda>_.
    try_then (if wal = None then done_with () else step_or io ''read wal tmp'' ''read wal tmp: '') (\<lambda>_.
      upload_incr st im (lb_show L) rv db snap wal))))"

definition replicate_from_primary ::
  "('c, 'u, 'f, 'n) libs \<Rightarrow> ('o, 'b) object_store option \<Rightarrow> ('u, 'b) image \<Rightarrow> io_env \<Rightarrow> 'b option \<Rightarrow> database_id
    \<Rightarrow> (('c, 'u) data_node \<times> 'o, bool) op" where
  "replicate_from_primary L S im io wal_left db = with_store S (\<lambda>st.
    try_then (on_node (on_mgr (close_database io db))) (\<lambda>_.
    try_then (restore_from_incr st im (lb_show L) io wal_left db) (\<lambda>applied.
      if applied then try_then (on_node (clear_cell L db)) (\<lambda>_. done_with True) else done_with False)))"

definition fetch_version ::
  "('o, 'b) object_store \<Rightarrow> ('u, 'b) image \<Rightarrow> (uuid \<Rightarrow> str) \<Rightarrow> io_env \<Rightarrow> 'b option \<Rightarrow> database_id \<Rightarrow> str \<Rightarrow> (('c, 'u) data_node \<times> 'o, unit) op" where
  "fetch_version S im sh io wal_left db key = (\<lambda>(n, ob).
    try_then (download_snapshot S io (db_parent sh (mg_data_dir (dn_mgr n)) db) ''main'' key) (\<lambda>snap.
    try_then (put_files im db snap wal_left) (\<lambda>_. drop_wal im io wal_left db snap)) (n, ob))"

text \<open>\<open>integrity\<close> is the answer of \<open>PRAGMA integrity_check\<close>; \<open>io0\<close> and \<open>io1\<close> are the closings before and after.\<close>

definition node_restore ::
  "('c, 'u, 'f, 'n) libs \<Rightarrow> ('o, 'b) object_store option \<Rightarrow> ('u, 'b) image \<Rightarrow> io_env \<Rightarrow> io_env \<Rightarrow> io_env \<Rightarrow> 'b option \<Rightarrow> str \<Rightarrow> database_id
    \<Rightarrow> str option \<Rightarrow> (('c, 'u) data_node \<times> 'o, unit) op" where
  "node_restore L S im io0 io io1 wal_left integrity db version = with_store S (\<lambda>st.
    let sh = lb_show L; allowed = ''backups/'' @ sh (db_uuid db) @ ''/'' in
    try_then (on_node (on_mgr (close_database io0 db))) (\<lambda>_.
    try_then (case version of
        Some v \<Rightarrow>
          if \<not> starts_with v allowed then raise (InvalidRequest (''backup key must be under '' @ [CHR 0x27] @ allowed @ [CHR 0x27]))
          else fetch_version st im sh io wal_left db (os_path st v)
      | None \<Rightarrow>
          try_then (restore_from_incr st im sh io wal_left db) (\<lambda>found.
            if found then done_with ()
            else try_then (list_snapshots st sh db) (\<lambda>metas.
              if metas = [] then raise (Internal (''no backups found for '' @ sh (db_uuid db)))
              else fetch_version st im sh io wal_left db (last metas)))) (\<lambda>_.
    try_then (on_node (in_conn L io db (\<lambda>(c, x). case io_fail io ''integrity_check'' of
        Some e \<Rightarrow> (Inl (Internal (''integrity check: '' @ e)), c, x)
      | None \<Rightarrow> (Inr integrity, c, x)))) (\<lambda>res.
      if trim res = ''ok'' then on_node (clear_cell L db)
      else try_then (on_node (on_mgr (close_database io1 db))) (\<lambda>_.
        raise (Internal (''restored database integrity check failed: '' @ res)))))))"

end
