(* ===== verification/Api_Auth.thy ===== *)
theory Api_Auth
  imports Control_Records Runtime_Config
begin

text \<open>
  Authentication of the API server (\<open>api-server/src/auth.rs\<close>) and of the data node's RPC
  (\<open>data-node/src/server.rs\<close>): who gets through to the tenant, admin and internal routes, and as
  which tenant.  A middleware either answers the request itself or lets it pass.
\<close>

section \<open>Requests\<close>

text \<open>
  The headers with their names in lower case, as the HTTP library stores them; several values of one
  name are in order of arrival.  A value reads as text if all its bytes are visible ASCII or tabs.
\<close>

record http_request =
  hq_method :: str
  hq_path :: str
  hq_headers :: "(str \<times> str) list"

definition contains_key :: "http_request \<Rightarrow> str \<Rightarrow> bool" where
  "contains_key req name \<longleftrightarrow> map_of (hq_headers req) name \<noteq> None"

definition visible :: "char \<Rightarrow> bool" where
  "visible c \<longleftrightarrow> (let n = (of_char c :: nat) in 32 \<le> n \<and> n < 127 \<or> n = 9)"

definition header_str :: "http_request \<Rightarrow> str \<Rightarrow> str option" where
  "header_str req name = (case map_of (hq_headers req) name of
      Some v \<Rightarrow> if list_all visible v then Some v else None
    | None \<Rightarrow> None)"

definition strip_prefix :: "str \<Rightarrow> str \<Rightarrow> str option" where
  "strip_prefix p s = (if starts_with s p then Some (drop (length p) s) else None)"

datatype 'a verdict = Refuse nat str str | Pass 'a

abbreviation unauthorized :: "str \<Rightarrow> 'a verdict" where
  "unauthorized msg \<equiv> Refuse 401 ''unauthorized'' msg"

definition token_ok :: "str \<Rightarrow> str \<Rightarrow> http_request \<Rightarrow> bool" where
  "token_ok header expected req \<longleftrightarrow>
    (case header_str req ''authorization'' of
       Some v \<Rightarrow> strip_prefix ''Bearer '' v = Some expected
     | None \<Rightarrow> False)
    \<or> header_str req header = Some expected"

section \<open>Control plane and administration\<close>

definition internal_auth :: "str option \<Rightarrow> http_request \<Rightarrow> unit verdict" where
  "internal_auth control_plane_token req =
    (if contains_key req ''x-api-key'' then unauthorized ''unauthorized''
     else case control_plane_token of
         Some expected \<Rightarrow> if token_ok ''x-control-token'' expected req then Pass () else unauthorized ''unauthorized''
       | None \<Rightarrow> Pass ())"

text \<open>The data node's own check, with the same rules and a plain body.\<close>

definition rpc_auth :: "str option \<Rightarrow> http_request \<Rightarrow> unit verdict" where
  "rpc_auth token req =
    (if contains_key req ''x-api-key'' then Refuse 401 '''' ''unauthorized''
     else case token of
         Some expected \<Rightarrow> if token_ok ''x-control-token'' expected req then Pass () else Refuse 401 '''' ''unauthorized''
       | None \<Rightarrow> Pass ())"

definition admin_auth :: "str option \<Rightarrow> str option \<Rightarrow> http_request \<Rightarrow> unit verdict" where
  "admin_auth bff_service_key admin_token req =
    (if bff_service_key \<noteq> None \<and> header_str req ''x-api-key'' = bff_service_key then
       (if hq_method req = ''POST'' \<and> hq_path req = ''/admin/tenants'' then Pass ()
        else unauthorized ''bff service key cannot call this admin endpoint'')
     else if contains_key req ''x-api-key'' then unauthorized ''unauthorized''
     else case admin_token of
         None \<Rightarrow> unauthorized ''COMBEE_ADMIN_TOKEN not configured''
       | Some expected \<Rightarrow> if token_ok ''x-admin-token'' expected req then Pass () else unauthorized ''unauthorized'')"

section \<open>Tenants\<close>

datatype auth_mode = Off | Key

definition auth_mode_from_env :: "environment \<Rightarrow> auth_mode" where
  "auth_mode_from_env env = (case env ''COMBEE_AUTH'' of
      Some v \<Rightarrow> if v = ''key'' \<or> v = ''db'' then Key else Off
    | None \<Rightarrow> Off)"

text \<open>\<open>parse_uuid\<close> reads the text form of an identifier, \<open>sha256\<close> is the digest of the key.\<close>

definition on_behalf :: "(str \<Rightarrow> uuid option) \<Rightarrow> http_request \<Rightarrow> bool \<Rightarrow> tenant_id \<Rightarrow> auth_context verdict" where
  "on_behalf parse_uuid req internal tenant =
    (if internal then
       (case header_str req ''x-combee-on-behalf-tenant'' of
          Some raw \<Rightarrow> (case parse_uuid raw of
              Some t \<Rightarrow> Pass \<lparr>ac_tenant_id = TenantId t, ac_internal = internal\<rparr>
            | None \<Rightarrow> Refuse 400 ''invalid_request'' ''invalid x-combee-on-behalf-tenant'')
        | None \<Rightarrow> Pass \<lparr>ac_tenant_id = tenant, ac_internal = internal\<rparr>)
     else Pass \<lparr>ac_tenant_id = tenant, ac_internal = internal\<rparr>)"

definition auth_middleware ::
  "(str \<Rightarrow> nat list) \<Rightarrow> (str \<Rightarrow> uuid option) \<Rightarrow> auth_mode \<Rightarrow> str option \<Rightarrow> inner \<Rightarrow> http_request \<Rightarrow> auth_context verdict" where
  "auth_middleware sha256 parse_uuid mode bff_service_key s req =
    (if mode = Key then
       (case header_str req ''x-api-key'' of
          Some key \<Rightarrow>
            (let internal = (bff_service_key = Some key) in
             case lookup_api_key_by_hash s (hash sha256 key) of
               Some r \<Rightarrow> on_behalf parse_uuid req internal (ak_tenant_id r)
             | None \<Rightarrow> unauthorized ''unauthorized'')
        | None \<Rightarrow> unauthorized ''unauthorized'')
     else on_behalf parse_uuid req False DEFAULT_TENANT)"

text \<open>The extractor of the handlers: a request that passed no middleware acts for the default tenant.\<close>

definition auth_extractor :: "auth_context option \<Rightarrow> auth_context" where
  "auth_extractor ext = (case ext of Some a \<Rightarrow> a | None \<Rightarrow> \<lparr>ac_tenant_id = DEFAULT_TENANT, ac_internal = False\<rparr>)"

definition request_id :: "(uuid \<Rightarrow> str) \<Rightarrow> uuid \<Rightarrow> http_request \<Rightarrow> str" where
  "request_id simple fresh req = (case header_str req ''x-request-id'' of Some s \<Rightarrow> s | None \<Rightarrow> ''req_'' @ simple fresh)"

section \<open>What a tenant's key opens\<close>

lemma header_contains: "header_str req name = Some v \<Longrightarrow> contains_key req name"
  by (auto simp: header_str_def contains_key_def split: option.splits)

text \<open>
  C20: A tenant's key opens nothing but its tenant. A request that carries an API key other than the
  platform's service key is refused by the internal routes, by the admin routes and by the data
  nodes, whatever tokens it carries besides; and where keys are required, the tenant routes either
  refuse it or serve it as the tenant of a stored, unrevoked key with this very digest, without
  platform privileges, whatever tenant it claims to act for.
\<close>

theorem tenant_key_confined:
  assumes "header_str req ''x-api-key'' = Some k" "bff \<noteq> Some k"
  shows "(\<exists>n c m. internal_auth tok req = Refuse n c m) \<and> (\<exists>n c m. admin_auth bff tok' req = Refuse n c m)
    \<and> (\<exists>n c m. rpc_auth tok req = Refuse n c m)
    \<and> (case auth_middleware sha256 parse_uuid Key bff s req of
         Refuse n c m \<Rightarrow> n = 401
       | Pass a \<Rightarrow> \<not> ac_internal a \<and> (\<exists>r \<in> set (map snd (api_keys s)). ak_key_hash r = hash sha256 k
           \<and> ak_revoked_at r = None \<and> ak_tenant_id r = ac_tenant_id a))"
proof -
  have "contains_key req ''x-api-key''"
    using assms(1) by (rule header_contains)
  moreover have "case auth_middleware sha256 parse_uuid Key bff s req of
      Refuse n c m \<Rightarrow> n = 401
    | Pass a \<Rightarrow> \<not> ac_internal a \<and> (\<exists>r \<in> set (map snd (api_keys s)). ak_key_hash r = hash sha256 k
        \<and> ak_revoked_at r = None \<and> ak_tenant_id r = ac_tenant_id a)"
  proof (cases "lookup_api_key_by_hash s (hash sha256 k)")
    case None
    then show ?thesis
      using assms by (simp add: auth_middleware_def)
  next
    case (Some r)
    then have "auth_middleware sha256 parse_uuid Key bff s req = Pass \<lparr>ac_tenant_id = ak_tenant_id r, ac_internal = False\<rparr>"
      using assms by (simp add: auth_middleware_def on_behalf_def)
    then show ?thesis
      using lookup_SomeD [OF Some] by auto
  qed
  ultimately show ?thesis
    using assms by (auto simp: internal_auth_def admin_auth_def rpc_auth_def)
qed

text \<open>The service key, and only a service key that is also a stored key, acts for other tenants.\<close>

lemma service_key_acts_for:
  assumes "auth_middleware sha256 parse_uuid mode bff s req = Pass a" "ac_internal a"
  shows "mode = Key \<and> bff \<noteq> None \<and> header_str req ''x-api-key'' = bff
    \<and> lookup_api_key_by_hash s (hash sha256 (the bff)) \<noteq> None"
  using assms by (auto simp: auth_middleware_def on_behalf_def Let_def split: if_splits option.splits)

text \<open>A tenant that asks for another tenant's cells under its own key.\<close>

definition snooping :: http_request where
  "snooping = \<lparr>hq_method = ''GET'', hq_path = ''/v1/databases'',
    hq_headers = [(''x-api-key'', ''cmb_sk_a''), (''x-combee-on-behalf-tenant'', ''7''), (''x-admin-token'', ''adm'')]\<rparr>"

definition keyed_store :: inner where
  "keyed_store = snd (create_api_key 5 3 inner_default (TenantId 2) (hash (\<lambda>_. [1, 2]) ''cmb_sk_a'') ''main'')"

theorem tenant_key_confined_witness:
  "(\<exists>n c m. admin_auth (Some ''cmb_sk_bff'') (Some ''adm'') snooping = Refuse n c m)
    \<and> (\<exists>a. auth_middleware (\<lambda>_. [1, 2]) uuid_undec Key (Some ''cmb_sk_bff'') keyed_store snooping = Pass a
        \<and> ac_tenant_id a = TenantId 2 \<and> \<not> ac_internal a)"
proof -
  have h: "header_str snooping ''x-api-key'' = Some ''cmb_sk_a''"
    by code_simp
  have a: "auth_middleware (\<lambda>_. [1, 2]) uuid_undec Key (Some ''cmb_sk_bff'') keyed_store snooping
      = Pass \<lparr>ac_tenant_id = TenantId 2, ac_internal = False\<rparr>"
    by code_simp
  show ?thesis
    using tenant_key_confined [OF h, where bff = "Some ''cmb_sk_bff''" and tok' = "Some ''adm''" and ?sha256.0 = "\<lambda>_. [1, 2]"
      and parse_uuid = uuid_undec and s = keyed_store] a by auto
qed

end
