(* ===== verification/Rpc.thy ===== *)
theory Rpc
  imports Backup Api_Auth
begin

text \<open>
  The interface between the API server and the data nodes: the trait \<open>DataNodeClient\<close> with its local
  and its remote implementation (\<open>api-server/src/client.rs\<close>), the request bodies (\<open>common/src/rpc.rs\<close>)
  and the node's RPC server (\<open>data-node/src/server.rs\<close>).  The methods of the trait are the constructors
  of \<open>node_call\<close>, their results the constructors of \<open>answer\<close>.
\<close>

section \<open>Calls, bodies and answers\<close>

record kv_set_request =
  sq_value :: str
  sq_ttl_seconds :: "nat option"
  sq_nx :: bool
  sq_xx :: bool

record kv_incr_request =
  iq_key :: str
  iq_delta :: int
  iq_ttl_seconds :: "nat option"

record kv_expire_request =
  eq_key :: str
  eq_ttl_seconds :: "nat option"

datatype 'n node_call =
    ExecuteSql database_id "'n sql_request" int
  | ExecuteTransaction database_id "'n sql_request list" int
  | KvGet database_id str
  | KvSet database_id str kv_set_request int
  | KvDel database_id str int
  | KvExists database_id str
  | KvMget database_id "str list"
  | KvMset database_id "kv_set_item list" int
  | KvTtl database_id str
  | KvExpire database_id kv_expire_request int
  | KvIncr database_id kv_incr_request int
  | FenceCell database_id int
  | Replicate database_id
  | EnsureDatabase database_id
  | DeleteDatabase database_id
  | BackupCell database_id
  | RestoreCell database_id "str option"
  | IncrementalBackup database_id
  | StorageBytesOf database_id
  | ResetDatabase database_id
  | KvScan database_id str nat str

datatype 'n answer =
    ASql "'n sql_result"
  | ASqls "'n sql_result list"
  | AEntry "kv_entry option"
  | ABool bool
  | AStrings "str option list"
  | AUnit
  | ATtl "int option"
  | AInt int
  | ABackup backup_info
  | ANat nat
  | AScan kv_scan_result

datatype 'n rpc_body =
    RpcDb database_id
  | RpcSql database_id "'n sql_request" int
  | RpcTransaction database_id "'n sql_request list" int
  | RpcKvGet database_id str
  | RpcKvScan database_id str nat str
  | RpcKvSet database_id str kv_set_request int
  | RpcKvKeys database_id "str list"
  | RpcKvSetItems database_id "kv_set_item list" int
  | RpcKvIncr database_id kv_incr_request int
  | RpcKvExpire database_id kv_expire_request int
  | RpcRestore database_id "str option"
  | RpcKvDel database_id str int
  | RpcFence database_id int

text \<open>What one call meets on the node: outcomes of the system, readings of the clocks, drawn identifiers.\<close>

record 'b call_env =
  ce_io :: io_env
  ce_io0 :: io_env
  ce_io1 :: io_env
  ce_main_len :: "nat option"
  ce_now0 :: int
  ce_now1 :: int
  ce_now2 :: int
  ce_clock :: "nat \<Rightarrow> int"
  ce_times :: "nat \<Rightarrow> int \<times> int"
  ce_late :: bool
  ce_millis :: nat
  ce_drawn :: uuid
  ce_checkpoints :: nat
  ce_wal_left :: "'b option"
  ce_integrity :: str

definition answered :: "('a \<Rightarrow> 'n answer) \<Rightarrow> ('s, 'a) op \<Rightarrow> ('s, 'n answer) op" where
  "answered f g = try_then g (\<lambda>a. done_with (f a))"

definition timed_items :: "(nat \<Rightarrow> int \<times> int) \<Rightarrow> kv_set_item list \<Rightarrow> ((int \<times> int) \<times> kv_set_item) list" where
  "timed_items readings items = zip (map readings [0..<length items]) items"

definition node_storage_bytes :: "nat option \<Rightarrow> ('s, nat) op" where
  "node_storage_bytes main_len = done_with (storage_bytes main_len)"

section \<open>The local client\<close>

fun local_client ::
  "('c, 'u, 'f, 'n) libs \<Rightarrow> ('o, 'b) object_store option \<Rightarrow> ('u, 'b) image \<Rightarrow> 'b call_env \<Rightarrow> 'n node_call
    \<Rightarrow> (('c, 'u) data_node \<times> 'o, 'n answer) op" where
  "local_client L S im e (ExecuteSql db req gen) =
    answered ASql (on_node (node_execute_sql L (ce_io e) (ce_late e) db req gen))"
| "local_client L S im e (ExecuteTransaction db reqs gen) =
    answered ASqls (on_node (node_execute_transaction L (ce_io e) (ce_late e) db reqs gen))"
| "local_client L S im e (KvGet db key) =
    answered AEntry (on_node (kv_get L (ce_io e) (ce_now0 e) (ce_now1 e) (ce_now2 e) db key))"
| "local_client L S im e (KvSet db key req gen) =
    answered ABool (on_node (kv_set L (ce_io e) (ce_main_len e) (ce_now0 e) (ce_now1 e) db key
      (sq_value req) (sq_ttl_seconds req) (sq_nx req) (sq_xx req) gen))"
| "local_client L S im e (KvDel db key gen) = answered ABool (on_node (kv_del L (ce_io e) db key gen))"
| "local_client L S im e (KvExists db key) =
    answered ABool (on_node (kv_exists L (ce_io e) (ce_now0 e) (ce_now1 e) db key))"
| "local_client L S im e (KvMget db keys) =
    answered AStrings (on_node (kv_mget L (ce_io e) (ce_now0 e) (ce_clock e) db keys))"
| "local_client L S im e (KvMset db items gen) =
    answered (\<lambda>_. AUnit) (on_node (kv_mset L (ce_io e) db (timed_items (ce_times e) items) gen))"
| "local_client L S im e (KvTtl db key) =
    answered ATtl (on_node (kv_ttl L (ce_io e) (ce_now0 e) (ce_now1 e) db key))"
| "local_client L S im e (KvExpire db req gen) =
    answered ABool (on_node (kv_expire L (ce_io e) (ce_now0 e) (ce_now1 e) db (eq_key req) (eq_ttl_seconds req) gen))"
| "local_client L S im e (KvIncr db req gen) =
    answered AInt (on_node (kv_incr L (ce_io e) (ce_now0 e) db (iq_key req) (iq_delta req) (iq_ttl_seconds req) gen))"
| "local_client L S im e (FenceCell db gen) = on_node (\<lambda>n. (Inr AUnit, fence_cell db gen n))"
| "local_client L S im e (Replicate db) =
    answered ABool (replicate_from_primary L S im (ce_io e) (ce_wal_left e) db)"
| "local_client L S im e (EnsureDatabase db) = answered (\<lambda>_. AUnit) (on_node (ensure_database L (ce_io e) db))"
| "local_client L S im e (DeleteDatabase db) = answered (\<lambda>_. AUnit) (on_node (node_delete_database L (ce_io e) db))"
| "local_client L S im e (BackupCell db) =
    answered ABackup (node_backup L S im (ce_io e) (ce_millis e) (ce_drawn e) (ce_now0 e) db)"
| "local_client L S im e (RestoreCell db version) =
    answered (\<lambda>_. AUnit) (node_restore L S im (ce_io0 e) (ce_io e) (ce_io1 e) (ce_wal_left e) (ce_integrity e) db version)"
| "local_client L S im e (IncrementalBackup db) =
    answered ABackup (incremental_backup L S im (ce_io e) (ce_checkpoints e) (ce_millis e) db)"
| "local_client L S im e (StorageBytesOf db) = answered ANat (node_storage_bytes (ce_main_len e))"
| "local_client L S im e (ResetDatabase db) = answered (\<lambda>_. AUnit) (on_node (node_reset_database L (ce_io e) db))"
| "local_client L S im e (KvScan db pfx limit cursor) =
    answered AScan (on_node (kv_scan L (ce_io e) (ce_now0 e) db pfx limit cursor))"

section \<open>The server of a data node\<close>

text \<open>
  A handler takes the body its extractor accepts, \<open>None\<close> for any other, and answers with the envelope.
\<close>

type_synonym ('c, 'u, 'o, 'n) handler =
  "'n rpc_body \<Rightarrow> (('c, 'u) data_node \<times> 'o \<Rightarrow> 'n answer rpc_response \<times> ('c, 'u) data_node \<times> 'o) option"

definition reply :: "(uuid \<Rightarrow> str) \<Rightarrow> ('s, 'a) op \<Rightarrow> 's \<Rightarrow> 'a rpc_response \<times> 's" where
  "reply sh f s = (let (r, s) = f s in (from_result sh r, s))"

definition rpc_execute_sql ::
  "('c, 'u, 'f, 'n) libs \<Rightarrow> ('o, 'b) object_store option \<Rightarrow> ('u, 'b) image \<Rightarrow> 'b call_env \<Rightarrow> ('c, 'u, 'o, 'n) handler" where
  "rpc_execute_sql L S im e body = (case body of
      RpcSql db req gen \<Rightarrow> Some (reply (lb_show L) (answered ASql (on_node (node_execute_sql L (ce_io e) (ce_late e) db req gen))))
    | _ \<Rightarrow> None)"

definition rpc_execute_transaction ::
  "('c, 'u, 'f, 'n) libs \<Rightarrow> ('o, 'b) object_store option \<Rightarrow> ('u, 'b) image \<Rightarrow> 'b call_env \<Rightarrow> ('c, 'u, 'o, 'n) handler" where
  "rpc_execute_transaction L S im e body = (case body of
      RpcTransaction db reqs gen \<Rightarrow> Some (reply (lb_show L) (answered ASqls (on_node (node_execute_transaction L (ce_io e) (ce_late e) db reqs gen))))
    | _ \<Rightarrow> None)"

definition rpc_kv_get ::
  "('c, 'u, 'f, 'n) libs \<Rightarrow> ('o, 'b) object_store option \<Rightarrow> ('u, 'b) image \<Rightarrow> 'b call_env \<Rightarrow> ('c, 'u, 'o, 'n) handler" where
  "rpc_kv_get L S im e body = (case body of
      RpcKvGet db key \<Rightarrow> Some (reply (lb_show L) (answered AEntry (on_node (kv_get L (ce_io e) (ce_now0 e) (ce_now1 e) (ce_now2 e) db key))))
    | _ \<Rightarrow> None)"

definition rpc_kv_set ::
  "('c, 'u, 'f, 'n) libs \<Rightarrow> ('o, 'b) object_store option \<Rightarrow> ('u, 'b) image \<Rightarrow> 'b call_env \<Rightarrow> ('c, 'u, 'o, 'n) handler" where
  "rpc_kv_set L S im e body = (case body of
      RpcKvSet db key req gen \<Rightarrow> Some (reply (lb_show L) (answered ABool (on_node (kv_set L (ce_io e) (ce_main_len e) (ce_now0 e) (ce_now1 e) db key
        (sq_value req) (sq_ttl_seconds req) (sq_nx req) (sq_xx req) gen))))
    | _ \<Rightarrow> None)"

definition rpc_kv_del ::
  "('c, 'u, 'f, 'n) libs \<Rightarrow> ('o, 'b) object_store option \<Rightarrow> ('u, 'b) image \<Rightarrow> 'b call_env \<Rightarrow> ('c, 'u, 'o, 'n) handler" where
  "rpc_kv_del L S im e body = (case body of
      RpcKvDel db key gen \<Rightarrow> Some (reply (lb_show L) (answered ABool (on_node (kv_del L (ce_io e) db key gen))))
    | _ \<Rightarrow> None)"

definition rpc_kv_exists ::
  "('c, 'u, 'f, 'n) libs \<Rightarrow> ('o, 'b) object_store option \<Rightarrow> ('u, 'b) image \<Rightarrow> 'b call_env \<Rightarrow> ('c, 'u, 'o, 'n) handler" where
  "rpc_kv_exists L S im e body = (case body of
      RpcKvGet db key \<Rightarrow> Some (reply (lb_show L) (answered ABool (on_node (kv_exists L (ce_io e) (ce_now0 e) (ce_now1 e) db key))))
    | _ \<Rightarrow> None)"

definition rpc_kv_mget ::
  "('c, 'u, 'f, 'n) libs \<Rightarrow> ('o, 'b) object_store option \<Rightarrow> ('u, 'b) image \<Rightarrow> 'b call_env \<Rightarrow> ('c, 'u, 'o, 'n) handler" where
  "rpc_kv_mget L S im e body = (case body of
      RpcKvKeys db keys \<Rightarrow> Some (reply (lb_show L) (answered AStrings (on_node (kv_mget L (ce_io e) (ce_now0 e) (ce_clock e) db keys))))
    | _ \<Rightarrow> None)"

definition rpc_kv_mset ::
  "('c, 'u, 'f, 'n) libs \<Rightarrow> ('o, 'b) object_store option \<Rightarrow> ('u, 'b) image \<Rightarrow> 'b call_env \<Rightarrow> ('c, 'u, 'o, 'n) handler" where
  "rpc_kv_mset L S im e body = (case body of
      RpcKvSetItems db items gen \<Rightarrow> Some (reply (lb_show L) (answered (\<lambda>_. AUnit) (on_node (kv_mset L (ce_io e) db (timed_items (ce_times e) items) gen))))
    | _ \<Rightarrow> None)"

definition rpc_kv_ttl ::
  "('c, 'u, 'f, 'n) libs \<Rightarrow> ('o, 'b) object_store option \<Rightarrow> ('u, 'b) image \<Rightarrow> 'b call_env \<Rightarrow> ('c, 'u, 'o, 'n) handler" where
  "rpc_kv_ttl L S im e body = (case body of
      RpcKvGet db key \<Rightarrow> Some (reply (lb_show L) (answered ATtl (on_node (kv_ttl L (ce_io e) (ce_now0 e) (ce_now1 e) db key))))
    | _ \<Rightarrow> None)"

definition rpc_kv_expire ::
  "('c, 'u, 'f, 'n) libs \<Rightarrow> ('o, 'b) object_store option \<Rightarrow> ('u, 'b) image \<Rightarrow> 'b call_env \<Rightarrow> ('c, 'u, 'o, 'n) handler" where
  "rpc_kv_expire L S im e body = (case body of
      RpcKvExpire db req gen \<Rightarrow> Some (reply (lb_show L) (answered ABool (on_node (kv_expire L (ce_io e) (ce_now0 e) (ce_now1 e) db (eq_key req) (eq_ttl_seconds req) gen))))
    | _ \<Rightarrow> None)"

definition rpc_kv_incr ::
  "('c, 'u, 'f, 'n) libs \<Rightarrow> ('o, 'b) object_store option \<Rightarrow> ('u, 'b) image \<Rightarrow> 'b call_env \<Rightarrow> ('c, 'u, 'o, 'n) handler" where
  "rpc_kv_incr L S im e body = (case body of
      RpcKvIncr db req gen \<Rightarrow> Some (reply (lb_show L) (answered AInt (on_node (kv_incr L (ce_io e) (ce_now0 e) db (iq_key req) (iq_delta req) (iq_ttl_seconds req) gen))))
    | _ \<Rightarrow> None)"

definition rpc_fence_cell ::
  "('c, 'u, 'f, 'n) libs \<Rightarrow> ('o, 'b) object_store option \<Rightarrow> ('u, 'b) image \<Rightarrow> 'b call_env \<Rightarrow> ('c, 'u, 'o, 'n) handler" where
  "rpc_fence_cell L S im e body = (case body of
      RpcFence db gen \<Rightarrow> Some (reply (lb_show L) (on_node (\<lambda>n. (Inr AUnit, fence_cell db gen n))))
    | _ \<Rightarrow> None)"

definition rpc_replicate ::
  "('c, 'u, 'f, 'n) libs \<Rightarrow> ('o, 'b) object_store option \<Rightarrow> ('u, 'b) image \<Rightarrow> 'b call_env \<Rightarrow> ('c, 'u, 'o, 'n) handler" where
  "rpc_replicate L S im e body = (case body of
      RpcDb db \<Rightarrow> Some (reply (lb_show L) (answered ABool (replicate_from_primary L S im (ce_io e) (ce_wal_left e) db)))
    | _ \<Rightarrow> None)"

definition rpc_ensure_database ::
  "('c, 'u, 'f, 'n) libs \<Rightarrow> ('o, 'b) object_store option \<Rightarrow> ('u, 'b) image \<Rightarrow> 'b call_env \<Rightarrow> ('c, 'u, 'o, 'n) handler" where
  "rpc_ensure_database L S im e body = (case body of
      RpcDb db \<Rightarrow> Some (reply (lb_show L) (answered (\<lambda>_. AUnit) (on_node (ensure_database L (ce_io e) db))))
    | _ \<Rightarrow> None)"

definition rpc_delete_database ::
  "('c, 'u, 'f, 'n) libs \<Rightarrow> ('o, 'b) object_store option \<Rightarrow> ('u, 'b) image \<Rightarrow> 'b call_env \<Rightarrow> ('c, 'u, 'o, 'n) handler" where
  "rpc_delete_database L S im e body = (case body of
      RpcDb db \<Rightarrow> Some (reply (lb_show L) (answered (\<lambda>_. AUnit) (on_node (node_delete_database L (ce_io e) db))))
    | _ \<Rightarrow> None)"

definition rpc_incremental_backup ::
  "('c, 'u, 'f, 'n) libs \<Rightarrow> ('o, 'b) object_store option \<Rightarrow> ('u, 'b) image \<Rightarrow> 'b call_env \<Rightarrow> ('c, 'u, 'o, 'n) handler" where
  "rpc_incremental_backup L S im e body = (case body of
      RpcDb db \<Rightarrow> Some (reply (lb_show L) (answered ABackup (incremental_backup L S im (ce_io e) (ce_checkpoints e) (ce_millis e) db)))
    | _ \<Rightarrow> None)"

definition rpc_backup ::
  "('c, 'u, 'f, 'n) libs \<Rightarrow> ('o, 'b) object_store option \<Rightarrow> ('u, 'b) image \<Rightarrow> 'b call_env \<Rightarrow> ('c, 'u, 'o, 'n) handler" where
  "rpc_backup L S im e body = (case body of
      RpcDb db \<Rightarrow> Some (reply (lb_show L) (answered ABackup (node_backup L S im (ce_io e) (ce_millis e) (ce_drawn e) (ce_now0 e) db)))
    | _ \<Rightarrow> None)"

definition rpc_restore ::
  "('c, 'u, 'f, 'n) libs \<Rightarrow> ('o, 'b) object_store option \<Rightarrow> ('u, 'b) image \<Rightarrow> 'b call_env \<Rightarrow> ('c, 'u, 'o, 'n) handler" where
  "rpc_restore L S im e body = (case body of
      RpcRestore db version \<Rightarrow> Some (reply (lb_show L) (answered (\<lambda>_. AUnit) (node_restore L S im (ce_io0 e) (ce_io e) (ce_io1 e) (ce_wal_left e) (ce_integrity e) db version)))
    | _ \<Rightarrow> None)"

definition rpc_storage_bytes ::
  "('c, 'u, 'f, 'n) libs \<Rightarrow> ('o, 'b) object_store option \<Rightarrow> ('u, 'b) image \<Rightarrow> 'b call_env \<Rightarrow> ('c, 'u, 'o, 'n) handler" where
  "rpc_storage_bytes L S im e body = (case body of
      RpcDb db \<Rightarrow> Some (reply (lb_show L) (answered ANat (node_storage_bytes (ce_main_len e))))
    | _ \<Rightarrow> None)"

definition rpc_kv_scan ::
  "('c, 'u, 'f, 'n) libs \<Rightarrow> ('o, 'b) object_store option \<Rightarrow> ('u, 'b) image \<Rightarrow> 'b call_env \<Rightarrow> ('c, 'u, 'o, 'n) handler" where
  "rpc_kv_scan L S im e body = (case body of
      RpcKvScan db pfx limit cursor \<Rightarrow> Some (reply (lb_show L) (answered AScan (on_node (kv_scan L (ce_io e) (ce_now0 e) db pfx limit cursor))))
    | _ \<Rightarrow> None)"

definition rpc_reset_database ::
  "('c, 'u, 'f, 'n) libs \<Rightarrow> ('o, 'b) object_store option \<Rightarrow> ('u, 'b) image \<Rightarrow> 'b call_env \<Rightarrow> ('c, 'u, 'o, 'n) handler" where
  "rpc_reset_database L S im e body = (case body of
      RpcDb db \<Rightarrow> Some (reply (lb_show L) (answered (\<lambda>_. AUnit) (on_node (node_reset_database L (ce_io e) db))))
    | _ \<Rightarrow> None)"

definition router ::
  "('c, 'u, 'f, 'n) libs \<Rightarrow> ('o, 'b) object_store option \<Rightarrow> ('u, 'b) image \<Rightarrow> 'b call_env \<Rightarrow> (str \<times> ('c, 'u, 'o, 'n) handler) list" where
  "router L S im e = [
    (''/rpc/execute_sql'', rpc_execute_sql L S im e),
    (''/rpc/execute_transaction'', rpc_execute_transaction L S im e),
    (''/rpc/kv_get'', rpc_kv_get L S im e),
    (''/rpc/kv_set'', rpc_kv_set L S im e),
    (''/rpc/kv_del'', rpc_kv_del L S im e),
    (''/rpc/kv_exists'', rpc_kv_exists L S im e),
    (''/rpc/kv_mget'', rpc_kv_mget L S im e),
    (''/rpc/kv_mset'', rpc_kv_mset L S im e),
    (''/rpc/kv_ttl'', rpc_kv_ttl L S im e),
    (''/rpc/kv_expire'', rpc_kv_expire L S im e),
    (''/rpc/kv_incr'', rpc_kv_incr L S im e),
    (''/rpc/ensure_database'', rpc_ensure_database L S im e),
    (''/rpc/delete_database'', rpc_delete_database L S im e),
    (''/rpc/fence_cell'', rpc_fence_cell L S im e),
    (''/rpc/replicate'', rpc_replicate L S im e),
    (''/rpc/backup'', rpc_backup L S im e),
    (''/rpc/incremental_backup'', rpc_incremental_backup L S im e),
    (''/rpc/restore'', rpc_restore L S im e),
    (''/rpc/storage_bytes'', rpc_storage_bytes L S im e),
    (''/rpc/kv_scan'', rpc_kv_scan L S im e),
    (''/rpc/reset_database'', rpc_reset_database L S im e)]"

text \<open>A response is an HTTP status with a text, or a decodable envelope with status 200.\<close>

datatype 'a http_response = Status nat str | Envelope 'a

definition serve ::
  "('c, 'u, 'f, 'n) libs \<Rightarrow> ('o, 'b) object_store option \<Rightarrow> ('u, 'b) image \<Rightarrow> str option \<Rightarrow> 'b call_env \<Rightarrow> http_request \<Rightarrow> 'n rpc_body
    \<Rightarrow> ('c, 'u) data_node \<times> 'o \<Rightarrow> 'n answer rpc_response http_response \<times> ('c, 'u) data_node \<times> 'o" where
  "serve L S im token e req body s = (case map_of (router L S im e) (hq_path req) of
      None \<Rightarrow> (Status 404 '''', s)
    | Some handler \<Rightarrow> (case rpc_auth token req of
        Refuse status _ msg \<Rightarrow> (Status status msg, s)
      | Pass _ \<Rightarrow> (case handler body of
          None \<Rightarrow> (Status 422 ''Failed to deserialize the JSON body into the target type'', s)
        | Some run \<Rightarrow> let (r, s) = run s in (Envelope r, s))))"

section \<open>The remote client\<close>

text \<open>The path and the body each method posts.\<close>

fun remote_request :: "'n node_call \<Rightarrow> str \<times> 'n rpc_body" where
  "remote_request (ExecuteSql db req gen) = (''rpc/execute_sql'', RpcSql db req gen)"
| "remote_request (ExecuteTransaction db reqs gen) = (''rpc/execute_transaction'', RpcTransaction db reqs gen)"
| "remote_request (KvGet db key) = (''rpc/kv_get'', RpcKvGet db key)"
| "remote_request (KvSet db key req gen) = (''rpc/kv_set'', RpcKvSet db key req gen)"
| "remote_request (KvDel db key gen) = (''rpc/kv_del'', RpcKvDel db key gen)"
| "remote_request (KvExists db key) = (''rpc/kv_exists'', RpcKvGet db key)"
| "remote_request (KvMget db keys) = (''rpc/kv_mget'', RpcKvKeys db keys)"
| "remote_request (KvMset db items gen) = (''rpc/kv_mset'', RpcKvSetItems db items gen)"
| "remote_request (KvTtl db key) = (''rpc/kv_ttl'', RpcKvGet db key)"
| "remote_request (KvExpire db req gen) = (''rpc/kv_expire'', RpcKvExpire db req gen)"
| "remote_request (KvIncr db req gen) = (''rpc/kv_incr'', RpcKvIncr db req gen)"
| "remote_request (FenceCell db gen) = (''rpc/fence_cell'', RpcFence db gen)"
| "remote_request (Replicate db) = (''rpc/replicate'', RpcDb db)"
| "remote_request (EnsureDatabase db) = (''rpc/ensure_database'', RpcDb db)"
| "remote_request (DeleteDatabase db) = (''rpc/delete_database'', RpcDb db)"
| "remote_request (BackupCell db) = (''rpc/backup'', RpcDb db)"
| "remote_request (RestoreCell db version) = (''rpc/restore'', RpcRestore db version)"
| "remote_request (IncrementalBackup db) = (''rpc/incremental_backup'', RpcDb db)"
| "remote_request (StorageBytesOf db) = (''rpc/storage_bytes'', RpcDb db)"
| "remote_request (ResetDatabase db) = (''rpc/reset_database'', RpcDb db)"
| "remote_request (KvScan db pfx limit cursor) = (''rpc/kv_scan'', RpcKvScan db pfx limit cursor)"

text \<open>
  \<open>js_body\<close> and \<open>js_answer\<close> are what comes out of encoding as JSON and decoding again.  A request may be
  lost on its way to the node or its response on the way back.
\<close>

record 'n rpc_codec =
  js_body :: "'n rpc_body \<Rightarrow> 'n rpc_body option"
  js_answer :: "'n answer rpc_response \<Rightarrow> 'n answer rpc_response option"

datatype net = Delivered | LostRequest str | LostResponse str

fun status_text :: "nat \<Rightarrow> str" where
  "status_text n = show_nat n @ (if n = 401 then '' Unauthorized'' else if n = 404 then '' Not Found''
    else if n = 422 then '' Unprocessable Entity'' else '''')"

definition rpc_headers :: "str option \<Rightarrow> str \<Rightarrow> (str \<times> str) list" where
  "rpc_headers control_token rid =
    (''content-type'', ''application/json'') # (case control_token of Some t \<Rightarrow> [(''x-control-token'', t)] | None \<Rightarrow> [])
      @ (if rid = [] then [] else [(''x-request-id'', rid)])"

text \<open>The call and whether it ran the hook for failures of the route; \<open>fresh\<close> is as in \<open>from_kind\<close>.\<close>

definition remote_call ::
  "('c, 'u, 'f, 'n) libs \<Rightarrow> ('o, 'b) object_store option \<Rightarrow> ('u, 'b) image \<Rightarrow> 'n rpc_codec \<Rightarrow> (str \<Rightarrow> uuid option) \<Rightarrow> uuid \<Rightarrow> str option \<Rightarrow> str option
    \<Rightarrow> str \<Rightarrow> net \<Rightarrow> 'b call_env \<Rightarrow> str \<Rightarrow> 'n rpc_body \<Rightarrow> ('c, 'u) data_node \<times> 'o \<Rightarrow> ('n answer result \<times> bool) \<times> ('c, 'u) data_node \<times> 'o" where
  "remote_call L S im J parse_uuid fresh control_token server_token rid net e path body s =
    (let lost = (\<lambda>msg. (Inl (Internal (''data node rpc '' @ path @ msg)), True)) in
     case net of
       LostRequest msg \<Rightarrow> (lost ('': '' @ msg), s)
     | _ \<Rightarrow>
       let req = \<lparr>hq_method = ''POST'', hq_path = ''/'' @ path, hq_headers = rpc_headers control_token rid\<rparr>;
           (resp, s) = (case js_body J body of
               Some b \<Rightarrow> serve L S im server_token e req b s
             | None \<Rightarrow> (Status 422 ''Failed to deserialize the JSON body into the target type'', s))
       in (case net of
             LostResponse msg \<Rightarrow> lost ('': '' @ msg)
           | _ \<Rightarrow> (case resp of
               Status status msg \<Rightarrow> lost ('': HTTP '' @ status_text status @ '': '' @ msg)
             | Envelope r \<Rightarrow> (case js_answer J r of
                 None \<Rightarrow> lost '' decode: invalid response''
               | Some r \<Rightarrow> (into_result parse_uuid fresh r, False))), s))"

definition remote_client ::
  "('c, 'u, 'f, 'n) libs \<Rightarrow> ('o, 'b) object_store option \<Rightarrow> ('u, 'b) image \<Rightarrow> 'n rpc_codec \<Rightarrow> (str \<Rightarrow> uuid option) \<Rightarrow> uuid \<Rightarrow> str option \<Rightarrow> str option
    \<Rightarrow> str \<Rightarrow> net \<Rightarrow> 'b call_env \<Rightarrow> 'n node_call \<Rightarrow> ('c, 'u) data_node \<times> 'o \<Rightarrow> ('n answer result \<times> bool) \<times> ('c, 'u) data_node \<times> 'o" where
  "remote_client L S im J parse_uuid fresh control_token server_token rid net e call s =
    (let (path, body) = remote_request call
     in remote_call L S im J parse_uuid fresh control_token server_token rid net e path body s)"

section \<open>Local and remote\<close>

definition json_obeys :: "'n rpc_codec \<Rightarrow> bool" where
  "json_obeys J \<longleftrightarrow> (\<forall>b. js_body J b = Some b) \<and> (\<forall>a. js_answer J a = Some a)"

lemmas rpc_handlers = rpc_execute_sql_def rpc_execute_transaction_def rpc_kv_get_def rpc_kv_set_def rpc_kv_del_def rpc_kv_exists_def rpc_kv_mget_def rpc_kv_mset_def rpc_kv_ttl_def rpc_kv_expire_def rpc_kv_incr_def rpc_ensure_database_def rpc_delete_database_def rpc_fence_cell_def rpc_replicate_def rpc_backup_def rpc_incremental_backup_def rpc_restore_def rpc_storage_bytes_def rpc_kv_scan_def rpc_reset_database_def

text \<open>Each method reaches the handler that does its work.\<close>
lemma router_lookup:
  "map_of (router L S im e) ''/rpc/execute_sql'' = Some (rpc_execute_sql L S im e)"
  "map_of (router L S im e) ''/rpc/execute_transaction'' = Some (rpc_execute_transaction L S im e)"
  "map_of (router L S im e) ''/rpc/kv_get'' = Some (rpc_kv_get L S im e)"
  "map_of (router L S im e) ''/rpc/kv_set'' = Some (rpc_kv_set L S im e)"
  "map_of (router L S im e) ''/rpc/kv_del'' = Some (rpc_kv_del L S im e)"
  "map_of (router L S im e) ''/rpc/kv_exists'' = Some (rpc_kv_exists L S im e)"
  "map_of (router L S im e) ''/rpc/kv_mget'' = Some (rpc_kv_mget L S im e)"
  "map_of (router L S im e) ''/rpc/kv_mset'' = Some (rpc_kv_mset L S im e)"
  "map_of (router L S im e) ''/rpc/kv_ttl'' = Some (rpc_kv_ttl L S im e)"
  "map_of (router L S im e) ''/rpc/kv_expire'' = Some (rpc_kv_expire L S im e)"
  "map_of (router L S im e) ''/rpc/kv_incr'' = Some (rpc_kv_incr L S im e)"
  "map_of (router L S im e) ''/rpc/ensure_database'' = Some (rpc_ensure_database L S im e)"
  "map_of (router L S im e) ''/rpc/delete_database'' = Some (rpc_delete_database L S im e)"
  "map_of (router L S im e) ''/rpc/fence_cell'' = Some (rpc_fence_cell L S im e)"
  "map_of (router L S im e) ''/rpc/replicate'' = Some (rpc_replicate L S im e)"
  "map_of (router L S im e) ''/rpc/backup'' = Some (rpc_backup L S im e)"
  "map_of (router L S im e) ''/rpc/incremental_backup'' = Some (rpc_incremental_backup L S im e)"
  "map_of (router L S im e) ''/rpc/restore'' = Some (rpc_restore L S im e)"
  "map_of (router L S im e) ''/rpc/storage_bytes'' = Some (rpc_storage_bytes L S im e)"
  "map_of (router L S im e) ''/rpc/kv_scan'' = Some (rpc_kv_scan L S im e)"
  "map_of (router L S im e) ''/rpc/reset_database'' = Some (rpc_reset_database L S im e)"
  by (simp_all add: router_def)

text \<open>Each method reaches the handler that does its work.\<close>

lemma router_dispatch:
  "\<exists>h. map_of (router L S im e) (''/'' @ fst (remote_request call)) = Some h
    \<and> h (snd (remote_request call)) = Some (reply (lb_show L) (local_client L S im e call))"
  by (cases call) (simp_all add: router_lookup rpc_handlers)

lemma rpc_request_headers:
  assumes "list_all visible token"
  shows "\<not> contains_key \<lparr>hq_method = m, hq_path = q, hq_headers = rpc_headers (Some token) rid\<rparr> ''x-api-key''"
    "header_str \<lparr>hq_method = m, hq_path = q, hq_headers = rpc_headers (Some token) rid\<rparr> ''authorization'' = None"
    "header_str \<lparr>hq_method = m, hq_path = q, hq_headers = rpc_headers (Some token) rid\<rparr> ''x-control-token'' = Some token"
  using assms by (simp_all add: contains_key_def header_str_def rpc_headers_def)

lemma remote_delivered:
  assumes "json_obeys J" "list_all visible token"
  shows "remote_client L S im J p fresh (Some token) (Some token) rid Delivered e call s =
      (let (r, s') = local_client L S im e call s in ((rpc_transport (lb_show L) p fresh r, False), s'))"
proof -
  obtain path body where call: "remote_request call = (path, body)"
    by fastforce
  obtain h where h: "map_of (router L S im e) (''/'' @ path) = Some h" "h body = Some (reply (lb_show L) (local_client L S im e call))"
    using router_dispatch [of L S im e call] by (auto simp: call)
  let ?req = "\<lparr>hq_method = ''POST'', hq_path = ''/'' @ path, hq_headers = rpc_headers (Some token) rid\<rparr>"
  have "serve L S im (Some token) e ?req body s = (let (r, s') = local_client L S im e call s in (Envelope (from_result (lb_show L) r), s'))"
    using h rpc_request_headers [OF assms(2)] by (simp add: serve_def rpc_auth_def token_ok_def reply_def split: prod.splits)
  then show ?thesis
    using assms(1) by (simp add: remote_client_def call remote_call_def json_obeys_def rpc_transport_def Let_def split: prod.splits)
qed

lemma remote_refused:
  assumes "json_obeys J" "list_all visible token" "token \<noteq> expected"
  shows "\<exists>err. remote_client L S im J p fresh (Some token) (Some expected) rid Delivered e call s = ((Inl err, True), s)"
proof -
  obtain path body where call: "remote_request call = (path, body)"
    by fastforce
  obtain h where h: "map_of (router L S im e) (''/'' @ path) = Some h"
    using router_dispatch [of L S im e call] by (auto simp: call)
  have "serve L S im (Some expected) e \<lparr>hq_method = ''POST'', hq_path = ''/'' @ path, hq_headers = rpc_headers (Some token) rid\<rparr> body s
      = (Status 401 ''unauthorized'', s)"
    using h assms(3) rpc_request_headers [OF assms(2)] by (simp add: serve_def rpc_auth_def token_ok_def)
  then show ?thesis
    using assms(1) by (simp add: remote_client_def call remote_call_def json_obeys_def Let_def)
qed


text \<open>A read of the written node over the wire, and the same with a wrong token.\<close>

definition same_json :: "'n rpc_codec" where
  "same_json = \<lparr>js_body = Some, js_answer = Some\<rparr>"

definition no_image :: "(nat \<times> nat option, unit) image" where
  "no_image = \<lparr>im_vacuum = (\<lambda>_. ()), im_files = (\<lambda>_ _. ((), None)), im_read = (\<lambda>_ _. \<lparr>db_kv = [], db_user = (0, None)\<rparr>),
    im_len = (\<lambda>_. 0), im_sha256 = (\<lambda>_. [])\<rparr>"

definition at_time :: "nat \<Rightarrow> int \<Rightarrow> 'b call_env" where
  "at_time t now = \<lparr>ce_io = calm t, ce_io0 = calm t, ce_io1 = calm t, ce_main_len = None, ce_now0 = now, ce_now1 = now, ce_now2 = now,
    ce_clock = (\<lambda>_. now), ce_times = (\<lambda>_. (now, now)), ce_late = False, ce_millis = 1000 * t, ce_drawn = 0, ce_checkpoints = 1,
    ce_wal_left = None, ce_integrity = ''ok''\<rparr>"


end
