(* ===== verification/Routing.thy ===== *)
theory Routing
  imports Node_Registry Cell_Directory Rpc
begin

text \<open>
  Routing of a cell to its data node (\<open>RoutingProvider\<close> in \<open>api-server/src/client.rs\<close>) and the system
  of one API server and its data nodes: the metadata store, the registry of nodes, the routing
  caches, the nodes by their address and the object store.
\<close>

section \<open>Clients\<close>

text \<open>A remote client has its base address and the cell whose route its failures invalidate.\<close>

datatype client = LocalClient | RemoteClient str "database_id option"

record routing =
  rt_clients :: "(node_id, client) hashmap"
  rt_control_token :: "str option"
  rt_local :: "client option"
  rt_routes :: "(database_id, node_id \<times> int) hashmap"

definition ROUTE_CACHE_TTL :: int where
  "ROUTE_CACHE_TTL = 5"

definition routing_new :: "client option \<Rightarrow> str option \<Rightarrow> routing" where
  "routing_new loc control_token = \<lparr>rt_clients = [], rt_control_token = control_token, rt_local = loc, rt_routes = []\<rparr>"

definition trim_slashes :: "str \<Rightarrow> str" where
  "trim_slashes s = rev (dropWhile (\<lambda>c. c = CHR ''/'') (rev s))"

definition with_hooks :: "str \<Rightarrow> database_id option \<Rightarrow> client" where
  "with_hooks base_url on_error = RemoteClient (trim_slashes base_url) on_error"

definition invalidate_route :: "database_id \<Rightarrow> routing \<Rightarrow> routing" where
  "invalidate_route db rt = rt\<lparr>rt_routes := AList.delete db (rt_routes rt)\<rparr>"

definition make_client :: "database_id \<Rightarrow> node_id \<Rightarrow> str \<Rightarrow> routing \<Rightarrow> client \<times> routing" where
  "make_client db node addr rt =
    (let c = with_hooks addr (Some db) in (c, rt\<lparr>rt_clients := AList.update node c (rt_clients rt)\<rparr>))"

text \<open>
  The clocks and the metadata store at the points where the code looks at them; other servers may
  change the store in between.
\<close>

record moment =
  mo_now :: int
  mo_unix :: nat
  mo_store :: inner

definition addr_at :: "moment \<Rightarrow> node_id \<Rightarrow> registry \<Rightarrow> str option \<times> registry" where
  "addr_at t node g = node_addr (mo_now t) (mo_unix t) (mo_store t) node g"

definition note_route :: "moment \<Rightarrow> database_id \<Rightarrow> node_id \<Rightarrow> routing \<Rightarrow> routing" where
  "note_route t db node rt = rt\<lparr>rt_routes := AList.update db (node, mo_now t) (rt_routes rt)\<rparr>"

definition no_storage_node :: combee_error where
  "no_storage_node = Internal ''database has no storage node assigned''"

definition node_unavailable :: "(uuid \<Rightarrow> str) \<Rightarrow> node_id \<Rightarrow> combee_error" where
  "node_unavailable sh node = Internal (''data node '' @ sh (node_uuid node) @ '' unavailable'')"

text \<open>Resolving the cell anew, with one retry when its node is unavailable.\<close>

definition from_authority ::
  "(uuid \<Rightarrow> str) \<Rightarrow> (nat \<Rightarrow> moment) \<Rightarrow> database_id \<Rightarrow> (registry \<times> routing, client) op" where
  "from_authority sh t db = (\<lambda>(g, rt). case get_database_by_id (mo_store (t 2)) db of
      Inl e \<Rightarrow> (Inl e, g, rt)
    | Inr r \<Rightarrow> (case db_storage_node_id r of
        None \<Rightarrow> (case rt_local rt of Some c \<Rightarrow> (Inr c, g, rt) | None \<Rightarrow> (Inl no_storage_node, g, rt))
      | Some node \<Rightarrow>
          let rt = note_route (t 2) db node rt; (found, g) = addr_at (t 3) node g in
          case found of
            Some addr \<Rightarrow> let (c, rt) = make_client db node addr rt in (Inr c, g, rt)
          | None \<Rightarrow>
              let rt = invalidate_route db rt in
              case get_database_by_id (mo_store (t 4)) db of
                Inl e \<Rightarrow> (Inl e, g, rt)
              | Inr r2 \<Rightarrow> (case db_storage_node_id r2 of
                  None \<Rightarrow> (Inl no_storage_node, g, rt)
                | Some node2 \<Rightarrow>
                    let rt = note_route (t 4) db node2 rt; (found, g) = addr_at (t 5) node2 g in
                    case found of
                      None \<Rightarrow> (Inl (node_unavailable sh node2), g, rt)
                    | Some addr \<Rightarrow> let (c, rt) = make_client db node addr rt in (Inr c, g, rt))))"

definition client_for ::
  "(uuid \<Rightarrow> str) \<Rightarrow> (nat \<Rightarrow> moment) \<Rightarrow> database_id \<Rightarrow> (registry \<times> routing, client) op" where
  "client_for sh t db = (\<lambda>(g, rt).
    let fresh = (case map_of (rt_routes rt) db of
        Some (node, at) \<Rightarrow> if mo_now (t 0) - at < ROUTE_CACHE_TTL then Some node else None
      | None \<Rightarrow> None) in
    case fresh of
      None \<Rightarrow> from_authority sh t db (g, rt)
    | Some node \<Rightarrow> (case map_of (rt_clients rt) node of
        Some c \<Rightarrow> (Inr c, g, rt)
      | None \<Rightarrow>
          let (found, g) = addr_at (t 1) node g in
          case found of
            Some addr \<Rightarrow> let (c, rt) = make_client db node addr rt in (Inr c, g, rt)
          | None \<Rightarrow> from_authority sh t db (g, invalidate_route db rt)))"

definition client_for_node :: "(uuid \<Rightarrow> str) \<Rightarrow> moment \<Rightarrow> node_id \<Rightarrow> (registry \<times> routing, client) op" where
  "client_for_node sh t node = (\<lambda>(g, rt).
    let (found, g) = addr_at t node g in
    case found of
      None \<Rightarrow> (Inl (node_unavailable sh node), g, rt)
    | Some addr \<Rightarrow> (case map_of (rt_clients rt) node of
        Some c \<Rightarrow> (Inr c, g, rt)
      | None \<Rightarrow> let c = with_hooks addr None in (Inr c, g, rt\<lparr>rt_clients := AList.update node c (rt_clients rt)\<rparr>)))"

section \<open>The system\<close>

record ('c, 'u, 'f, 'n, 'o, 'b) world =
  wo_libs :: "('c, 'u, 'f, 'n) libs"
  wo_store :: "('o, 'b) object_store option"
  wo_image :: "('u, 'b) image"
  wo_json :: "'n rpc_codec"
  wo_parse :: "str \<Rightarrow> uuid option"
  wo_node_token :: "str option"

record ('c, 'u, 'o) cluster =
  cl_meta :: inner
  cl_registry :: registry
  cl_routing :: routing
  cl_local :: "('c, 'u) data_node option"
  cl_nodes :: "(str, ('c, 'u) data_node) hashmap"
  cl_objects :: 'o

text \<open>What one call over the network meets.\<close>

record 'b trip =
  tr_net :: net
  tr_env :: "'b call_env"
  tr_fresh :: uuid
  tr_rid :: str

definition on_routing :: "(registry \<times> routing, 'a) op \<Rightarrow> (('c, 'u, 'o) cluster, 'a) op" where
  "on_routing f = (\<lambda>k. let (r, g, rt) = f (cl_registry k, cl_routing k) in (r, k\<lparr>cl_registry := g, cl_routing := rt\<rparr>))"

text \<open>A method of a client: on the local node, or over the network on the node at its address.\<close>

definition call_client ::
  "('c, 'u, 'f, 'n, 'o, 'b) world \<Rightarrow> 'b trip \<Rightarrow> client \<Rightarrow> 'n node_call \<Rightarrow> (('c, 'u, 'o) cluster, 'n answer) op" where
  "call_client W tr c call = (\<lambda>k. case c of
      LocalClient \<Rightarrow> (case cl_local k of
          None \<Rightarrow> (Inl (Internal ''no local data node''), k)
        | Some n \<Rightarrow> let (r, n, ob) = local_client (wo_libs W) (wo_store W) (wo_image W) (tr_env tr) call (n, cl_objects k)
            in (r, k\<lparr>cl_local := Some n, cl_objects := ob\<rparr>))
    | RemoteClient addr hook \<Rightarrow>
        let forget = (\<lambda>k. case hook of Some db \<Rightarrow> k\<lparr>cl_routing := invalidate_route db (cl_routing k)\<rparr> | None \<Rightarrow> k) in
        (case map_of (cl_nodes k) addr of
          None \<Rightarrow> (Inl (Internal (''data node rpc '' @ fst (remote_request call) @ '': error sending request'')), forget k)
        | Some n \<Rightarrow>
            let ((r, notified), n, ob) = remote_client (wo_libs W) (wo_store W) (wo_image W) (wo_json W) (wo_parse W) (tr_fresh tr)
                  (rt_control_token (cl_routing k)) (wo_node_token W) (tr_rid tr) (tr_net tr) (tr_env tr) call (n, cl_objects k);
                k = k\<lparr>cl_nodes := AList.update addr n (cl_nodes k), cl_objects := ob\<rparr>
            in (r, if notified then forget k else k)))"

end
