(* ===== verification/Backup_Roundtrip.thy ===== *)
theory Backup_Roundtrip
  imports Backup
begin

text \<open>
  What backups give back: the documented behaviour of the object store and of SQLite's files, the
  naming of objects, and the round trips through a full snapshot and through an incremental archive.
\<close>

section \<open>Documented behaviour of the libraries\<close>

fun join_path :: "str list \<Rightarrow> str" where
  "join_path [] = []"
| "join_path [s] = s"
| "join_path (s # ss) = s @ ''/'' @ join_path ss"

definition plain_char :: "char \<Rightarrow> bool" where
  "plain_char c \<longleftrightarrow> is_digit c \<or> (97 \<le> (of_char c :: nat) \<and> (of_char c :: nat) \<le> 122) \<or> c = CHR ''-'' \<or> c = CHR ''.''"

definition plain_seg :: "str \<Rightarrow> bool" where
  "plain_seg s \<longleftrightarrow> s \<noteq> [] \<and> s \<noteq> ''.'' \<and> s \<noteq> ''..'' \<and> list_all plain_char s"

text \<open>
  \<open>objs\<close> are the objects a store holds.  A path of plain segments is kept as it is, without the slash
  at its end; a stored object is there and no other changes; a fetched object is the stored one; a
  listing has the objects below the prefix.
\<close>

definition store_obeys :: "('o, 'b) object_store \<Rightarrow> ('o \<Rightarrow> str \<Rightarrow> 'b option) \<Rightarrow> bool" where
  "store_obeys S objs \<longleftrightarrow>
    (\<forall>segs. segs \<noteq> [] \<longrightarrow> list_all plain_seg segs \<longrightarrow>
      os_path S (join_path segs) = join_path segs \<and> os_path S (join_path segs @ ''/'') = join_path segs) \<and>
    (\<forall>k v ob ob'. os_put S k v ob = (Inr (), ob') \<longrightarrow> objs ob' = (objs ob)(k \<mapsto> v)) \<and>
    (\<forall>k v ob. os_get S ob k = Inr v \<longrightarrow> objs ob k = Some v) \<and>
    (\<forall>p ks ob. os_list S ob p = Inr ks \<longrightarrow> set ks = {k \<in> dom (objs ob). starts_with k (p @ ''/'')})"

text \<open>SQLite finds in the files it wrote what it was told to store, and an empty log holds nothing.\<close>

definition image_obeys :: "('u, 'b) image \<Rightarrow> bool" where
  "image_obeys im \<longleftrightarrow>
    (\<forall>c. im_read im (im_vacuum im c) None = c) \<and>
    (\<forall>k c. im_read im (fst (im_files im k c)) (snd (im_files im k c)) = c) \<and>
    (\<forall>s w. im_len im w = 0 \<longrightarrow> im_read im s (Some w) = im_read im s None)"

text \<open>Identifiers print as hexadecimal digits and hyphens.\<close>

definition hex_char :: "char \<Rightarrow> bool" where
  "hex_char c \<longleftrightarrow> is_digit c \<or> c \<in> set ''abcdef-''"

definition hex_text :: "(uuid \<Rightarrow> str) \<Rightarrow> bool" where
  "hex_text sh \<longleftrightarrow> (\<forall>u. sh u \<noteq> [] \<and> list_all hex_char (sh u))"

lemma store_obeysD:
  assumes "store_obeys S objs"
  shows "segs \<noteq> [] \<Longrightarrow> list_all plain_seg segs \<Longrightarrow> os_path S (join_path segs) = join_path segs"
    "segs \<noteq> [] \<Longrightarrow> list_all plain_seg segs \<Longrightarrow> os_path S (join_path segs @ ''/'') = join_path segs"
    "os_put S k v ob = (Inr (), ob') \<Longrightarrow> objs ob' = (objs ob)(k \<mapsto> v)"
    "os_get S ob k = Inr v \<Longrightarrow> objs ob k = Some v"
    "os_list S ob p = Inr ks \<Longrightarrow> set ks = {k \<in> dom (objs ob). starts_with k (p @ ''/'')}"
  using assms unfolding store_obeys_def by blast+

lemma image_obeysD:
  assumes "image_obeys im"
  shows "im_read im (im_vacuum im c) None = c" "im_files im k c = (s, w) \<Longrightarrow> im_read im s w = c"
    "im_len im w' = 0 \<Longrightarrow> im_read im s (Some w') = im_read im s None"
  using assms unfolding image_obeys_def by (metis fst_conv snd_conv)+

section \<open>Object names\<close>

lemma hex_plain: "hex_char c \<Longrightarrow> plain_char c"
  by (auto simp: hex_char_def plain_char_def)

lemma digits_plain: "list_all plain_char (show_nat n)"
  by (auto simp: list_all_iff plain_char_def dest: show_nat_digits)

lemma hex_seg:
  assumes "hex_text sh"
  shows "plain_seg (sh u)"
proof -
  have h: "sh u \<noteq> []" "list_all hex_char (sh u)"
    using assms by (auto simp: hex_text_def)
  then have "sh u \<noteq> ''.''" "sh u \<noteq> ''..''"
    by (auto simp: hex_char_def is_digit_def)
  then show ?thesis
    using h hex_plain by (auto simp: plain_seg_def list_all_iff)
qed

lemma plain_seg_append: "plain_seg s \<Longrightarrow> list_all plain_char t \<Longrightarrow> length s + length t > 2 \<Longrightarrow> plain_seg (s @ t)"
  by (auto simp: plain_seg_def dest: arg_cong [where f = length])

lemma os_keys:
  assumes "store_obeys S objs" "hex_text sh"
  shows "os_path S (snap_key sh db rv) = snap_key sh db rv" "os_path S (wal_key sh db rv) = wal_key sh db rv"
    "incr_prefix S sh db = ''backups/'' @ sh (db_uuid db) @ ''/incr''"
    "backup_prefix S sh db = ''backups/'' @ sh (db_uuid db)"
    "os_path S (''backups/'' @ sh (db_uuid db) @ ''/'' @ show_nat ts @ ''-'' @ sh u @ ''.sqlite'')
      = ''backups/'' @ sh (db_uuid db) @ ''/'' @ show_nat ts @ ''-'' @ sh u @ ''.sqlite''"
proof -
  have lit: "plain_seg ''backups''" "plain_seg ''incr''"
    by code_simp+
  have sfx: "list_all plain_char ''.sqlite''" "list_all plain_char ''.sqlite-wal''" "list_all plain_char ''-''"
    by code_simp+
  have heads: "plain_seg ''snapshot-''" "plain_seg ''wal-''"
    by code_simp+
  have s: "plain_seg (''snapshot-'' @ show_nat rv @ ''.sqlite'')" "plain_seg (''wal-'' @ show_nat rv @ ''.sqlite-wal'')"
    using plain_seg_append [OF heads(1), of "show_nat rv @ ''.sqlite''"] plain_seg_append [OF heads(2), of "show_nat rv @ ''.sqlite-wal''"]
      digits_plain sfx by simp_all
  have sh: "plain_seg (sh u)" for u
    using hex_seg [OF assms(2)] .
  have "list_all plain_char (sh u)"
    using sh [of u] by (simp add: plain_seg_def)
  moreover have "show_nat ts @ ''-'' @ sh u @ ''.sqlite'' \<noteq> ''.''" "show_nat ts @ ''-'' @ sh u @ ''.sqlite'' \<noteq> ''..''"
    by (auto dest: arg_cong [where f = length])
  ultimately have f: "plain_seg (show_nat ts @ ''-'' @ sh u @ ''.sqlite'')"
    using digits_plain sfx by (simp add: plain_seg_def)
  show "os_path S (snap_key sh db rv) = snap_key sh db rv" "os_path S (wal_key sh db rv) = wal_key sh db rv"
    using store_obeysD(1) [OF assms(1), of "[''backups'', sh (db_uuid db), ''incr'', ''snapshot-'' @ show_nat rv @ ''.sqlite'']"]
      store_obeysD(1) [OF assms(1), of "[''backups'', sh (db_uuid db), ''incr'', ''wal-'' @ show_nat rv @ ''.sqlite-wal'']"] lit s sh
    by (simp_all add: snap_key_def wal_key_def)
  show "incr_prefix S sh db = ''backups/'' @ sh (db_uuid db) @ ''/incr''" "backup_prefix S sh db = ''backups/'' @ sh (db_uuid db)"
    using store_obeysD(2) [OF assms(1), of "[''backups'', sh (db_uuid db), ''incr'']"]
      store_obeysD(2) [OF assms(1), of "[''backups'', sh (db_uuid db)]"] lit sh
    by (simp_all add: incr_prefix_def backup_prefix_def)
  show "os_path S (''backups/'' @ sh (db_uuid db) @ ''/'' @ show_nat ts @ ''-'' @ sh u @ ''.sqlite'')
      = ''backups/'' @ sh (db_uuid db) @ ''/'' @ show_nat ts @ ''-'' @ sh u @ ''.sqlite''"
    using store_obeysD(1) [OF assms(1), of "[''backups'', sh (db_uuid db), show_nat ts @ ''-'' @ sh u @ ''.sqlite'']"] lit f sh
    by simp
qed

text \<open>The revision in a name.\<close>

lemma after_first_skip: "list_all (\<lambda>c. c \<noteq> p) s \<Longrightarrow> after_first (p # ps) (s @ t) = after_first (p # ps) t"
  by (induction s) (auto simp: starts_with_def)

lemma hd_split_on: "d \<notin> set w \<Longrightarrow> hd (split_on d (w @ d # r)) = w"
  by (induction w) (auto simp: hd_append split: list.splits)

lemma parse_u128_show: "n < 2 ^ 128 \<Longrightarrow> parse_u128 (show_nat n) = Some n"
  using parse_digits_show_nat [of n] show_nat_not_sign [of n] show_nat_nonempty [of n]
  by (cases "show_nat n") (auto simp: parse_u128_def Let_def)

lemma parse_rev_keys:
  assumes "hex_text sh" "rv < 2 ^ 128"
  shows "after_first ''snapshot-'' (snap_key sh db rv) = Some (show_nat rv @ ''.sqlite'')"
    "after_first ''snapshot-'' (wal_key sh db rv) = None"
    "after_first ''wal-'' (wal_key sh db rv) = Some (show_nat rv @ ''.sqlite-wal'')"
    "parse_rev (snap_key sh db rv) = Some rv" "parse_rev (wal_key sh db rv) = Some rv"
proof -
  have "\<not> hex_char (CHR ''s'')" "\<not> hex_char (CHR ''w'')"
    by code_simp+
  then have h: "list_all (\<lambda>c. c \<noteq> CHR ''s'') (sh u)" "list_all (\<lambda>c. c \<noteq> CHR ''w'') (sh u)" for u
    using assms(1) unfolding hex_text_def list_all_iff by metis+
  have d: "list_all (\<lambda>c. c \<noteq> CHR ''s'') (show_nat n)" "list_all (\<lambda>c. c \<noteq> CHR ''w'') (show_nat n)" "CHR ''.'' \<notin> set (show_nat n)" for n
    by (auto simp: list_all_iff is_digit_def dest!: show_nat_digits)
  show s: "after_first ''snapshot-'' (snap_key sh db rv) = Some (show_nat rv @ ''.sqlite'')"
    by (simp add: snap_key_def after_first_skip [OF h(1)] starts_with_def)
  show w: "after_first ''snapshot-'' (wal_key sh db rv) = None"
    by (simp add: wal_key_def after_first_skip [OF h(1)] after_first_skip [OF d(1)] starts_with_def)
  show v: "after_first ''wal-'' (wal_key sh db rv) = Some (show_nat rv @ ''.sqlite-wal'')"
    by (simp add: wal_key_def after_first_skip [OF h(2)] starts_with_def)
  show "parse_rev (snap_key sh db rv) = Some rv" "parse_rev (wal_key sh db rv) = Some rv"
    using hd_split_on [OF d(3), of rv "''sqlite''"] hd_split_on [OF d(3), of rv "''sqlite-wal''"] assms(2)
    by (simp_all add: parse_rev_def s w v parse_u128_show)
qed

section \<open>The newest archive\<close>

lemma last_sort_key:
  fixes xs :: "(nat \<times> 'v) list"
  assumes "(r, e) \<in> set xs" "distinct (map fst xs)" "\<And>r' e'. (r', e') \<in> set xs \<Longrightarrow> r' \<le> r"
  shows "\<exists>ys. sort_key fst xs = ys @ [(r, e)]"
proof -
  obtain ys z where z: "sort_key fst xs = ys @ [z]"
    using assms(1) by (metis in_set_conv_nth length_sort list.size(3) not_less_zero rev_exhaust)
  then have set: "set xs = insert z (set ys)"
    by (metis set_append list.set(2) empty_set set_sort Un_insert_right sup_bot.right_neutral)
  have "fst z \<le> r"
    using assms(3) set by (cases z) auto
  moreover have "r \<le> fst z"
    using assms(1) set sorted_sort_key [of fst xs] z by (force simp: sorted_append)
  ultimately have "z = (r, e)"
    using assms(1,2) set by (metis antisym eq_key_imp_eq_value insertI1 prod.collapse)
  then show ?thesis
    using z by blast
qed

text \<open>The entry of one revision after a list of names.\<close>

definition rev_entry :: "(nat, str option \<times> str option) hashmap \<Rightarrow> nat \<Rightarrow> str option \<times> str option" where
  "rev_entry by_rev rv = (case map_of by_rev rv of Some e \<Rightarrow> e | None \<Rightarrow> (None, None))"

lemma rev_entry_note:
  assumes "parse_rev sk = Some rv" "after_first ''snapshot-'' sk \<noteq> None"
    "parse_rev wk = Some rv" "after_first ''snapshot-'' wk = None" "after_first ''wal-'' wk \<noteq> None"
  shows "rev_entry (note_object sk acc) rv = (Some sk, snd (rev_entry acc rv))"
    "rev_entry (note_object wk acc) rv = (fst (rev_entry acc rv), Some wk)"
    "parse_rev name \<noteq> Some rv \<Longrightarrow> rev_entry (note_object name acc) rv = rev_entry acc rv"
proof -
  show "rev_entry (note_object sk acc) rv = (Some sk, snd (rev_entry acc rv))"
    using assms(1,2) by (cases "rev_entry acc rv") (simp add: note_object_def rev_entry_def)
  show "rev_entry (note_object wk acc) rv = (fst (rev_entry acc rv), Some wk)"
    using assms(3-5) by (cases "rev_entry acc rv") (simp add: note_object_def rev_entry_def)
  show "parse_rev name \<noteq> Some rv \<Longrightarrow> rev_entry (note_object name acc) rv = rev_entry acc rv"
    by (cases "parse_rev name") (auto simp: note_object_def rev_entry_def Let_def split: prod.splits)
qed

lemma note_objects:
  assumes "parse_rev sk = Some rv" "after_first ''snapshot-'' sk \<noteq> None"
    "parse_rev wk = Some rv" "after_first ''snapshot-'' wk = None" "after_first ''wal-'' wk \<noteq> None"
    "\<And>name. name \<in> set names \<Longrightarrow> parse_rev name = Some rv \<Longrightarrow> name = sk \<or> name = wk"
  shows "rev_entry (fold note_object names acc) rv =
    (if sk \<in> set names then Some sk else fst (rev_entry acc rv), if wk \<in> set names then Some wk else snd (rev_entry acc rv))"
  using assms(6)
proof (induction names arbitrary: acc)
  case (Cons name names)
  note step = rev_entry_note [OF assms(1-5)]
  have ih: "rev_entry (fold note_object names a) rv = (if sk \<in> set names then Some sk else fst (rev_entry a rv),
      if wk \<in> set names then Some wk else snd (rev_entry a rv))" for a
    using Cons by simp
  have "sk \<noteq> wk"
    using assms(2,4) by auto
  moreover consider "name = sk" | "name = wk" | "name \<noteq> sk" "name \<noteq> wk" "parse_rev name \<noteq> Some rv"
    using Cons.prems by auto
  then show ?case
    by cases (use calculation in \<open>simp_all add: ih step\<close>)
qed simp

lemma note_object_keys:
  "fst ` set (note_object name acc) = fst ` set acc \<union> {r. parse_rev name = Some r}"
  "distinct (map fst acc) \<Longrightarrow> distinct (map fst (note_object name acc))"
proof -
  have "(parse_rev name = None \<and> note_object name acc = acc) \<or>
      (\<exists>r e. parse_rev name = Some r \<and> note_object name acc = AList.update r e acc)"
    by (cases "parse_rev name") (auto simp: note_object_def Let_def split: prod.splits)
  then show "fst ` set (note_object name acc) = fst ` set acc \<union> {r. parse_rev name = Some r}"
    "distinct (map fst acc) \<Longrightarrow> distinct (map fst (note_object name acc))"
    by (elim disjE exE conjE; simp add: distinct_keys_update)+
qed

lemma note_objects_keys:
  "fst ` set (fold note_object names acc) = fst ` set acc \<union> {r. \<exists>name \<in> set names. parse_rev name = Some r}"
  "distinct (map fst acc) \<Longrightarrow> distinct (map fst (fold note_object names acc))"
  by (induction names arbitrary: acc) (auto simp: note_object_keys)

lemma newest_pair_of:
  assumes "hex_text sh" "rv < 2 ^ 128" "snap_key sh db rv \<in> set names"
    "\<And>name r. name \<in> set names \<Longrightarrow> parse_rev name = Some r \<Longrightarrow> r < rv \<or> name = snap_key sh db rv \<or> name = wal_key sh db rv"
  shows "newest_pair names = Some (snap_key sh db rv, if wal_key sh db rv \<in> set names then Some (wal_key sh db rv) else None)"
proof -
  let ?sk = "snap_key sh db rv" and ?wk = "wal_key sh db rv" and ?m = "fold note_object names []"
  note p = parse_rev_keys [OF assms(1,2), of db]
  have "rev_entry ?m rv = (Some ?sk, if ?wk \<in> set names then Some ?wk else None)"
    using note_objects [of ?sk rv ?wk names "[]"] p assms(3,4) by (fastforce simp: rev_entry_def)
  then have "(rv, Some ?sk, if ?wk \<in> set names then Some ?wk else None) \<in> set ?m"
    by (auto simp: rev_entry_def split: option.splits dest: map_of_SomeD)
  moreover have "r' \<le> rv" if "(r', e') \<in> set ?m" for r' e'
  proof -
    have "r' \<in> fst ` set ?m"
      using that by force
    then obtain name where "name \<in> set names" "parse_rev name = Some r'"
      by (auto simp: note_objects_keys(1))
    then show ?thesis
      using assms(4) [of name r'] p(4,5) by auto
  qed
  ultimately obtain ys where "sort_key fst ?m = ys @ [(rv, Some ?sk, if ?wk \<in> set names then Some ?wk else None)]"
    using last_sort_key [of rv _ ?m] note_objects_keys(2) [of "[]" names] by fastforce
  then show ?thesis
    by (simp add: newest_pair_def Let_def)
qed

section \<open>The content of a cell\<close>

definition disk_content :: "'u \<Rightarrow> 'u disk \<Rightarrow> database_id \<Rightarrow> 'u cell_db" where
  "disk_content u0 d db = (case cf_main (files_of d db) of Some c \<Rightarrow> c | None \<Rightarrow> \<lparr>db_kv = [], db_user = u0\<rparr>)"

definition cell_content :: "'u \<Rightarrow> ('c, 'u) data_node \<Rightarrow> database_id \<Rightarrow> 'u cell_db" where
  "cell_content u0 n db = disk_content u0 (mg_disk (dn_mgr n)) db"

definition quiet :: "io_env \<Rightarrow> bool" where
  "quiet io \<longleftrightarrow> io_fail io = (\<lambda>_. None) \<and> trim (io_quick_check io) = ''ok''"

definition format_ok :: "('c, 'u, 'f, 'n) libs \<Rightarrow> ('c, 'u) data_node \<Rightarrow> database_id \<Rightarrow> bool" where
  "format_ok L n db \<longleftrightarrow> check_format_version (lb_show L) (mg_disk (dn_mgr n)) db = Inr ()"

lemma content_open_db:
  "open_db sh dir u0 io dur db d = (r, d') \<Longrightarrow> disk_content u0 d' k = disk_content u0 d k"
  by (auto simp: open_db_def create_main_def disk_content_def split: option.splits if_splits)

lemma content_manifest: "disk_content u0 (snd (write_manifest sh dir io db d)) k = disk_content u0 d k"
  by (auto simp: write_manifest_def disk_content_def split: option.splits)

lemma content_ensure_conn:
  "ensure_conn sh u0 io db m = (r, m') \<Longrightarrow> disk_content u0 (mg_disk m') k = disk_content u0 (mg_disk m) k"
  by (cases rule: ensure_conn_cases) (auto simp: content_manifest dest: content_open_db)

lemma conn_content: "content_of (conn_of u0 io db m) = disk_content u0 (mg_disk m) db"
  by (simp add: conn_of_def content_of_def disk_content_def split: option.splits)

lemma content_store_conn:
  "disk_content u0 (mg_disk (store_conn db c m)) k = (if k = db then content_of c else disk_content u0 (mg_disk m) k)"
  by (simp add: store_conn_def disk_content_def content_of_def files_of_def)

lemma quiet_open: "quiet io \<Longrightarrow> open_db sh dir u0 io dur db d = (Inr (), create_main u0 db d)"
proof -
  assume q: "quiet io"
  then have "run_steps (io_fail io) ss = Inr ()" for ss
    by (induction ss) (simp_all add: quiet_def)
  then show ?thesis
    using q by (simp add: open_db_def quick_check_def quiet_def)
qed

lemma quiet_ensure:
  assumes "quiet io" "check_format_version sh (mg_disk m) db = Inr ()"
  shows "fst (ensure_conn sh u0 io db m) = Inr ()"
proof -
  have "check_format_version sh (create_main u0 db (mg_disk m)) db = Inr ()"
    using assms(2) by (auto simp: check_format_version_def create_main_def files_of_def split: option.splits)
  then show ?thesis
    using assms(1) by (auto simp: ensure_conn_def quiet_open Let_def split: option.splits)
qed

text \<open>Work that only looks at the connection changes no content, and sees the content of its cell.\<close>

lemma in_conn_look:
  assumes "in_conn L io db f n = (r, n')" "\<And>c x. f (c, x) = (g c, c, x)"
  shows "cell_content (lb_empty L) n' k = cell_content (lb_empty L) n k" "dn_cache n' = dn_cache n"
    "dn_generations n' = dn_generations n" "mg_data_dir (dn_mgr n') = mg_data_dir (dn_mgr n)"
    "r = Inr a \<Longrightarrow> \<exists>c. content_of c = cell_content (lb_empty L) n db \<and> g c = Inr a"
    "quiet io \<Longrightarrow> format_ok L n db \<Longrightarrow> \<exists>c. content_of c = cell_content (lb_empty L) n db \<and> r = g c"
    "quiet io \<Longrightarrow> format_ok L n db \<Longrightarrow> mg_readonly (dn_mgr n') = mg_readonly (dn_mgr n)"
proof -
  obtain q m kc where q: "with_conn (lb_show L) (lb_empty L) io db f (dn_mgr n, dn_cache n) = (q, m, kc)"
    using prod_cases3 by blast
  have n': "r = q" "n' = n\<lparr>dn_mgr := m, dn_cache := kc\<rparr>"
    using assms(1) q by (simp_all add: in_conn_def)
  have dir: "mg_data_dir m1 = mg_data_dir (dn_mgr n)"
    if "ensure_conn (lb_show L) (lb_empty L) io db (acquire_lock io db (dn_mgr n)) = (p, m1)" for p m1
    using that by (cases rule: ensure_conn_cases) (auto simp: acquire_lock_def lock_granted_def lock_enter_def Let_def)
  have ro: "mg_readonly m1 = mg_readonly (dn_mgr n)"
    if "ensure_conn (lb_show L) (lb_empty L) io db (acquire_lock io db (dn_mgr n)) = (Inr (), m1)" for m1
    using that by (cases rule: ensure_conn_cases) (auto simp: acquire_lock_def lock_granted_def lock_enter_def Let_def)
  have all: "(\<forall>k. disk_content (lb_empty L) (mg_disk m) k = disk_content (lb_empty L) (mg_disk (dn_mgr n)) k) \<and> kc = dn_cache n
      \<and> mg_data_dir m = mg_data_dir (dn_mgr n)
      \<and> (q = Inr a \<longrightarrow> (\<exists>c. content_of c = disk_content (lb_empty L) (mg_disk (dn_mgr n)) db \<and> g c = Inr a))
      \<and> (quiet io \<and> format_ok L n db \<longrightarrow> (\<exists>c. content_of c = disk_content (lb_empty L) (mg_disk (dn_mgr n)) db \<and> q = g c)
          \<and> mg_readonly m = mg_readonly (dn_mgr n))"
    using q
  proof (cases rule: with_conn_cases)
    case (failed e)
    then show ?thesis
      using content_ensure_conn [OF failed(1)] dir quiet_ensure [of io "lb_show L" "acquire_lock io db (dn_mgr n)" db "lb_empty L"]
      by (auto simp: format_ok_def)
  next
    case (worked m1 c)
    let ?c = "conn_of (lb_empty L) io db m1"
    have c: "content_of ?c = disk_content (lb_empty L) (mg_disk (dn_mgr n)) db"
      using content_ensure_conn [OF worked(1)] by (simp add: conn_content)
    moreover have "q = g ?c" "c = ?c" "kc = dn_cache n"
      using worked(2) assms(2) by auto
    moreover have "disk_content (lb_empty L) (mg_disk m) k = disk_content (lb_empty L) (mg_disk (dn_mgr n)) k" for k
      using worked(3) \<open>c = ?c\<close> c content_ensure_conn [OF worked(1)] by (simp add: content_store_conn)
    moreover have "mg_data_dir m = mg_data_dir (dn_mgr n)" "mg_readonly m = mg_readonly (dn_mgr n)"
      using worked(3) dir [OF worked(1)] ro [OF worked(1)] by (simp_all add: store_conn_def)
    ultimately show ?thesis
      by auto
  qed
  show "cell_content (lb_empty L) n' k = cell_content (lb_empty L) n k" "dn_cache n' = dn_cache n"
    "dn_generations n' = dn_generations n" "mg_data_dir (dn_mgr n') = mg_data_dir (dn_mgr n)"
    "r = Inr a \<Longrightarrow> \<exists>c. content_of c = cell_content (lb_empty L) n db \<and> g c = Inr a"
    "quiet io \<Longrightarrow> format_ok L n db \<Longrightarrow> \<exists>c. content_of c = cell_content (lb_empty L) n db \<and> r = g c"
    "quiet io \<Longrightarrow> format_ok L n db \<Longrightarrow> mg_readonly (dn_mgr n') = mg_readonly (dn_mgr n)"
    using all n' by (auto simp: cell_content_def)
qed

section \<open>Full snapshots\<close>

lemma quiet_step [simp]: "quiet io \<Longrightarrow> step_or io what msg = done_with ()"
  by (simp add: step_or_def quiet_def)

lemma step_or_Inr: "step_or io what msg s = (Inr u, s') \<Longrightarrow> s' = s"
  by (auto simp: step_or_def op_defs split: option.splits)

lemma into_store_Inr: "into_store msg f (n, ob) = (Inr u, n', ob') \<Longrightarrow> n' = n \<and> f ob = (Inr (), ob')"
  by (auto simp: into_store_def split: prod.splits sum.splits)

text \<open>The files of one cell are exchanged and nothing else on the node changes.\<close>

definition exchanged :: "('c, 'u, 'f, 'n) libs \<Rightarrow> database_id \<Rightarrow> 'u cell_db \<Rightarrow> ('c, 'u) data_node \<Rightarrow> ('c, 'u) data_node \<Rightarrow> bool" where
  "exchanged L db c n n' \<longleftrightarrow> cell_content (lb_empty L) n' db = c
    \<and> (\<forall>k. k \<noteq> db \<longrightarrow> cell_content (lb_empty L) n' k = cell_content (lb_empty L) n k)
    \<and> dn_cache n' = dn_cache n \<and> dn_generations n' = dn_generations n \<and> mg_readonly (dn_mgr n') = mg_readonly (dn_mgr n)
    \<and> (\<forall>k. format_ok L n' k = format_ok L n k)"

lemma exchanged_trans: "exchanged L db c n n' \<Longrightarrow> exchanged L db c' n' n'' \<Longrightarrow> exchanged L db c' n n''"
  by (simp add: exchanged_def)

lemma put_files_run: "\<exists>n'. put_files im db snap wal (n, ob) = (Inr (), n', ob) \<and> exchanged L db (im_read im snap wal) n n'"
  by (auto simp: exchanged_def put_files_def on_node_def Let_def cell_content_def disk_content_def format_ok_def
      check_format_version_def files_of_def)

lemma drop_wal_run:
  assumes "quiet io"
  shows "\<exists>n'. drop_wal im io left db snap (n, ob) = (Inr (), n', ob) \<and> exchanged L db (im_read im snap None) n n'"
  using put_files_run [of im db snap None n ob L] assms by (simp add: drop_wal_def quiet_def)

lemma download_run: "quiet io \<Longrightarrow> os_get S ob key = Inr b \<Longrightarrow> download_snapshot S io parent what key (n, ob) = (Inr b, n, ob)"
  by (simp add: download_snapshot_def from_store_def op_defs)

lemma fetch_version_run:
  assumes "quiet io" "os_get S ob key = Inr b"
  shows "\<exists>n'. fetch_version S im sh io left db key (n, ob) = (Inr (), n', ob) \<and> exchanged L db (im_read im b None) n n'"
proof -
  obtain n1 where n1: "put_files im db b left (n, ob) = (Inr (), n1, ob)" "exchanged L db (im_read im b left) n n1"
    using put_files_run [of im db b left n ob L] by blast
  obtain n2 where n2: "drop_wal im io left db b (n1, ob) = (Inr (), n2, ob)" "exchanged L db (im_read im b None) n1 n2"
    using drop_wal_run [OF assms(1), of im left db b n1 ob L] by blast
  have "fetch_version S im sh io left db key (n, ob) = (Inr (), n2, ob)"
    by (simp add: fetch_version_def try_then_def download_run [OF assms] n1(1) n2(1))
  then show ?thesis
    using exchanged_trans n1(2) n2(2) by blast
qed

lemma close_run:
  "\<exists>n'. on_node (on_mgr (close_database io db)) (n, ob) = (Inr (), n', ob) \<and> exchanged L db (cell_content (lb_empty L) n db) n n'"
  by (auto simp: exchanged_def on_node_def on_mgr_def close_database_def acquire_lock_def lock_granted_def lock_enter_def Let_def
      cell_content_def format_ok_def)

lemma clear_run:
  assumes "moka_ok (lb_moka L)"
  shows "\<exists>n'. on_node (clear_cell L db) (n, ob) = (Inr (), n', ob) \<and> (\<forall>k. cell_content (lb_empty L) n' k = cell_content (lb_empty L) n k)
    \<and> dn_generations n' = dn_generations n \<and> mg_readonly (dn_mgr n') = mg_readonly (dn_mgr n) \<and> (\<forall>k. cached (lb_moka L) (dn_cache n') db k = None)"
proof -
  have "cached (lb_moka L) (clear_database (lb_moka L) db kc) db k = None" for kc k
    using cached_clear [OF assms, of db kc db k] by (cases "cached (lb_moka L) (clear_database (lb_moka L) db kc) db k") auto
  then show ?thesis
    by (auto simp: on_node_def clear_cell_def cell_content_def)
qed

text \<open>What a successful backup stores, and under which key.\<close>

lemma node_backup_stores:
  assumes "store_obeys S objs" "hex_text (lb_show L)"
    "node_backup L (Some S) im io ts drawn now db (n, ob) = (Inr info, n1, ob1)"
  shows "bi_key info = ''backups/'' @ lb_show L (db_uuid db) @ ''/'' @ show_nat ts @ ''-'' @ lb_show L drawn @ ''.sqlite''"
    "objs ob1 = (objs ob)(bi_key info \<mapsto> im_vacuum im (cell_content (lb_empty L) n db))"
proof -
  let ?f = "\<lambda>(c, x). case io_fail io ''vacuum'' of Some e \<Rightarrow> (Inl (Sql e), c, x) | None \<Rightarrow> (Inr (im_vacuum im (content_of c)), c, x)"
  let ?g = "\<lambda>c. case io_fail io ''vacuum'' of Some e \<Rightarrow> Inl (Sql e) | None \<Rightarrow> Inr (im_vacuum im (content_of c))"
  let ?key = "''backups/'' @ lb_show L (db_uuid db) @ ''/'' @ show_nat ts @ ''-'' @ lb_show L drawn @ ''.sqlite''"
  obtain r m where run: "in_conn L io db ?f n = (r, m)"
    by fastforce
  obtain snap where snap: "r = Inr snap"
    using assms(3) run by (cases r) (auto simp: node_backup_def with_store_def try_then_def on_node_def)
  have look: "\<exists>c. content_of c = cell_content (lb_empty L) n db \<and> ?g c = Inr snap"
    by (rule in_conn_look(5) [OF run _ snap]) (simp split: option.splits)
  then have s: "snap = im_vacuum im (cell_content (lb_empty L) n db)"
    by (auto split: option.splits)
  have up: "upload_snapshot S im (lb_show L) io ts drawn now db snap (m, ob) = (Inr info, n1, ob1)"
    using assms(3) run snap by (simp add: node_backup_def with_store_def try_then_def on_node_def)
  have "os_put S ?key snap ob = (Inr (), ob1) \<and> bi_key info = ?key"
    using up unfolding upload_snapshot_def os_keys(5) [OF assms(1,2)] Let_def
    by (auto simp: try_then_Inr_iff done_with_def dest!: step_or_Inr into_store_Inr)
  then show "bi_key info = ?key" "objs ob1 = (objs ob)(bi_key info \<mapsto> im_vacuum im (cell_content (lb_empty L) n db))"
    using store_obeysD(3) [OF assms(1)] s by auto
qed

lemma snapshot_restores:
  assumes "store_obeys S objs" "image_obeys im" "moka_ok (lb_moka L)" "hex_text (lb_show L)"
    "node_backup L (Some S) im io ts drawn now db (n, ob) = (Inr info, n1, ob1)"
    "objs ob2 (bi_key info) = objs ob1 (bi_key info)" "os_get S ob2 (bi_key info) = Inr b"
    "quiet io2" "format_ok L m db"
  shows "\<exists>m'. node_restore L (Some S) im io0 io2 io3 left ''ok'' db (Some (bi_key info)) (m, ob2) = (Inr (), m', ob2)
    \<and> cell_content (lb_empty L) m' db = cell_content (lb_empty L) n db
    \<and> (\<forall>k. k \<noteq> db \<longrightarrow> cell_content (lb_empty L) m' k = cell_content (lb_empty L) m k)
    \<and> (\<forall>k. cached (lb_moka L) (dn_cache m') db k = None)
    \<and> dn_generations m' = dn_generations m \<and> mg_readonly (dn_mgr m') = mg_readonly (dn_mgr m)"
proof -
  note key = node_backup_stores [OF assms(1,4,5)]
  have b: "im_read im b None = cell_content (lb_empty L) n db"
    using store_obeysD(4) [OF assms(1,7)] assms(6) key(2) image_obeysD(1) [OF assms(2)] by auto
  have path: "starts_with (bi_key info) (''backups/'' @ lb_show L (db_uuid db) @ ''/'')" "os_path S (bi_key info) = bi_key info"
    using os_keys(5) [OF assms(1,4)] by (auto simp: key(1) starts_with_iff)
  obtain m1 where m1: "on_node (on_mgr (close_database io0 db)) (m, ob2) = (Inr (), m1, ob2)"
    "exchanged L db (cell_content (lb_empty L) m db) m m1"
    using close_run [of io0 db m ob2 L] by blast
  obtain m2 where m2: "fetch_version S im (lb_show L) io2 left db (bi_key info) (m1, ob2) = (Inr (), m2, ob2)"
    "exchanged L db (im_read im b None) m1 m2"
    using fetch_version_run [OF assms(8,7), of im "lb_show L" left db m1 L] by blast
  let ?look = "\<lambda>(c, x). case io_fail io2 ''integrity_check'' of
      Some e \<Rightarrow> (Inl (Internal (''integrity check: '' @ e)), c, x) | None \<Rightarrow> (Inr ''ok'', c, x)"
  obtain r m3 where run: "in_conn L io2 db ?look m2 = (r, m3)"
    by fastforce
  note ex = exchanged_trans [OF m1(2) m2(2)]
  have fo: "format_ok L m2 db"
    using ex assms(9) by (simp add: exchanged_def)
  have eta: "?look (c, x) = ((\<lambda>_. Inr ''ok'') c, c, x)" for c x
    using assms(8) by (simp add: quiet_def)
  note look = in_conn_look [OF run eta]
  have r: "r = Inr ''ok''"
    using look(6) [OF assms(8) fo] by auto
  obtain m4 where m4: "on_node (clear_cell L db) (m3, ob2) = (Inr (), m4, ob2)"
    "\<forall>k. cell_content (lb_empty L) m4 k = cell_content (lb_empty L) m3 k" "dn_generations m4 = dn_generations m3"
    "mg_readonly (dn_mgr m4) = mg_readonly (dn_mgr m3)" "\<forall>k. cached (lb_moka L) (dn_cache m4) db k = None"
    using clear_run [OF assms(3), of db m3 ob2] by blast
  have m3: "on_node (in_conn L io2 db ?look) (m2, ob2) = (Inr ''ok'', m3, ob2)" and ok: "trim ''ok'' = ''ok''"
    by (simp add: on_node_def run r) code_simp
  have "node_restore L (Some S) im io0 io2 io3 left ''ok'' db (Some (bi_key info)) (m, ob2) = (Inr (), m4, ob2)"
    using path
    by (simp add: node_restore_def with_store_def Let_def try_then_def path m1(1) m2(1) m3 m4(1) ok)
  then show ?thesis
    using m4 look(1-3) look(7) [OF assms(8) fo] ex b by (auto simp: exchanged_def)
qed

text \<open>
  C11: A full backup gives back what was backed up. Take a snapshot of a cell on one node; later,
  after any other changes to the object store and on any node, restoring the key the backup
  returned succeeds when the object can be fetched and neither the system nor SQLite fails, and then
  the cell holds exactly the KV rows and user tables of the moment of the backup, no other cell has
  changed, the node's cache holds nothing of the cell, and the fence and read-only marks are as before.
\<close>

theorem backup_restores:
  assumes "store_obeys S objs" "image_obeys im" "moka_ok (lb_moka L)" "hex_text (lb_show L)"
    "node_backup L (Some S) im io ts drawn now db (n, ob) = (Inr info, n1, ob1)"
    "objs ob2 (bi_key info) = objs ob1 (bi_key info)" "os_get S ob2 (bi_key info) = Inr b"
    "quiet io2" "format_ok L m db"
  shows "\<exists>m'. node_restore L (Some S) im io0 io2 io3 left ''ok'' db (Some (bi_key info)) (m, ob2) = (Inr (), m', ob2)
    \<and> cell_content (lb_empty L) m' db = cell_content (lb_empty L) n db
    \<and> (\<forall>k. k \<noteq> db \<longrightarrow> cell_content (lb_empty L) m' k = cell_content (lb_empty L) m k)
    \<and> (\<forall>k. cached (lb_moka L) (dn_cache m') db k = None)
    \<and> dn_generations m' = dn_generations m \<and> mg_readonly (dn_mgr m') = mg_readonly (dn_mgr m)"
  by (rule snapshot_restores [OF assms])

section \<open>Incremental archives\<close>

lemma copy_files_look:
  "copy_files im io k (c, x) = ((case io_fail io ''create tmp dir'' of Some e \<Rightarrow> Inl (Internal (''create tmp dir: '' @ e)) | None \<Rightarrow>
    (case io_fail io ''copy db'' of Some e \<Rightarrow> Inl (Internal (''copy db: '' @ e)) | None \<Rightarrow>
      (if snd (im_files im k (content_of c)) = None then Inr (im_files im k (content_of c))
       else case io_fail io ''copy wal'' of Some e \<Rightarrow> Inl (Internal (''copy wal: '' @ e)) | None \<Rightarrow> Inr (im_files im k (content_of c))))), c, x)"
  by (auto simp: copy_files_def step_or_def op_defs split: option.splits prod.splits)

text \<open>The archive of a replicating node: the objects of the newest revision and what they hold.\<close>

lemma replicate_run:
  assumes "moka_ok (lb_moka L)" "quiet io" "os_list S ob (incr_prefix S (lb_show L) db) = Inr names"
    "newest_pair names = Some (sk, wk)" "os_get S ob sk = Inr snap" "case wk of None \<Rightarrow> wal = None | Some k \<Rightarrow> map_sum id Some (os_get S ob k) = Inr wal"
  shows "\<exists>n'. replicate_from_primary L (Some S) im io left db (n, ob) = (Inr True, n', ob)
    \<and> cell_content (lb_empty L) n' db = im_read im snap wal
    \<and> (\<forall>k. k \<noteq> db \<longrightarrow> cell_content (lb_empty L) n' k = cell_content (lb_empty L) n k)
    \<and> (\<forall>k. cached (lb_moka L) (dn_cache n') db k = None) \<and> dn_generations n' = dn_generations n"
proof -
  obtain n1 where n1: "on_node (on_mgr (close_database io db)) (n, ob) = (Inr (), n1, ob)"
    "exchanged L db (cell_content (lb_empty L) n db) n n1"
    using close_run [of io db n ob L] by blast
  obtain n2 where n2: "put_files im db snap left (n1, ob) = (Inr (), n2, ob)" "exchanged L db (im_read im snap left) n1 n2"
    using put_files_run [of im db snap left n1 ob L] by blast
  have "\<exists>n3. (case wk of Some k \<Rightarrow> try_then (download_snapshot S io (db_parent (lb_show L) (mg_data_dir (dn_mgr n1)) db) ''wal'' k)
        (\<lambda>w. put_files im db snap (Some w)) | None \<Rightarrow> drop_wal im io left db snap) (n2, ob) = (Inr (), n3, ob)
      \<and> exchanged L db (im_read im snap wal) n2 n3"
  proof (cases wk)
    case None
    then show ?thesis
      using assms(6) drop_wal_run [OF assms(2), of im left db snap n2 ob L] by simp
  next
    case (Some k)
    then obtain w where "os_get S ob k = Inr w" "wal = Some w"
      using assms(6) by (cases "os_get S ob k") auto
    then show ?thesis
      using Some put_files_run [of im db snap wal n2 ob L] by (simp add: try_then_def download_run [OF assms(2)])
  qed
  then obtain n3 where n3: "(case wk of Some k \<Rightarrow> try_then (download_snapshot S io (db_parent (lb_show L) (mg_data_dir (dn_mgr n1)) db) ''wal'' k)
        (\<lambda>w. put_files im db snap (Some w)) | None \<Rightarrow> drop_wal im io left db snap) (n2, ob) = (Inr (), n3, ob)"
      "exchanged L db (im_read im snap wal) n2 n3"
    by blast
  obtain n4 where n4: "on_node (clear_cell L db) (n3, ob) = (Inr (), n4, ob)"
    "\<forall>k. cell_content (lb_empty L) n4 k = cell_content (lb_empty L) n3 k" "dn_generations n4 = dn_generations n3"
    "\<forall>k. cached (lb_moka L) (dn_cache n4) db k = None"
    using clear_run [OF assms(1), of db n3 ob] by blast
  have l: "latest_incr S (lb_show L) db (n1, ob) = (Inr (Some (sk, wk)), n1, ob)"
    using assms(3,4) by (simp add: latest_incr_def from_store_def)
  have "restore_from_incr S im (lb_show L) io left db (n1, ob) = (Inr True, n3, ob)"
    unfolding restore_from_incr_def
    by (simp add: try_then_def l Let_def download_run [OF assms(2,5)] n2(1) n3(1) done_with_def)
  then have "replicate_from_primary L (Some S) im io left db (n, ob) = (Inr True, n4, ob)"
    by (simp add: replicate_from_primary_def with_store_def try_then_def n1(1) n4(1) done_with_def)
  then show ?thesis
    using n4 exchanged_trans [OF exchanged_trans [OF n1(2) n2(2)] n3(2)] by (auto simp: exchanged_def)
qed

lemma incremental_stores:
  assumes "store_obeys S objs" "hex_text (lb_show L)"
    "incremental_backup L (Some S) im io k rv db (n, ob) = (Inr info, n1, ob1)"
    "im_files im k (cell_content (lb_empty L) n db) = (snap, wal)"
  shows "objs ob1 = (if wal = None \<or> im_len im (the wal) = 0 then (objs ob)(snap_key (lb_show L) db rv \<mapsto> snap)
      else (objs ob)(snap_key (lb_show L) db rv \<mapsto> snap, wal_key (lb_show L) db rv \<mapsto> the wal))"
    "cell_content (lb_empty L) n1 db = cell_content (lb_empty L) n db"
proof -
  obtain r m where run: "in_conn L io db (copy_files im io k) n = (r, m)"
    by fastforce
  obtain x where x: "r = Inr x"
    using assms(3) run by (cases r) (auto simp: incremental_backup_def with_store_def try_then_def on_node_def)
  note look = in_conn_look [OF run copy_files_look]
  have "x = (snap, wal)"
    using look(5) [OF x] assms(4) by (auto split: option.splits if_splits)
  then have "try_then (step_or io ''read snap tmp'' ''read snap tmp: '') (\<lambda>_.
      try_then (if wal = None then done_with () else step_or io ''read wal tmp'' ''read wal tmp: '') (\<lambda>_.
        upload_incr S im (lb_show L) rv db snap wal)) (m, ob) = (Inr info, n1, ob1)"
    using assms(3) run x by (simp add: incremental_backup_def with_store_def try_then_def on_node_def)
  then have up: "upload_incr S im (lb_show L) rv db snap wal (m, ob) = (Inr info, n1, ob1)"
    by (auto simp: try_then_Inr_iff done_with_def dest!: step_or_Inr split: if_splits)
  have "n1 = m \<and> objs ob1 = (if wal = None \<or> im_len im (the wal) = 0 then (objs ob)(snap_key (lb_show L) db rv \<mapsto> snap)
      else (objs ob)(snap_key (lb_show L) db rv \<mapsto> snap, wal_key (lb_show L) db rv \<mapsto> the wal))"
    using up store_obeysD(3) [OF assms(1)] unfolding upload_incr_def os_keys(1,2) [OF assms(1,2)] Let_def
    by (cases wal) (auto simp: try_then_Inr_iff done_with_def dest!: into_store_Inr split: if_splits)
  then show "objs ob1 = (if wal = None \<or> im_len im (the wal) = 0 then (objs ob)(snap_key (lb_show L) db rv \<mapsto> snap)
      else (objs ob)(snap_key (lb_show L) db rv \<mapsto> snap, wal_key (lb_show L) db rv \<mapsto> the wal))"
    "cell_content (lb_empty L) n1 db = cell_content (lb_empty L) n db"
    using look(1) by auto
qed

text \<open>Every archive of the cell in the store is older than the revision.\<close>

definition older_archives :: "('o, 'b) object_store \<Rightarrow> ('o \<Rightarrow> str \<Rightarrow> 'b option) \<Rightarrow> (uuid \<Rightarrow> str) \<Rightarrow> database_id \<Rightarrow> 'o \<Rightarrow> nat \<Rightarrow> bool" where
  "older_archives S objs sh db ob rv \<longleftrightarrow> (\<forall>k r. objs ob k \<noteq> None \<and> starts_with k (incr_prefix S sh db @ ''/'') \<and> parse_rev k = Some r \<longrightarrow> r < rv)"

lemma newest_listed:
  assumes "store_obeys S objs" "hex_text sh" "older_archives S objs sh db ob rv" "rv < 2 ^ 128"
    "objs ob1 = (if w = None then (objs ob)(snap_key sh db rv \<mapsto> snap) else (objs ob)(snap_key sh db rv \<mapsto> snap, wal_key sh db rv \<mapsto> the w))"
    "os_list S ob1 (incr_prefix S sh db) = Inr names"
  shows "newest_pair names = Some (snap_key sh db rv, if w = None then None else Some (wal_key sh db rv))"
    "snap_key sh db rv \<in> set names" "w \<noteq> None \<Longrightarrow> wal_key sh db rv \<in> set names" "objs ob1 (snap_key sh db rv) = Some snap"
    "w \<noteq> None \<Longrightarrow> objs ob1 (wal_key sh db rv) = w"
proof -
  let ?sk = "snap_key sh db rv" and ?wk = "wal_key sh db rv"
  note keys = os_keys(3) [OF assms(1,2)]
  have under: "starts_with ?sk (incr_prefix S sh db @ ''/'')" "starts_with ?wk (incr_prefix S sh db @ ''/'')"
    by (auto simp: keys snap_key_def wal_key_def starts_with_iff)
  note p = parse_rev_keys [OF assms(2,4), of db]
  have ne: "?sk \<noteq> ?wk"
    using p(1,2) by auto
  have names: "set names = {k \<in> dom (objs ob1). starts_with k (incr_prefix S sh db @ ''/'')}"
    using store_obeysD(5) [OF assms(1,6)] .
  have old: "objs ob ?wk = None"
    using assms(3) p(5) under(2) unfolding older_archives_def by (metis less_irrefl)
  have sk: "?sk \<in> set names"
    using assms(5) under(1) by (auto simp: names split: if_splits)
  have wk: "?wk \<in> set names \<longleftrightarrow> w \<noteq> None"
    using assms(5) under(2) old ne by (auto simp: names split: if_splits)
  have "r < rv \<or> name = ?sk \<or> name = ?wk" if "name \<in> set names" "parse_rev name = Some r" for name r
    using that assms(3,5) by (auto simp: names older_archives_def split: if_splits)
  from newest_pair_of [OF assms(2,4) sk this] wk
  show "newest_pair names = Some (?sk, if w = None then None else Some ?wk)"
    by simp
  show "?sk \<in> set names" "w \<noteq> None \<Longrightarrow> ?wk \<in> set names" "objs ob1 ?sk = Some snap" "w \<noteq> None \<Longrightarrow> objs ob1 ?wk = w"
    using sk wk assms(5) ne by auto
qed

lemma replicate_archived:
  assumes "store_obeys S objs" "image_obeys im" "moka_ok (lb_moka L)" "hex_text (lb_show L)"
    "older_archives S objs (lb_show L) db ob rv" "rv < 2 ^ 128"
    "incremental_backup L (Some S) im io k rv db (p, ob) = (Inr info, p1, ob1)"
    "os_list S ob1 (incr_prefix S (lb_show L) db) = Inr names" "\<forall>name \<in> set names. \<exists>b. os_get S ob1 name = Inr b"
    "quiet io2"
  shows "\<exists>r'. replicate_from_primary L (Some S) im io2 left db (r, ob1) = (Inr True, r', ob1)
    \<and> cell_content (lb_empty L) r' db = cell_content (lb_empty L) p db
    \<and> (\<forall>k. k \<noteq> db \<longrightarrow> cell_content (lb_empty L) r' k = cell_content (lb_empty L) r k)
    \<and> (\<forall>k. cached (lb_moka L) (dn_cache r') db k = None) \<and> dn_generations r' = dn_generations r"
proof -
  let ?sk = "snap_key (lb_show L) db rv" and ?wk = "wal_key (lb_show L) db rv"
  obtain snap wal where f: "im_files im k (cell_content (lb_empty L) p db) = (snap, wal)"
    by fastforce
  define w where "w = (if wal = None \<or> im_len im (the wal) = 0 then None else wal)"
  have ob1: "objs ob1 = (if w = None then (objs ob)(?sk \<mapsto> snap) else (objs ob)(?sk \<mapsto> snap, ?wk \<mapsto> the w))"
    using incremental_stores(1) [OF assms(1,4,7) f] by (auto simp: w_def)
  note new = newest_listed [OF assms(1,4,5,6) ob1 assms(8)]
  have get: "os_get S ob1 name = Inr b" if "name \<in> set names" "objs ob1 name = Some b" for name b
    using that assms(9) store_obeysD(4) [OF assms(1)] by fastforce
  have "im_read im snap wal = cell_content (lb_empty L) p db"
    using image_obeysD(2) [OF assms(2) f] .
  then have c: "im_read im snap w = cell_content (lb_empty L) p db"
    using image_obeysD(3) [OF assms(2), of "the wal" snap] by (cases wal) (auto simp: w_def)
  have "case (if w = None then None else Some ?wk) of None \<Rightarrow> w = None | Some k \<Rightarrow> map_sum id Some (os_get S ob1 k) = Inr w"
    using get [of ?wk "the w"] new(3,5) by (cases w) auto
  from replicate_run [OF assms(3,10,8) new(1) get [OF new(2,4)] this, of im left r] c show ?thesis
    by simp
qed

text \<open>
  C12: A replica that catches up holds what its primary archived. Archive a cell on the primary under a
  revision newer than the cell's archives in the store; if the objects can be listed and fetched and
  the system does not fail, replicating on another node succeeds, the replica's cell then holds
  exactly the rows and tables of the primary at that moment, whether or not part of them was only in
  the write-ahead log, and its cache holds nothing of the cell.
\<close>

theorem replica_catches_up:
  assumes "store_obeys S objs" "image_obeys im" "moka_ok (lb_moka L)" "hex_text (lb_show L)"
    "older_archives S objs (lb_show L) db ob rv" "rv < 2 ^ 128"
    "incremental_backup L (Some S) im io k rv db (p, ob) = (Inr info, p1, ob1)"
    "os_list S ob1 (incr_prefix S (lb_show L) db) = Inr names" "\<forall>name \<in> set names. \<exists>b. os_get S ob1 name = Inr b"
    "quiet io2"
  shows "\<exists>r'. replicate_from_primary L (Some S) im io2 left db (r, ob1) = (Inr True, r', ob1)
    \<and> cell_content (lb_empty L) r' db = cell_content (lb_empty L) p db
    \<and> (\<forall>k. k \<noteq> db \<longrightarrow> cell_content (lb_empty L) r' k = cell_content (lb_empty L) r k)
    \<and> (\<forall>k. cached (lb_moka L) (dn_cache r') db k = None) \<and> dn_generations r' = dn_generations r"
  by (rule replicate_archived [OF assms])

text \<open>
  C37: A torn archive is taken for a whole one. The main file is uploaded before its write-ahead log;
  when the second upload fails the backup reports the error, but the main file alone stays in the
  store as the newest archive, and the next replication takes it: the replica then holds what the
  main file has without the log, even where an older archive was complete.
\<close>

theorem torn_archive_applied:
  assumes "store_obeys S objs" "moka_ok (lb_moka L)" "hex_text (lb_show L)"
    "older_archives S objs (lb_show L) db ob rv" "rv < 2 ^ 128" "quiet io" "format_ok L p db"
    "im_files im k (cell_content (lb_empty L) p db) = (snap, Some w)" "im_len im w \<noteq> 0"
    "os_put S (snap_key (lb_show L) db rv) snap ob = (Inr (), ob0)" "os_put S (wal_key (lb_show L) db rv) w ob0 = (Inl e, ob1)"
    "objs ob1 = objs ob0"
    "os_list S ob1 (incr_prefix S (lb_show L) db) = Inr names" "os_get S ob1 (snap_key (lb_show L) db rv) = Inr b"
  shows "(\<exists>p1. incremental_backup L (Some S) im io k rv db (p, ob) = (Inl (Internal (''upload incr wal: '' @ e)), p1, ob1))
    \<and> (\<exists>r'. replicate_from_primary L (Some S) im io left db (r, ob1) = (Inr True, r', ob1)
      \<and> cell_content (lb_empty L) r' db = im_read im snap None)"
proof -
  obtain x m where run: "in_conn L io db (copy_files im io k) p = (x, m)"
    by fastforce
  have x: "x = Inr (snap, Some w)"
    using in_conn_look(6) [OF run copy_files_look assms(6,7)] assms(6,8) by (auto simp: quiet_def)
  have "incremental_backup L (Some S) im io k rv db (p, ob) = (Inl (Internal (''upload incr wal: '' @ e)), m, ob1)"
    using run x assms(6,9-11)
    by (simp add: incremental_backup_def with_store_def try_then_def on_node_def done_with_def upload_incr_def into_store_def
        os_keys(1,2) [OF assms(1,3)] Let_def)
  moreover have "objs ob1 = (if None = None then (objs ob)(snap_key (lb_show L) db rv \<mapsto> snap)
      else (objs ob)(snap_key (lb_show L) db rv \<mapsto> snap, wal_key (lb_show L) db rv \<mapsto> the None))"
    using store_obeysD(3) [OF assms(1,10)] assms(12) by simp
  note new = newest_listed [OF assms(1,3,4,5) this assms(13)]
  have "b = snap"
    using new(4) store_obeysD(4) [OF assms(1,14)] by simp
  with replicate_run [OF assms(2,6,13) new(1) assms(14), of None im left r]
  have "\<exists>r'. replicate_from_primary L (Some S) im io left db (r, ob1) = (Inr True, r', ob1)
      \<and> cell_content (lb_empty L) r' db = im_read im snap None"
    by auto
  ultimately show ?thesis
    by blast
qed

section \<open>Concrete libraries\<close>

text \<open>
  A store that keeps its objects in a list, one that in addition refuses objects whose name has a
  given ending, and files that hold databases as they are: before the first checkpoint everything is
  in the log.
\<close>

definition list_store :: "((str \<times> 'b) list, 'b) object_store" where
  "list_store = \<lparr>os_path = (\<lambda>p. if p \<noteq> [] \<and> last p = CHR ''/'' then butlast p else p),
    os_put = (\<lambda>k v ob. (Inr (), AList.update k v ob)),
    os_get = (\<lambda>ob k. case map_of ob k of Some v \<Rightarrow> Inr v | None \<Rightarrow> Inl ''not found''),
    os_list = (\<lambda>ob p. Inr (filter (\<lambda>k. starts_with k (p @ ''/'')) (map fst ob)))\<rparr>"

definition failing_store :: "str \<Rightarrow> ((str \<times> 'b) list, 'b) object_store" where
  "failing_store sfx = list_store\<lparr>os_put := (\<lambda>k v ob.
    if starts_with (rev k) (rev sfx) then (Inl ''connection reset'', ob) else (Inr (), AList.update k v ob))\<rparr>"

definition plain_image :: "('u cell_db \<Rightarrow> 'u cell_db list) \<Rightarrow> ('u, 'u cell_db list) image" where
  "plain_image blank = \<lparr>im_vacuum = (\<lambda>c. [c]),
    im_files = (\<lambda>k c. if k = 0 then (blank c, Some [c]) else ([c], None)),
    im_read = (\<lambda>s w. case w of Some (c # _) \<Rightarrow> c | _ \<Rightarrow> hd s), im_len = length, im_sha256 = (\<lambda>_. [])\<rparr>"

lemma join_path_last: "segs \<noteq> [] \<Longrightarrow> list_all plain_seg segs \<Longrightarrow> join_path segs \<noteq> [] \<and> last (join_path segs) \<noteq> CHR ''/''"
proof (induction segs rule: join_path.induct)
  case (2 s)
  have slash: "\<not> plain_char (CHR ''/'')"
    by code_simp
  have "s \<noteq> []" "plain_char (last s)"
    using 2 last_in_set [of s] by (auto simp: plain_seg_def list_all_iff)
  then show ?case
    using slash by (cases "last s = CHR ''/''") auto
qed auto

lemma list_store_laws:
  "segs \<noteq> [] \<Longrightarrow> list_all plain_seg segs \<Longrightarrow> os_path list_store (join_path segs) = join_path segs"
  "segs \<noteq> [] \<Longrightarrow> list_all plain_seg segs \<Longrightarrow> os_path list_store (join_path segs @ ''/'') = join_path segs"
  "os_get list_store ob k = Inr v \<Longrightarrow> map_of ob k = Some v"
  "os_list list_store ob p = Inr ks \<Longrightarrow> set ks = {k \<in> dom (map_of ob). starts_with k (p @ ''/'')}"
proof -
  show "segs \<noteq> [] \<Longrightarrow> list_all plain_seg segs \<Longrightarrow> os_path list_store (join_path segs) = join_path segs"
    "segs \<noteq> [] \<Longrightarrow> list_all plain_seg segs \<Longrightarrow> os_path list_store (join_path segs @ ''/'') = join_path segs"
    using join_path_last [of segs] by (simp_all add: list_store_def)
  show "os_get list_store ob k = Inr v \<Longrightarrow> map_of ob k = Some v"
    by (simp add: list_store_def split: option.splits)
  show "os_list list_store ob p = Inr ks \<Longrightarrow> set ks = {k \<in> dom (map_of ob). starts_with k (p @ ''/'')}"
    by (force simp: list_store_def dom_map_of_conv_image_fst)
qed

lemma list_store_obeys: "store_obeys list_store map_of"
  unfolding store_obeys_def
proof (intro conjI allI impI)
  fix k :: str and v :: 'b and ob ob'
  assume "os_put list_store k v ob = (Inr (), ob')"
  then show "map_of ob' = (map_of ob)(k \<mapsto> v)"
    by (auto simp: list_store_def update_conv')
qed (fact list_store_laws)+

lemma failing_store_obeys: "store_obeys (failing_store sfx) (map_of :: (str \<times> 'b) list \<Rightarrow> str \<Rightarrow> 'b option)"
proof -
  have same: "os_path (failing_store sfx :: (_, 'b) object_store) = os_path (list_store :: (_, 'b) object_store)" "os_get (failing_store sfx) = os_get list_store"
    "os_list (failing_store sfx :: (_, 'b) object_store) = os_list (list_store :: (_, 'b) object_store)"
    by (simp_all add: failing_store_def)
  show ?thesis
    unfolding store_obeys_def same
  proof (intro conjI allI impI)
    fix k :: str and v :: 'b and ob ob'
    assume "os_put (failing_store sfx) k v ob = (Inr (), ob')"
    then show "map_of ob' = (map_of ob)(k \<mapsto> v)"
      by (auto simp: failing_store_def list_store_def update_conv' split: if_splits)
  qed (fact list_store_laws)+
qed

lemma failing_lists: "os_list (failing_store sfx) ob p = Inr (filter (\<lambda>k. starts_with k (p @ ''/'')) (map fst ob))"
  by (simp add: failing_store_def list_store_def)

lemma failing_gets: "\<forall>k \<in> set (filter P (map fst ob)). \<exists>b. os_get (failing_store sfx) ob k = Inr b"
proof
  fix k
  assume "k \<in> set (filter P (map fst ob))"
  then obtain b where "map_of ob k = Some b"
    by (cases "map_of ob k") (auto simp: map_of_eq_None_iff)
  then show "\<exists>b. os_get (failing_store sfx) ob k = Inr b"
    by (simp add: failing_store_def list_store_def)
qed

lemma image_instance: "image_obeys (plain_image blank)"
  by (auto simp: image_obeys_def plain_image_def split: option.splits list.splits)

lemma exact_hex: "hex_text (lb_show exact_libs)"
  by (auto simp: hex_text_def exact_libs_def uuid_dec_def hex_char_def list_all_iff dest: show_nat_digits)

definition late_image :: "(nat \<times> nat option, (nat \<times> nat option) cell_db list) image" where
  "late_image = plain_image (\<lambda>_. [\<lparr>db_kv = [], db_user = (0, None)\<rparr>])"

lemma late_obeys: "image_obeys late_image"
  by (simp add: late_image_def image_instance)

lemma nothing_older: "older_archives S map_of sh db [] rv"
  by (simp add: older_archives_def)

definition fresh_node :: "((cache_key \<times> cached_value) list, nat \<times> nat option) data_node" where
  "fresh_node = node_new exact_libs small_config []"

definition snapped :: "backup_info result \<times> ((cache_key \<times> cached_value) list, nat \<times> nat option) data_node
    \<times> (str \<times> (nat \<times> nat option) cell_db list) list" where
  "snapped = node_backup exact_libs (Some list_store) late_image (calm 2) 7 5 8 (DatabaseId 1) (written_node, [])"

lemma quiet_calm: "quiet (calm t)"
proof -
  have "trim ''ok'' = ''ok''"
    by code_simp
  then show ?thesis
    by (simp add: quiet_def calm_def)
qed

lemma exact_moka: "moka_ok (lb_moka exact_libs)"
  by (simp add: exact_libs_def map_moka_ok)

lemma witness_formats: "format_ok exact_libs fresh_node (DatabaseId 1)" "format_ok exact_libs written_node (DatabaseId 1)"
  unfolding format_ok_def by code_simp+

theorem backup_restores_witness:
  "\<exists>info n1 ob1 m'. snapped = (Inr info, n1, ob1)
    \<and> node_restore exact_libs (Some list_store) late_image (calm 3) (calm 3) (calm 3) None ''ok'' (DatabaseId 1) (Some (bi_key info)) (fresh_node, ob1)
      = (Inr (), m', ob1)
    \<and> live 104 (db_kv (cell_content (0, None) m' (DatabaseId 1))) ''k'' = Some (''v'', Some 110)"
proof -
  obtain r n1 ob1 where sn: "snapped = (r, n1, ob1)"
    using prod_cases3 by blast
  have "is_ok (fst snapped)"
    by code_simp
  then obtain info where info: "r = Inr info"
    unfolding sn by (cases r) auto
  note run = sn [unfolded info snapped_def]
  obtain b where b: "os_get list_store ob1 (bi_key info) = Inr b"
    using node_backup_stores(2) [OF list_store_obeys exact_hex run] by (simp add: list_store_def)
  have "live 104 (db_kv (cell_content (0, None) written_node (DatabaseId 1))) ''k'' = Some (''v'', Some 110)"
    by code_simp
  moreover have "lb_empty exact_libs = (0, None)"
    by (simp add: exact_libs_def)
  ultimately obtain m' where
      "node_restore exact_libs (Some list_store) late_image (calm 3) (calm 3) (calm 3) None ''ok'' (DatabaseId 1) (Some (bi_key info)) (fresh_node, ob1)
        = (Inr (), m', ob1)"
      "live 104 (db_kv (cell_content (0, None) m' (DatabaseId 1))) ''k'' = Some (''v'', Some 110)"
    using backup_restores [OF list_store_obeys late_obeys exact_moka exact_hex run refl b quiet_calm [of 3] witness_formats(1),
        of "calm 3" "calm 3" None]
    by auto
  then show ?thesis
    using sn info by (intro exI [of _ info] exI [of _ n1] exI [of _ ob1] exI [of _ m']) simp
qed

definition archive :: "nat \<Rightarrow> (str \<times> (nat \<times> nat option) cell_db list) list \<Rightarrow> backup_info result
    \<times> ((cache_key \<times> cached_value) list, nat \<times> nat option) data_node \<times> (str \<times> (nat \<times> nat option) cell_db list) list" where
  "archive rv ob = incremental_backup exact_libs (Some (failing_store ''wal-7.sqlite-wal'')) late_image (calm 2) 0 rv (DatabaseId 1) (written_node, ob)"

definition archived :: "(str \<times> (nat \<times> nat option) cell_db list) list" where
  "archived = snd (snd (archive 6 []))"

lemma archived_eval:
  "is_ok (fst (archive 6 []))" "map fst archived = [snap_key uuid_dec (DatabaseId 1) 6, wal_key uuid_dec (DatabaseId 1) 6]"
  by code_simp+

lemma archived_run: "\<exists>info p1. archive 6 [] = (Inr info, p1, archived)"
proof -
  obtain r n1 ob1 where ar: "archive 6 [] = (r, n1, ob1)"
    using prod_cases3 by blast
  then show ?thesis
    using archived_eval(1) by (cases r) (auto simp: archived_def)
qed

lemma archived_applies:
  "\<exists>r'. replicate_from_primary exact_libs (Some (failing_store ''wal-7.sqlite-wal'')) late_image (calm 3) None (DatabaseId 1) (fresh_node, archived)
    = (Inr True, r', archived)"
proof -
  obtain info p1 where run: "archive 6 [] = (Inr info, p1, archived)"
    using archived_run by blast
  show ?thesis
    using replicate_archived [OF failing_store_obeys late_obeys exact_moka exact_hex nothing_older _ run [unfolded archive_def] failing_lists failing_gets
        quiet_calm [of 3], where left = None and r = fresh_node] by auto
qed

theorem replica_catches_up_witness:
  "\<exists>info p1 r'. archive 6 [] = (Inr info, p1, archived)
    \<and> replicate_from_primary exact_libs (Some (failing_store ''wal-7.sqlite-wal'')) late_image (calm 3) None (DatabaseId 1) (fresh_node, archived) = (Inr True, r', archived)
    \<and> live 104 (db_kv (cell_content (0, None) r' (DatabaseId 1))) ''k'' = Some (''v'', Some 110)"
proof -
  obtain info p1 where ar: "archive 6 [] = (Inr info, p1, archived)"
    using archived_run by blast
  note run = ar [unfolded archive_def]
  have "live 104 (db_kv (cell_content (0, None) written_node (DatabaseId 1))) ''k'' = Some (''v'', Some 110)"
    by code_simp
  moreover have "lb_empty exact_libs = (0, None)"
    by (simp add: exact_libs_def)
  ultimately show ?thesis
    using replica_catches_up [OF failing_store_obeys late_obeys exact_moka exact_hex nothing_older _ run failing_lists failing_gets quiet_calm [of 3], where left = None and r = fresh_node] ar
    by auto
qed

definition torn :: "(str \<times> (nat \<times> nat option) cell_db list) list" where
  "torn = AList.update (snap_key uuid_dec (DatabaseId 1) 7) [\<lparr>db_kv = [], db_user = (0, None)\<rparr>] archived"

theorem torn_archive_applied_witness:
  "map_of archived (wal_key uuid_dec (DatabaseId 1) 6) \<noteq> None
    \<and> (\<exists>p1. archive 7 archived = (Inl (Internal ''upload incr wal: connection reset''), p1, torn))
    \<and> (\<exists>r'. replicate_from_primary exact_libs (Some (failing_store ''wal-7.sqlite-wal'')) late_image (calm 2) None (DatabaseId 1) (fresh_node, torn) = (Inr True, r', torn)
      \<and> db_kv (cell_content (0, None) r' (DatabaseId 1)) = [])
    \<and> live 104 (db_kv (cell_content (0, None) written_node (DatabaseId 1))) ''k'' = Some (''v'', Some 110)"
proof -
  let ?S = "failing_store ''wal-7.sqlite-wal''" and ?db = "DatabaseId 1"
  have sh: "lb_show exact_libs = uuid_dec" "lb_empty exact_libs = (0, None)"
    by (simp_all add: exact_libs_def)
  have only: "k = snap_key uuid_dec ?db 6 \<or> k = wal_key uuid_dec ?db 6" if "map_of archived k \<noteq> None" for k
  proof -
    have "k \<in> set (map fst archived)"
      using that by (auto simp: map_of_eq_None_iff)
    then show ?thesis
      unfolding archived_eval(2) by simp
  qed
  have revs: "parse_rev (snap_key uuid_dec ?db 6) = Some 6" "parse_rev (wal_key uuid_dec ?db 6) = Some 6"
    using parse_rev_keys(4,5) [OF exact_hex, of 6 ?db] by (simp_all add: sh)
  have older: "older_archives ?S map_of (lb_show exact_libs) ?db archived 7"
    unfolding older_archives_def sh using only revs by fastforce
  have eval: "map_of archived (wal_key uuid_dec ?db 6) \<noteq> None"
      "live 104 (db_kv (cell_content (0, None) written_node ?db)) ''k'' = Some (''v'', Some 110)"
    by code_simp+
  have ends: "starts_with (rev (wal_key uuid_dec ?db 7)) (rev ''wal-7.sqlite-wal'')"
      "\<not> starts_with (rev (snap_key uuid_dec ?db 7)) (rev ''wal-7.sqlite-wal'')"
    by code_simp+
  have puts: "os_put ?S (snap_key (lb_show exact_libs) ?db 7) [\<lparr>db_kv = [], db_user = (0, None)\<rparr>] archived = (Inr (), torn)"
      "os_put ?S (wal_key (lb_show exact_libs) ?db 7) w torn = (Inl ''connection reset'', torn)"
      "os_get ?S torn (snap_key (lb_show exact_libs) ?db 7) = Inr [\<lparr>db_kv = [], db_user = (0, None)\<rparr>]" for w
    using ends by (simp_all add: sh torn_def failing_store_def list_store_def)
  show ?thesis
    using torn_archive_applied [OF failing_store_obeys exact_moka exact_hex older _ quiet_calm [of 2] witness_formats(2) _ _ puts(1,2) refl failing_lists puts(3),
        where im = late_image and k = 0 and left = None and r = fresh_node] eval
    by (auto simp: sh archive_def late_image_def plain_image_def)
qed

end
