(* ===== verification/Failover.thy ===== *)
theory Failover
  imports Routing Backup_Roundtrip
begin

text \<open>
  Failover of a cell to its replica (\<open>api-server/src/failover.rs\<close>): catching up, promotion in the
  metadata, fencing of the new and the old primary, and the scan that triggers it.
\<close>

section \<open>Failover\<close>

record 'b failover_env =
  fe_replica :: "int \<times> nat"
  fe_catch_up :: "'b trip"
  fe_fence_new :: "'b trip"
  fe_old :: "int \<times> nat"
  fe_fence_old :: "'b trip"

definition here :: "('c, 'u, 'o) cluster \<Rightarrow> int \<times> nat \<Rightarrow> moment" where
  "here k t = \<lparr>mo_now = fst t, mo_unix = snd t, mo_store = cl_meta k\<rparr>"

definition on_meta :: "(inner \<Rightarrow> 'a result \<times> inner) \<Rightarrow> (('c, 'u, 'o) cluster, 'a) op" where
  "on_meta f = (\<lambda>k. let (r, s) = f (cl_meta k) in (r, k\<lparr>cl_meta := s\<rparr>))"

definition node_client ::
  "('c, 'u, 'f, 'n, 'o, 'b) world \<Rightarrow> int \<times> nat \<Rightarrow> node_id \<Rightarrow> (('c, 'u, 'o) cluster, client) op" where
  "node_client W t node = (\<lambda>k. on_routing (client_for_node (lb_show (wo_libs W)) (here k t) node) k)"

definition fence_old_primary ::
  "('c, 'u, 'f, 'n, 'o, 'b) world \<Rightarrow> 'b failover_env \<Rightarrow> database_id \<Rightarrow> database_record \<Rightarrow> node_id \<Rightarrow> (('c, 'u, 'o) cluster, unit) op" where
  "fence_old_primary W fe db r replica = (case db_storage_node_id r of
      Some old \<Rightarrow>
        if old \<noteq> replica then
          ignoring (try_then (node_client W (fe_old fe) old) (\<lambda>c. call_client W (fe_fence_old fe) c (FenceCell db i64_max)))
        else done_with ()
    | None \<Rightarrow> done_with ())"

definition failover_cell ::
  "('c, 'u, 'f, 'n, 'o, 'b) world \<Rightarrow> 'b failover_env \<Rightarrow> tenant_id \<Rightarrow> database_id \<Rightarrow> (('c, 'u, 'o) cluster, database_record) op" where
  "failover_cell W fe tenant db = (\<lambda>k. case get_database (cl_meta k) tenant db of
      Inl e \<Rightarrow> (Inl e, k)
    | Inr r \<Rightarrow> (case db_replica_node_id r of
        None \<Rightarrow> (Inl (Internal (''cell '' @ lb_show (wo_libs W) (db_uuid db) @ '' has no replica configured, cannot failover'')), k)
      | Some replica \<Rightarrow>
          try_then (node_client W (fe_replica fe) replica) (\<lambda>c.
          try_then (call_client W (fe_catch_up fe) c (Replicate db)) (\<lambda>_.
          try_then (on_meta (\<lambda>s. promote_replica (lb_show (wo_libs W)) s tenant db)) (\<lambda>promoted.
          try_then (ignoring (call_client W (fe_fence_new fe) c (FenceCell db (db_generation promoted)))) (\<lambda>_.
          try_then (\<lambda>k. (Inr (), k\<lparr>cl_routing := invalidate_route db (cl_routing k)\<rparr>)) (\<lambda>_.
          try_then (fence_old_primary W fe db r replica) (\<lambda>_.
            done_with promoted)))))) k))"

text \<open>One tick of the scanner; a failed failover does not stop the scan.\<close>

fun scan_cells ::
  "('c, 'u, 'f, 'n, 'o, 'b) world \<Rightarrow> (database_id \<Rightarrow> (int \<times> nat) \<times> 'b failover_env) \<Rightarrow> database_record list
    \<Rightarrow> ('c, 'u, 'o) cluster \<Rightarrow> ('c, 'u, 'o) cluster" where
  "scan_cells W env [] k = k"
| "scan_cells W env (r # rs) k = scan_cells W env rs
    (case db_storage_node_id r of
      None \<Rightarrow> k
    | Some primary \<Rightarrow>
        if db_replica_node_id r = None then k
        else let (t, fe) = env (db_id r); (healthy, g) = is_healthy (fst t) (snd t) (cl_meta k) primary (cl_registry k);
                 k = k\<lparr>cl_registry := g\<rparr>
             in if healthy then k else snd (failover_cell W fe (db_tenant_id r) (db_id r) k))"

definition failover_scan ::
  "('c, 'u, 'f, 'n, 'o, 'b) world \<Rightarrow> (database_id \<Rightarrow> (int \<times> nat) \<times> 'b failover_env) \<Rightarrow> ('c, 'u, 'o) cluster \<Rightarrow> ('c, 'u, 'o) cluster" where
  "failover_scan W env k = scan_cells W env (list_all_databases (cl_meta k)) k"

section \<open>Calls that arrive\<close>

text \<open>Both ends agree on the token and on JSON.\<close>

definition connected :: "('c, 'u, 'f, 'n, 'o, 'b) world \<Rightarrow> ('c, 'u, 'o) cluster \<Rightarrow> bool" where
  "connected W k \<longleftrightarrow> json_obeys (wo_json W) \<and> wo_node_token W = rt_control_token (cl_routing k)
    \<and> (case rt_control_token (cl_routing k) of Some token \<Rightarrow> list_all visible token | None \<Rightarrow> False)"

lemma call_arrives:
  assumes "connected W k" "tr_net tr = Delivered" "map_of (cl_nodes k) addr = Some n"
    "local_client (wo_libs W) (wo_store W) (wo_image W) (tr_env tr) call (n, cl_objects k) = (r, n', ob')"
  shows "call_client W tr (RemoteClient addr hook) call k =
    (rpc_transport (lb_show (wo_libs W)) (wo_parse W) (tr_fresh tr) r, k\<lparr>cl_nodes := AList.update addr n' (cl_nodes k), cl_objects := ob'\<rparr>)"
proof -
  obtain token where tok: "wo_node_token W = Some token" "list_all visible token"
    using assms(1) by (cases "rt_control_token (cl_routing k)") (auto simp: connected_def)
  have json: "json_obeys (wo_json W)" and client_tok: "rt_control_token (cl_routing k) = Some token"
    using assms(1) tok(1) by (auto simp: connected_def)
  show ?thesis
    using assms(2-4) by (simp add: call_client_def tok(1) client_tok remote_delivered [OF json tok(2)])
qed

section \<open>Handing a cell over\<close>

text \<open>
  The registry gives the base address of a node at the time \<open>t\<close>, no client for another address is
  kept for it, and the node \<open>n\<close> listens there.
\<close>

definition located :: "('c, 'u, 'o) cluster \<Rightarrow> int \<times> nat \<Rightarrow> node_id \<Rightarrow> str \<Rightarrow> ('c, 'u) data_node \<Rightarrow> bool" where
  "located k t node base n \<longleftrightarrow>
    map_option trim_slashes (fst (node_addr (fst t) (snd t) (cl_meta k) node (cl_registry k))) = Some base
    \<and> (case map_of (rt_clients (cl_routing k)) node of Some (RemoteClient b _) \<Rightarrow> b = base | Some LocalClient \<Rightarrow> False | None \<Rightarrow> True)
    \<and> map_of (cl_nodes k) base = Some n"

text \<open>Looking a client up changes only the caches of the API server.\<close>

definition same_nodes :: "('c, 'u, 'o) cluster \<Rightarrow> ('c, 'u, 'o) cluster \<Rightarrow> bool" where
  "same_nodes k k' \<longleftrightarrow> cl_meta k' = cl_meta k \<and> cl_nodes k' = cl_nodes k \<and> cl_objects k' = cl_objects k \<and> cl_local k' = cl_local k
    \<and> rt_control_token (cl_routing k') = rt_control_token (cl_routing k) \<and> rt_routes (cl_routing k') = rt_routes (cl_routing k)"

lemma node_client_same: "node_client W t node k = (r, k') \<Longrightarrow> same_nodes k k'"
  by (auto simp: node_client_def on_routing_def client_for_node_def addr_at_def same_nodes_def Let_def split: prod.splits option.splits)

lemma node_client_located:
  assumes "located k t node base n"
  shows "\<exists>hook k'. node_client W t node k = (Inr (RemoteClient base hook), k')"
proof -
  obtain raw g where raw: "node_addr (fst t) (snd t) (cl_meta k) node (cl_registry k) = (Some raw, g)" "trim_slashes raw = base"
    using assms by (auto simp: located_def) (metis fst_conv old.prod.exhaust)
  then show ?thesis
    using assms by (cases "map_of (rt_clients (cl_routing k)) node")
      (auto simp: node_client_def on_routing_def client_for_node_def addr_at_def here_def located_def with_hooks_def Let_def split: client.splits)
qed

lemma node_addr_store:
  "list_data_nodes s' = list_data_nodes s \<Longrightarrow> node_addr now unix s' node g = node_addr now unix s node g"
  by (simp add: node_addr_def ensure_fresh_def)

lemma fence_arrives:
  assumes "connected W k" "tr_net tr = Delivered" "map_of (cl_nodes k) addr = Some n"
  shows "ignoring (call_client W tr (RemoteClient addr hook) (FenceCell db gen)) k
    = (Inr (), k\<lparr>cl_nodes := AList.update addr (fence_cell db gen n) (cl_nodes k)\<rparr>)"
proof -
  have "local_client (wo_libs W) (wo_store W) (wo_image W) (tr_env tr) (FenceCell db gen) (n, cl_objects k) = (Inr AUnit, fence_cell db gen n, cl_objects k)"
    by (simp add: on_node_def)
  from call_arrives [OF assms this] show ?thesis
    by (simp add: ignoring_def)
qed

lemma promote_run:
  assumes "get_database s t db = Inr r" "db_replica_node_id r = Some replica"
  shows "\<exists>s'. promote_replica sh s t db
      = (Inr (r\<lparr>db_storage_node_id := Some replica, db_replica_node_id := None, db_generation := wrap_i64 (db_generation r + 1)\<rparr>), s')
    \<and> get_database s' t db = Inr (r\<lparr>db_storage_node_id := Some replica, db_replica_node_id := None, db_generation := wrap_i64 (db_generation r + 1)\<rparr>)
    \<and> list_data_nodes s' = list_data_nodes s"
  using assms by (cases "map_of (databases s) (t, db)")
    (auto simp: promote_replica_def update_record_def get_database_def list_data_nodes_def ok_or_def)

text \<open>The first steps, up to the fence of the new primary and the forgotten route.\<close>

lemma failover_promotes:
  assumes "connected W k" "get_database (cl_meta k) t db = Inr r" "db_replica_node_id r = Some replica"
    "located k (fe_replica fe) replica ra n"
    "tr_net (fe_catch_up fe) = Delivered" "tr_net (fe_fence_new fe) = Delivered"
    "replicate_from_primary (wo_libs W) (wo_store W) (wo_image W) (ce_io (tr_env (fe_catch_up fe))) (ce_wal_left (tr_env (fe_catch_up fe))) db (n, cl_objects k)
      = (Inr applied, n', ob)"
    "p = r\<lparr>db_storage_node_id := Some replica, db_replica_node_id := None, db_generation := wrap_i64 (db_generation r + 1)\<rparr>"
  shows "\<exists>k1 k2. k1 = snd (node_client W (fe_replica fe) replica k)
    \<and> failover_cell W fe t db k = try_then (fence_old_primary W fe db r replica) (\<lambda>_. done_with p) k2
    \<and> get_database (cl_meta k2) t db = Inr p \<and> list_data_nodes (cl_meta k2) = list_data_nodes (cl_meta k)
    \<and> cl_registry k2 = cl_registry k1 \<and> rt_clients (cl_routing k2) = rt_clients (cl_routing k1)
    \<and> map_of (rt_routes (cl_routing k2)) db = None \<and> rt_control_token (cl_routing k2) = rt_control_token (cl_routing k)
    \<and> cl_nodes k2 = AList.update ra (fence_cell db (db_generation p) n') (AList.update ra n' (cl_nodes k))"
proof -
  let ?sh = "lb_show (wo_libs W)"
  obtain hook k1 where k1: "node_client W (fe_replica fe) replica k = (Inr (RemoteClient ra hook), k1)"
    using node_client_located [OF assms(4)] by blast
  have s1: "same_nodes k k1"
    using node_client_same [OF k1] .
  then have c1: "connected W k1" and n1: "map_of (cl_nodes k1) ra = Some n"
    using assms(1,4) by (simp_all add: connected_def same_nodes_def located_def)
  let ?k2 = "k1\<lparr>cl_nodes := AList.update ra n' (cl_nodes k1), cl_objects := ob\<rparr>"
  have "local_client (wo_libs W) (wo_store W) (wo_image W) (tr_env (fe_catch_up fe)) (Replicate db) (n, cl_objects k1) = (Inr (ABool applied), n', ob)"
    using assms(7) s1 by (simp add: answered_def try_then_def done_with_def same_nodes_def)
  from call_arrives [OF c1 assms(5) n1 this]
  have k2: "call_client W (fe_catch_up fe) (RemoteClient ra hook) (Replicate db) k1 = (Inr (ABool applied), ?k2)"
    by (simp add: rpc_transport_def)
  obtain s' where s': "promote_replica ?sh (cl_meta k) t db = (Inr p, s')" "get_database s' t db = Inr p" "list_data_nodes s' = list_data_nodes (cl_meta k)"
    using promote_run [OF assms(2,3), of ?sh] assms(8) by blast
  let ?k3 = "?k2\<lparr>cl_meta := s'\<rparr>"
  have k3: "on_meta (\<lambda>s. promote_replica ?sh s t db) ?k2 = (Inr p, ?k3)"
    using s1 s'(1) by (simp add: on_meta_def same_nodes_def)
  have c3: "connected W ?k3" "map_of (cl_nodes ?k3) ra = Some n'"
    using c1 by (simp_all add: connected_def)
  note k4 = fence_arrives [OF c3(1) assms(6) c3(2), of hook db "db_generation p"]
  let ?k4 = "?k3\<lparr>cl_nodes := AList.update ra (fence_cell db (db_generation p) n') (cl_nodes ?k3)\<rparr>"
  let ?k5 = "?k4\<lparr>cl_routing := invalidate_route db (cl_routing ?k4)\<rparr>"
  have "failover_cell W fe t db k = try_then (fence_old_primary W fe db r replica) (\<lambda>_. done_with p) ?k5"
    by (simp add: failover_cell_def assms(2,3) try_then_def k1 k2 k3 k4)
  moreover have "get_database (cl_meta ?k5) t db = Inr p" "list_data_nodes (cl_meta ?k5) = list_data_nodes (cl_meta k)"
      "cl_registry ?k5 = cl_registry k1" "rt_clients (cl_routing ?k5) = rt_clients (cl_routing k1)"
      "map_of (rt_routes (cl_routing ?k5)) db = None" "rt_control_token (cl_routing ?k5) = rt_control_token (cl_routing k)"
      "cl_nodes ?k5 = AList.update ra (fence_cell db (db_generation p) n') (AList.update ra n' (cl_nodes k))"
    using s1 s'(2,3) by (simp_all add: same_nodes_def invalidate_route_def)
  moreover have "k1 = snd (node_client W (fe_replica fe) replica k)"
    by (simp add: k1)
  ultimately show ?thesis
    by blast
qed


text \<open>Two nodes, a cell on the first with an archive in the object store, and its replica on the second.\<close>

type_synonym pair_store = "(str \<times> (nat \<times> nat option) cell_db list) list"

definition two_world :: "((cache_key \<times> cached_value) list, nat \<times> nat option, unit, int, pair_store, (nat \<times> nat option) cell_db list) world" where
  "two_world = \<lparr>wo_libs = exact_libs, wo_store = Some (failing_store ''wal-7.sqlite-wal''), wo_image = late_image, wo_json = same_json,
    wo_parse = uuid_undec, wo_node_token = Some ''t''\<rparr>"

definition replicated_cell :: inner where
  "replicated_cell = snd (set_replica_node (snd (create_database uuid_dec 1 inner_default (TenantId 1) (DatabaseId 1) (Some (NodeId 1)) (Some ''main'')))
    (TenantId 1) (DatabaseId 1) (Some (NodeId 2)))"

definition two_cluster :: "pair_store \<Rightarrow> ((cache_key \<times> cached_value) list, nat \<times> nat option, pair_store) cluster" where
  "two_cluster ob = \<lparr>cl_meta = replicated_cell, cl_registry = two_nodes, cl_routing = routing_new None (Some ''t''), cl_local = None,
    cl_nodes = [(''http://a'', written_node), (''http://b'', fresh_node)], cl_objects = ob\<rparr>"

definition trip_at :: "nat \<Rightarrow> int \<Rightarrow> 'b trip" where
  "trip_at t now = \<lparr>tr_net = Delivered, tr_env = at_time t now, tr_fresh = 0, tr_rid = ''''\<rparr>"

definition sample_failover :: "'b failover_env" where
  "sample_failover = \<lparr>fe_replica = (3, 30), fe_catch_up = trip_at 3 104, fe_fence_new = trip_at 3 104, fe_old = (4, 40), fe_fence_old = trip_at 4 104\<rparr>"

lemma two_world_connected: "connected two_world (two_cluster ob)"
proof -
  have "list_all visible ''t''"
    by code_simp
  then show ?thesis
    by (simp add: connected_def two_world_def two_cluster_def routing_new_def json_obeys_def same_json_def)
qed

lemma two_cluster_lookups:
  "is_ok (get_database (cl_meta (two_cluster ob)) (TenantId 1) (DatabaseId 1))"
  "located (two_cluster ob) (fe_replica sample_failover) (NodeId 2) ''http://b'' fresh_node"
  "located (snd (node_client two_world (fe_replica sample_failover) (NodeId 2) (two_cluster ob))) (fe_old sample_failover) (NodeId 1) ''http://a'' written_node"
proof -
  have a: "map_option trim_slashes (fst (node_addr 3 30 replicated_cell (NodeId 2) two_nodes)) = Some ''http://b''"
    "map_option trim_slashes (fst (node_addr 4 40 replicated_cell (NodeId 1) two_nodes)) = Some ''http://a''"
    "node_addr 3 30 replicated_cell (NodeId 2) two_nodes = (Some ''http://b'', two_nodes)"
    by code_simp+
  show "is_ok (get_database (cl_meta (two_cluster ob)) (TenantId 1) (DatabaseId 1))"
    by (simp only: two_cluster_def cluster.select_convs) code_simp
  show "located (two_cluster ob) (fe_replica sample_failover) (NodeId 2) ''http://b'' fresh_node"
    using a(1) by (simp add: located_def two_cluster_def routing_new_def sample_failover_def)
  show "located (snd (node_client two_world (fe_replica sample_failover) (NodeId 2) (two_cluster ob))) (fe_old sample_failover) (NodeId 1) ''http://a'' written_node"
    using a(2,3) by (simp add: located_def node_client_def on_routing_def client_for_node_def addr_at_def here_def Let_def two_cluster_def routing_new_def sample_failover_def)
qed

lemma replicated_record:
  "get_database replicated_cell (TenantId 1) (DatabaseId 1) = Inr (new_record 1 (TenantId 1) (DatabaseId 1) (Some (NodeId 1)) ''main''\<lparr>db_replica_node_id := Some (NodeId 2)\<rparr>)"
  by code_simp


section \<open>Promoting without an archive\<close>

lemma replicate_nothing:
  assumes "os_list st ob (incr_prefix st (lb_show L) db) = Inr names" "newest_pair names = None"
  shows "\<exists>n'. replicate_from_primary L (Some st) im io left db (n, ob) = (Inr False, n', ob)
    \<and> cell_content (lb_empty L) n' db = cell_content (lb_empty L) n db"
proof -
  obtain n1 where n1: "on_node (on_mgr (close_database io db)) (n, ob) = (Inr (), n1, ob)"
    "exchanged L db (cell_content (lb_empty L) n db) n n1"
    using close_run [of io db n ob L] by blast
  have "restore_from_incr st im (lb_show L) io left db (n1, ob) = (Inr False, n1, ob)"
    using assms by (simp add: restore_from_incr_def try_then_def latest_incr_def from_store_def done_with_def)
  then have "replicate_from_primary L (Some st) im io left db (n, ob) = (Inr False, n1, ob)"
    by (simp add: replicate_from_primary_def with_store_def try_then_def n1(1) done_with_def)
  then show ?thesis
    using n1(2) by (auto simp: exchanged_def)
qed

lemma fence_dead_primary:
  assumes "db_storage_node_id r = Some old" "fst (node_addr (fst (fe_old fe)) (snd (fe_old fe)) (cl_meta k) old (cl_registry k)) = None"
  shows "\<exists>k'. fence_old_primary W fe db r replica k = (Inr (), k') \<and> same_nodes k k'"
proof (cases "old = replica")
  case True
  then show ?thesis
    using assms(1) by (simp add: fence_old_primary_def done_with_def same_nodes_def)
next
  case False
  obtain g where "node_addr (fst (fe_old fe)) (snd (fe_old fe)) (cl_meta k) old (cl_registry k) = (None, g)"
    using assms(2) by (metis prod.collapse)
  then obtain e k' where k': "node_client W (fe_old fe) old k = (Inl e, k')"
    by (simp add: node_client_def on_routing_def client_for_node_def addr_at_def here_def)
  then show ?thesis
    using False assms(1) node_client_same [OF k'] by (simp add: fence_old_primary_def ignoring_def try_then_def)
qed

text \<open>
  C35: Failover promotes a replica that has nothing. When the primary is down and the object store
  holds no archive of the cell, the replica reports that it applied nothing; failover does not look
  at that answer, promotes the replica and returns success.  The new primary then serves whatever
  the replica happened to hold, for a fresh replica an empty database.
\<close>

theorem failover_promotes_empty:
  assumes "connected W k" "get_database (cl_meta k) t db = Inr r" "db_replica_node_id r = Some replica"
    "db_storage_node_id r = Some old" "located k (fe_replica fe) replica ra n"
    "fst (node_addr (fst (fe_old fe)) (snd (fe_old fe)) (cl_meta k) old (cl_registry (snd (node_client W (fe_replica fe) replica k)))) = None"
    "tr_net (fe_catch_up fe) = Delivered" "tr_net (fe_fence_new fe) = Delivered"
    "wo_store W = Some st" "os_list st (cl_objects k) (incr_prefix st (lb_show (wo_libs W)) db) = Inr names" "newest_pair names = None"
  shows "\<exists>p k' n'. failover_cell W fe t db k = (Inr p, k') \<and> db_storage_node_id p = Some replica
    \<and> get_database (cl_meta k') t db = Inr p \<and> map_of (cl_nodes k') ra = Some n'
    \<and> cell_content (lb_empty (wo_libs W)) n' db = cell_content (lb_empty (wo_libs W)) n db"
proof -
  let ?p = "r\<lparr>db_storage_node_id := Some replica, db_replica_node_id := None, db_generation := wrap_i64 (db_generation r + 1)\<rparr>"
  obtain n' where n': "replicate_from_primary (wo_libs W) (wo_store W) (wo_image W) (ce_io (tr_env (fe_catch_up fe))) (ce_wal_left (tr_env (fe_catch_up fe))) db (n, cl_objects k)
      = (Inr False, n', cl_objects k)" "cell_content (lb_empty (wo_libs W)) n' db = cell_content (lb_empty (wo_libs W)) n db"
    using replicate_nothing [OF assms(10,11)] assms(9) by metis
  obtain k1 k2 where k1: "k1 = snd (node_client W (fe_replica fe) replica k)"
    and k2: "failover_cell W fe t db k = try_then (fence_old_primary W fe db r replica) (\<lambda>_. done_with ?p) k2"
      "get_database (cl_meta k2) t db = Inr ?p" "list_data_nodes (cl_meta k2) = list_data_nodes (cl_meta k)" "cl_registry k2 = cl_registry k1"
      "cl_nodes k2 = AList.update ra (fence_cell db (db_generation ?p) n') (AList.update ra n' (cl_nodes k))"
    using failover_promotes [OF assms(1-3,5,7,8) n'(1) refl] by blast
  have "fst (node_addr (fst (fe_old fe)) (snd (fe_old fe)) (cl_meta k2) old (cl_registry k2)) = None"
    using assms(6) k1 k2(3,4) node_addr_store [of "cl_meta k2" "cl_meta k"] by simp
  then obtain k3 where k3: "fence_old_primary W fe db r replica k2 = (Inr (), k3)" "same_nodes k2 k3"
    using fence_dead_primary [OF assms(4)] by blast
  have "failover_cell W fe t db k = (Inr ?p, k3)"
    using k2(1) k3(1) by (simp add: try_then_def done_with_def)
  moreover have "get_database (cl_meta k3) t db = Inr ?p" "map_of (cl_nodes k3) ra = Some (fence_cell db (db_generation ?p) n')"
    using k2 k3(2) by (simp_all add: same_nodes_def)
  moreover have "cell_content (lb_empty (wo_libs W)) (fence_cell db (db_generation ?p) n') db = cell_content (lb_empty (wo_libs W)) n db"
    using n'(2) by (simp add: cell_content_def fence_cell_def)
  ultimately show ?thesis
    by (intro exI [of _ ?p] exI [of _ k3] exI [of _ "fence_cell db (db_generation ?p) n'"]) simp
qed

definition late_failover :: "'b failover_env" where
  "late_failover = sample_failover\<lparr>fe_replica := (11, 110), fe_old := (11, 110)\<rparr>"

theorem failover_promotes_empty_witness:
  "\<exists>p k' n'. failover_cell two_world late_failover (TenantId 1) (DatabaseId 1) (two_cluster []) = (Inr p, k')
    \<and> db_storage_node_id p = Some (NodeId 2) \<and> map_of (cl_nodes k') ''http://b'' = Some n'
    \<and> db_kv (cell_content (0, None) n' (DatabaseId 1)) = []
    \<and> db_kv (cell_content (0, None) written_node (DatabaseId 1)) \<noteq> []"
proof -
  let ?r = "new_record 1 (TenantId 1) (DatabaseId 1) (Some (NodeId 1)) ''main''\<lparr>db_replica_node_id := Some (NodeId 2)\<rparr>"
  have a: "map_option trim_slashes (fst (node_addr 11 110 replicated_cell (NodeId 2) two_nodes)) = Some ''http://b''"
    "node_addr 11 110 replicated_cell (NodeId 2) two_nodes = (Some ''http://b'', two_nodes)"
    "fst (node_addr 11 110 replicated_cell (NodeId 1) two_nodes) = None"
    by code_simp+
  have e: "db_kv (cell_content (0, None) fresh_node (DatabaseId 1)) = []" "db_kv (cell_content (0, None) written_node (DatabaseId 1)) \<noteq> []"
    by code_simp+
  have meta: "get_database (cl_meta (two_cluster [])) (TenantId 1) (DatabaseId 1) = Inr ?r"
    using replicated_record by (simp only: two_cluster_def cluster.select_convs)
  have r: "db_replica_node_id ?r = Some (NodeId 2)" "db_storage_node_id ?r = Some (NodeId 1)"
    by (simp_all add: new_record_def)
  have loc: "located (two_cluster []) (fe_replica late_failover) (NodeId 2) ''http://b'' fresh_node"
    using a(1) by (simp add: located_def two_cluster_def routing_new_def late_failover_def)
  have dead: "fst (node_addr (fst (fe_old late_failover)) (snd (fe_old late_failover)) (cl_meta (two_cluster [])) (NodeId 1)
      (cl_registry (snd (node_client two_world (fe_replica late_failover) (NodeId 2) (two_cluster []))))) = None"
    using a(2,3) by (simp add: node_client_def on_routing_def client_for_node_def addr_at_def here_def Let_def two_cluster_def routing_new_def late_failover_def)
  have nets: "tr_net (fe_catch_up late_failover) = Delivered" "tr_net (fe_fence_new late_failover) = Delivered"
    by (simp_all add: late_failover_def sample_failover_def trip_at_def)
  have st: "wo_store two_world = Some (failing_store ''wal-7.sqlite-wal'')" "cl_objects (two_cluster []) = []" "lb_empty (wo_libs two_world) = (0, None)"
    by (simp_all add: two_world_def two_cluster_def exact_libs_def)
  have none: "newest_pair [] = None"
    by (simp add: newest_pair_def)
  have listed: "os_list (failing_store ''wal-7.sqlite-wal'') (cl_objects (two_cluster [])) (incr_prefix (failing_store ''wal-7.sqlite-wal'') (lb_show (wo_libs two_world)) (DatabaseId 1)) = Inr []"
    by (simp add: st failing_lists)
  show ?thesis
    using failover_promotes_empty [OF two_world_connected meta r loc dead nets st(1) listed none] e by (auto simp: st)
qed

section \<open>A client under the wrong node\<close>

text \<open>
  When the node of a cell is unavailable and the retry finds the cell on another one, the client for
  the other node's address is kept under the first node, where later lookups find it.
\<close>

lemma retry_keeps_wrong_client:
  assumes "map_of (rt_routes rt) db = None" "get_database_by_id (mo_store (t 2)) db = Inr r" "db_storage_node_id r = Some node"
    "addr_at (t 3) node g = (None, g1)" "get_database_by_id (mo_store (t 4)) db = Inr r2" "db_storage_node_id r2 = Some node2"
    "addr_at (t 5) node2 g1 = (Some addr, g2)"
  shows "\<exists>rt'. client_for sh t db (g, rt) = (Inr (RemoteClient (trim_slashes addr) (Some db)), g2, rt')
    \<and> map_of (rt_clients rt') node = Some (RemoteClient (trim_slashes addr) (Some db))
    \<and> (\<forall>later raw g3. addr_at later node g2 = (Some raw, g3) \<longrightarrow>
        fst (client_for_node sh later node (g2, rt')) = Inr (RemoteClient (trim_slashes addr) (Some db)))"
  using assms
  by (simp add: client_for_def from_authority_def Let_def make_client_def with_hooks_def note_route_def invalidate_route_def client_for_node_def)


text \<open>
  Cell 2 moves from node 1 to node 2 while node 1 is late with its heartbeat; then both nodes are
  healthy again and cell 1 fails over from node 1 to node 2.
\<close>

definition moving_cell :: "nat \<Rightarrow> moment" where
  "moving_cell i = \<lparr>mo_now = 11, mo_unix = 110, mo_store =
    snd (create_database uuid_dec 1 inner_default (TenantId 1) (DatabaseId 2) (Some (NodeId (if i \<le> 3 then 1 else 2))) None)\<rparr>"

definition poisoned_routing :: routing where
  "poisoned_routing = snd (snd (client_for uuid_dec moving_cell (DatabaseId 2) (two_nodes, routing_new None (Some ''t''))))"

definition awake_nodes :: registry where
  "awake_nodes = snd (snd (heartbeat 12 120 (NodeId 2) 0 (snd (heartbeat 12 120 (NodeId 1) 0 (inner_default, two_nodes)))))"

definition poisoned_cluster :: "((cache_key \<times> cached_value) list, nat \<times> nat option, pair_store) cluster" where
  "poisoned_cluster = (two_cluster archived)\<lparr>cl_registry := awake_nodes, cl_routing := poisoned_routing\<rparr>"

definition awake_failover :: "'b failover_env" where
  "awake_failover = sample_failover\<lparr>fe_replica := (13, 130), fe_old := (13, 130)\<rparr>"


end
