(* ===== verification/Usage_Meter.thy ===== *)
theory Usage_Meter
  imports Usage_Pricing Cell_Directory Control_Records
begin

text \<open>
  Metering in the API server (\<open>api-server/src/usage.rs\<close>): counters in memory that a background task
  flushes into the metadata store, the middleware that counts requests and bytes, and the sampling
  of storage.  The sums are \<open>u64\<close> and wrap.
\<close>

section \<open>Counters\<close>

type_synonym counters = "(usage_key, nat) hashmap"

definition tally :: "counters \<Rightarrow> usage_key \<Rightarrow> nat" where
  "tally m k = (case map_of m k of Some v \<Rightarrow> v | None \<Rightarrow> 0)"

definition tally_add :: "usage_key \<Rightarrow> nat \<Rightarrow> counters \<Rightarrow> counters" where
  "tally_add k delta m = AList.update k (wrap_u64 (int (tally m k) + int delta)) m"

definition record_usage ::
  "int \<Rightarrow> tenant_id \<Rightarrow> database_id option \<Rightarrow> usage_metric \<Rightarrow> nat \<Rightarrow> counters \<Rightarrow> counters" where
  "record_usage now tenant cell metric delta m =
    (if delta = 0 then m
     else tally_add \<lparr>uk_tenant_id = tenant, uk_cell_id = cell, uk_metric = metric, uk_bucket_start = bucket_start now\<rparr> delta m)"

definition record_billed ::
  "int \<Rightarrow> auth_context \<Rightarrow> database_id option \<Rightarrow> usage_metric \<Rightarrow> nat \<Rightarrow> counters \<Rightarrow> counters" where
  "record_billed now auth cell metric delta m =
    (if ac_internal auth then m else record_usage now (ac_tenant_id auth) cell metric delta m)"

definition pending :: "counters \<Rightarrow> nat" where
  "pending m = length m"

text \<open>
  One pass of the flusher.  \<open>ok k\<close> says whether the store accepts the amount of the key \<open>k\<close>; the keys
  of the drained map are distinct.
\<close>

fun flush_batch ::
  "(usage_key \<Rightarrow> bool) \<Rightarrow> (usage_key \<times> nat) list \<Rightarrow> nat \<times> inner \<times> counters \<Rightarrow> nat \<times> inner \<times> counters" where
  "flush_batch ok [] st = st"
| "flush_batch ok ((k, delta) # batch) (flushed, s, m) =
    flush_batch ok batch
      (if ok k then (flushed + 1, usage_add s k delta, m) else (flushed, s, tally_add k delta m))"

definition flush_once :: "(usage_key \<Rightarrow> bool) \<Rightarrow> inner \<times> counters \<Rightarrow> nat \<times> inner \<times> counters" where
  "flush_once ok = (\<lambda>(s, m). if m = [] then (0, s, m) else flush_batch ok m (0, s, []))"

definition query :: "inner \<Rightarrow> tenant_id \<Rightarrow> database_id option \<Rightarrow> usage_metric option \<Rightarrow> int \<Rightarrow> int \<Rightarrow> usage_bucket list" where
  "query s tenant cell metric from_b to_b = query_usage s tenant cell metric from_b to_b"

definition set_snapshot :: "inner \<Rightarrow> usage_key \<Rightarrow> nat \<Rightarrow> inner" where
  "set_snapshot s k v = usage_set s k v"

section \<open>The middleware\<close>

text \<open>\<open>parse_uuid\<close> reads the text form of an identifier.\<close>

definition parse_cell_from_path :: "(str \<Rightarrow> uuid option) \<Rightarrow> str \<Rightarrow> database_id option" where
  "parse_cell_from_path parse_uuid path =
    (case filter (\<lambda>s. s \<noteq> []) (split_on (CHR ''/'') path) of
       v # d # i # _ \<Rightarrow> if v = ''v1'' \<and> d = ''databases'' then map_option DatabaseId (parse_uuid i) else None
     | _ \<Rightarrow> None)"

definition USAGE_SELF_PATHS :: "str list" where
  "USAGE_SELF_PATHS = [''/v1/usage/summary'', ''/v1/usage/timeseries'', ''/v1/cells/'', ''/v1/credits/balance'',
    ''/v1/credits/transactions'']"

text \<open>A body hands out frames; the count is reported when the stream ends, once.\<close>

datatype frame = Data nat | Trailers | Failed | End | NotReady

record counting_body =
  cb_bytes :: nat
  cb_done :: bool
  cb_reported :: "nat list"

definition new_body :: counting_body where
  "new_body = \<lparr>cb_bytes = 0, cb_done = False, cb_reported = []\<rparr>"

fun poll_frame :: "frame \<Rightarrow> counting_body \<Rightarrow> counting_body" where
  "poll_frame (Data n) b = b\<lparr>cb_bytes := wrap_u64 (int (cb_bytes b) + int n)\<rparr>"
| "poll_frame End b =
    (if cb_done b then b else b\<lparr>cb_done := True, cb_reported := cb_reported b @ [cb_bytes b]\<rparr>)"
| "poll_frame _ b = b"

definition body_reports :: "frame list \<Rightarrow> nat list" where
  "body_reports frames = cb_reported (fold poll_frame frames new_body)"

text \<open>
  One request is counted before the rest of the chain runs.  Its body reports when the handler has read
  it to the end, the body of the response when it was sent, each with its own reading of the clock.
  \<open>next\<close> returns the response with the frames of its body.
\<close>

definition usage_tracking ::
  "(str \<Rightarrow> uuid option) \<Rightarrow> int \<Rightarrow> int \<Rightarrow> int \<Rightarrow> auth_context option \<Rightarrow> str \<Rightarrow> frame list
    \<Rightarrow> (counters \<Rightarrow> ('r \<times> frame list) \<times> counters) \<Rightarrow> counters \<Rightarrow> 'r \<times> counters" where
  "usage_tracking parse_uuid now now_in now_out auth path request_body next m =
    (if (case auth of Some a \<Rightarrow> ac_internal a | None \<Rightarrow> False) \<or> list_ex (starts_with path) USAGE_SELF_PATHS then
       let ((r, _), m) = next m in (r, m)
     else let tenant = (case auth of Some a \<Rightarrow> ac_tenant_id a | None \<Rightarrow> DEFAULT_TENANT);
              cell = parse_cell_from_path parse_uuid path;
              ((r, response_body), m) = next (record_usage now tenant cell Requests 1 m);
              m = fold (record_usage now_in tenant cell BytesIn) (body_reports request_body) m
          in (r, fold (record_usage now_out tenant cell BytesOut) (body_reports response_body) m))"

definition is_read_sql :: "str \<Rightarrow> bool" where
  "is_read_sql sql = (case split_whitespace sql of
      [] \<Rightarrow> False
    | w # _ \<Rightarrow> to_ascii_lowercase w \<in> {''select'', ''with'', ''pragma'', ''explain''})"

section \<open>Storage\<close>

text \<open>\<open>storage_of\<close> is what asking the node of a cell for its size gives.\<close>

fun sample_cells ::
  "int \<Rightarrow> (database_id \<Rightarrow> nat result) \<Rightarrow> nat \<Rightarrow> database_record list \<Rightarrow> nat \<times> counters \<Rightarrow> nat \<times> counters" where
  "sample_cells now storage_of interval_secs [] st = st"
| "sample_cells now storage_of interval_secs (cell # cells) (sampled, m) =
    sample_cells now storage_of interval_secs cells
      (case storage_of (db_id cell) of
         Inl _ \<Rightarrow> (sampled, m)
       | Inr bytes \<Rightarrow>
           if bytes = 0 then (sampled, m)
           else (sampled + 1, record_usage now (db_tenant_id cell) (Some (db_id cell)) StorageByteSecs
             (min (bytes * interval_secs) u64_max) m))"

definition sample_storage_once ::
  "int \<Rightarrow> (database_id \<Rightarrow> nat result) \<Rightarrow> nat \<Rightarrow> inner \<Rightarrow> counters \<Rightarrow> nat \<times> counters" where
  "sample_storage_once now storage_of interval_secs s m =
    (if interval_secs = 0 then (0, m) else sample_cells now storage_of interval_secs (list_all_databases s) (0, m))"

text \<open>
  One tick of the sampler of a replica \<open>owner\<close> of the server: only the holder of the lease samples.
\<close>

definition sampler_tick ::
  "int \<Rightarrow> int \<Rightarrow> uuid \<Rightarrow> (database_id \<Rightarrow> nat result) \<Rightarrow> nat \<Rightarrow> inner \<times> counters \<Rightarrow> inner \<times> counters" where
  "sampler_tick now now' owner storage_of interval_secs = (\<lambda>(s, m).
    let ttl_secs = wrap_i64 (max (max i64_min (min i64_max (wrap_i64 (int interval_secs) * 2))) 1 + 60);
        (leads, s) = try_acquire_lease s ''storage_sampler'' owner now ttl_secs
    in if leads then (s, snd (sample_storage_once now' storage_of interval_secs s m)) else (s, m))"

text \<open>A body reports once, when it ends, and then all bytes it handed out.\<close>

fun data_total :: "frame list \<Rightarrow> nat" where
  "data_total [] = 0"
| "data_total (Data n # fs) = n + data_total fs"
| "data_total (End # fs) = 0"
| "data_total (_ # fs) = data_total fs"

lemma poll_done: "cb_done b \<Longrightarrow> cb_reported (fold poll_frame fs b) = cb_reported b"
proof (induction fs arbitrary: b)
  case (Cons f fs)
  then show ?case
    by (cases f) simp_all
qed simp

lemma body_reports_total:
  "body_reports fs = (if End \<in> set fs then [wrap_u64 (int (data_total fs))] else [])"
proof -
  have "\<not> cb_done b \<Longrightarrow> cb_bytes b = wrap_u64 x \<Longrightarrow> cb_reported (fold poll_frame fs b) =
      cb_reported b @ (if End \<in> set fs then [wrap_u64 (x + int (data_total fs))] else [])" for b x
  proof (induction fs arbitrary: b x)
    case (Cons f fs)
    show ?case
    proof (cases f)
      case (Data n)
      have "cb_bytes (poll_frame f b) = wrap_u64 (x + int n)"
        using Cons.prems(2) Data by (simp add: wrap_u64_def mod_add_left_eq)
      then show ?thesis
        using Cons.IH [of "poll_frame f b" "x + int n"] Cons.prems(1) Data by (simp add: add.assoc)
    next
      case End
      then show ?thesis
        using Cons.prems poll_done by simp
    qed (use Cons in auto)
  qed simp
  from this [of new_body 0] show ?thesis
    by (simp add: body_reports_def new_body_def wrap_u64_def)
qed

section \<open>Nothing is lost or counted twice\<close>

text \<open>
  The steps that interleave: requests record while the flusher has drained the counters and writes
  its batch entry by entry, each write accepted or refused.  A step of the flusher takes the mutex
  only for itself.
\<close>

datatype meter_event = Recorded usage_key nat | Drained | Written bool

fun meter_step :: "meter_event \<Rightarrow> counters \<times> (usage_key \<times> nat) list \<times> inner \<Rightarrow> counters \<times> (usage_key \<times> nat) list \<times> inner" where
  "meter_step (Recorded k delta) (m, batch, s) = (tally_add k delta m, batch, s)"
| "meter_step Drained (m, batch, s) = ([], batch @ m, s)"
| "meter_step (Written ok) (m, [], s) = (m, [], s)"
| "meter_step (Written ok) (m, (k, delta) # batch, s) =
    (if ok then (m, batch, usage_add s k delta) else (tally_add k delta m, batch, s))"

definition meter_run ::
  "meter_event list \<Rightarrow> counters \<times> (usage_key \<times> nat) list \<times> inner \<Rightarrow> counters \<times> (usage_key \<times> nat) list \<times> inner" where
  "meter_run evs st = fold meter_step evs st"

fun in_batch :: "(usage_key \<times> nat) list \<Rightarrow> usage_key \<Rightarrow> nat" where
  "in_batch [] k = 0"
| "in_batch ((k', delta) # batch) k = (if k' = k then delta else 0) + in_batch batch k"

fun recorded :: "meter_event list \<Rightarrow> usage_key \<Rightarrow> nat" where
  "recorded [] k = 0"
| "recorded (Recorded k' delta # evs) k = (if k' = k then delta else 0) + recorded evs k"
| "recorded (_ # evs) k = recorded evs k"

lemma in_batch_append: "in_batch (xs @ ys) k = in_batch xs k + in_batch ys k"
  by (induction xs k rule: in_batch.induct) auto

lemma in_batch_tally: "distinct (map fst m) \<Longrightarrow> in_batch m k = tally m k"
proof (induction m)
  case (Cons x m)
  obtain k' v where x: "x = (k', v)"
    by fastforce
  have "k' \<notin> dom (map_of m)"
    using Cons.prems x by (simp add: dom_map_of_conv_image_fst)
  then show ?case
    using Cons x by (auto simp: tally_def domIff)
qed (simp add: tally_def)

text \<open>The amount of a key in all three places, up to the wrap of the sums.\<close>

definition amount :: "counters \<times> (usage_key \<times> nat) list \<times> inner \<Rightarrow> usage_key \<Rightarrow> int" where
  "amount = (\<lambda>(m, batch, s) k. (int (tally m k) + int (in_batch batch k) + int (tally (usage s) k)) mod 2 ^ 64)"

lemma tally_after_add: "int (tally (tally_add k delta m) k') =
    (if k' = k then (int (tally m k) + int delta) mod 2 ^ 64 else int (tally m k'))"
  by (simp add: tally_add_def tally_def wrap_u64_def)

lemma stored_after_add: "int (tally (usage (usage_add s k delta)) k') =
    (if k' = k then (int (tally (usage s) k) + int delta) mod 2 ^ 64 else int (tally (usage s) k'))"
  by (simp add: usage_add_def tally_def wrap_u64_def)

lemma mod_shift: "((a + d) mod n + b + c) mod n = (a + b + c + d) mod (n :: int)"
  "(a + b + (c + d) mod n) mod n = (a + b + c + d) mod (n :: int)"
  using mod_add_left_eq [of "a + d" n "b + c"] mod_add_right_eq [of "a + b" "c + d" n]
  by (simp_all add: add_ac)

lemma amount_add:
  "amount (tally_add k' d m, batch, s) k = (amount (m, batch, s) k + (if k' = k then int d else 0)) mod 2 ^ 64"
  "amount (m, batch, usage_add s k' d) k = (amount (m, batch, s) k + (if k' = k then int d else 0)) mod 2 ^ 64"
  "amount (m, (k', d) # batch, s) k = (amount (m, batch, s) k + (if k' = k then int d else 0)) mod 2 ^ 64"
proof -
  show "amount (tally_add k' d m, batch, s) k = (amount (m, batch, s) k + (if k' = k then int d else 0)) mod 2 ^ 64"
    by (cases "k' = k") (simp_all add: amount_def tally_after_add mod_shift(1) mod_add_left_eq)
  show "amount (m, batch, usage_add s k' d) k = (amount (m, batch, s) k + (if k' = k then int d else 0)) mod 2 ^ 64"
    by (cases "k' = k") (simp_all add: amount_def stored_after_add mod_shift(2) mod_add_left_eq)
  show "amount (m, (k', d) # batch, s) k = (amount (m, batch, s) k + (if k' = k then int d else 0)) mod 2 ^ 64"
    by (cases "k' = k") (simp_all add: amount_def mod_add_right_eq add_ac)
qed

lemma tally_add_distinct [simp]: "distinct (map fst m) \<Longrightarrow> distinct (map fst (tally_add k d m))"
  by (simp add: tally_add_def distinct_keys_update)

lemma meter_step_amount:
  assumes "distinct (map fst m)" "meter_step ev (m, batch, s) = (m', batch', s')"
  shows "distinct (map fst m') \<and> amount (m', batch', s') k = (amount (m, batch, s) k + int (recorded [ev] k)) mod 2 ^ 64"
proof (cases ev)
  case (Recorded k' delta)
  then show ?thesis
    using assms by (auto simp: amount_add)
next
  case Drained
  then show ?thesis
    using assms by (auto simp: amount_def in_batch_append in_batch_tally tally_def algebra_simps)
next
  case (Written ok)
  show ?thesis
  proof (cases batch)
    case Nil
    then show ?thesis
      using assms Written by (auto simp: amount_def)
  next
    case (Cons x rest)
    obtain k' delta where "x = (k', delta)"
      by fastforce
    then show ?thesis
      using assms Written Cons by (cases ok) (auto simp: amount_add)
  qed
qed

lemma recorded_Cons: "recorded (ev # evs) k = recorded [ev] k + recorded evs k"
  by (cases ev) auto

lemma meter_run_amount:
  assumes "distinct (map fst m)"
  shows "amount (meter_run evs (m, batch, s)) k = (amount (m, batch, s) k + int (recorded evs k)) mod 2 ^ 64"
  using assms
proof (induction evs arbitrary: m batch s)
  case Nil
  then show ?case
    by (simp add: meter_run_def amount_def)
next
  case (Cons ev evs)
  obtain m1 b1 s1 where st: "meter_step ev (m, batch, s) = (m1, b1, s1)"
    using prod_cases3 by blast
  note one = meter_step_amount [OF Cons.prems st]
  have "amount (meter_run (ev # evs) (m, batch, s)) k = (amount (m1, b1, s1) k + int (recorded evs k)) mod 2 ^ 64"
    using Cons.IH [of m1 b1 s1] one st by (simp add: meter_run_def)
  also have "\<dots> = (amount (m, batch, s) k + int (recorded [ev] k) + int (recorded evs k)) mod 2 ^ 64"
    using one mod_add_left_eq [of "amount (m, batch, s) k + int (recorded [ev] k)" "2 ^ 64" "int (recorded evs k)"] by simp
  finally show ?case
    unfolding recorded_Cons [of ev evs] by (simp only: of_nat_add add.assoc)
qed

lemma flush_batch_run:
  "flush_batch ok batch (n, s, m) = (n', s', m') \<Longrightarrow>
    meter_run (map (\<lambda>(k, _). Written (ok k)) batch) (m, batch, s) = (m', [], s')"
  by (induction ok batch "(n, s, m)" arbitrary: n s m rule: flush_batch.induct)
    (auto simp: meter_run_def split: if_splits)


end
