(* ===== verification/Api_Quota.thy ===== *)
theory Api_Quota
  imports Usage_Meter Ledger Api_Auth
begin

text \<open>
  The guards in front of the tenant routes (\<open>api-server/src/quota.rs\<close>): the limits on requests in
  flight per tenant and per cell, and the minimum balance.  The rest of the chain of middleware and
  handlers is the argument \<open>next\<close>, a function on the state that returns the response.
\<close>

section \<open>Requests in flight\<close>

type_synonym inflight = "(str, nat) hashmap"

text \<open>Entering creates the entry even when it refuses; \<open>None\<close> is the refusal.\<close>

definition try_enter :: "str \<Rightarrow> nat \<Rightarrow> inflight \<Rightarrow> bool \<times> inflight" where
  "try_enter key limit m =
    (let cur = (case map_of m key of Some v \<Rightarrow> v | None \<Rightarrow> 0)
     in if limit > 0 \<and> cur \<ge> limit then (False, AList.update key cur m)
        else (True, AList.update key (cur + 1) m))"

definition drop_guard :: "str \<Rightarrow> inflight \<Rightarrow> inflight" where
  "drop_guard key m = (case map_of m key of
      Some v \<Rightarrow> if v - 1 = 0 then AList.delete key m else AList.update key (v - 1) m
    | None \<Rightarrow> m)"

definition tenant_guard_key :: "(uuid \<Rightarrow> str) \<Rightarrow> tenant_id \<Rightarrow> str" where
  "tenant_guard_key sh t = ''t:'' @ sh (tenant_uuid t)"

definition cell_guard_key :: "(uuid \<Rightarrow> str) \<Rightarrow> database_id \<Rightarrow> str" where
  "cell_guard_key sh c = ''c:'' @ sh (db_uuid c)"

section \<open>The middleware\<close>

datatype 'r response = TooManyRequests str | PaymentRequired str | Inner 'r

text \<open>
  The guards are dropped by the statement that binds them to \<open>_\<close>, before the rest of the chain runs.
  \<open>now\<close> is the reading of the clock for the metering of a refusal.
\<close>

definition concurrency_quota ::
  "(uuid \<Rightarrow> str) \<Rightarrow> (str \<Rightarrow> uuid option) \<Rightarrow> quota_config \<Rightarrow> int \<Rightarrow> auth_context option \<Rightarrow> str \<Rightarrow> (inflight \<times> counters \<Rightarrow> 'r \<times> inflight \<times> counters)
    \<Rightarrow> inflight \<times> counters \<Rightarrow> 'r response \<times> inflight \<times> counters" where
  "concurrency_quota sh parse_uuid q now auth path next = (\<lambda>(m, c).
    let tenant = (case auth of Some a \<Rightarrow> ac_tenant_id a | None \<Rightarrow> DEFAULT_TENANT);
        cell = parse_cell_from_path parse_uuid path;
        tkey = tenant_guard_key sh tenant;
        (entered, m) = try_enter tkey (max_per_tenant_concurrency q) m
    in if \<not> entered then (TooManyRequests ''concurrency limit exceeded'', m, record_usage now tenant cell Requests 1 c)
       else case cell of
           Some i \<Rightarrow>
             if max_per_cell_concurrency q > 0 then
               let (entered, m) = try_enter (cell_guard_key sh i) (max_per_cell_concurrency q) m
               in if \<not> entered then
                    (TooManyRequests ''concurrency limit exceeded'', drop_guard tkey m, record_usage now tenant (Some i) Requests 1 c)
                  else let (r, m, c) = next (drop_guard (cell_guard_key sh i) (drop_guard tkey m), c) in (Inner r, m, c)
             else let (r, m, c) = next (drop_guard tkey m, c) in (Inner r, m, c)
         | None \<Rightarrow> let (r, m, c) = next (drop_guard tkey m, c) in (Inner r, m, c))"

text \<open>Looking at the balance opens the account of a tenant that has none.\<close>

definition credit_quota ::
  "nat \<Rightarrow> int \<Rightarrow> auth_context option \<Rightarrow> (inner \<Rightarrow> 'r \<times> inner) \<Rightarrow> inner \<Rightarrow> 'r response \<times> inner" where
  "credit_quota now min_credit_balance_units auth next s = (case auth of
      Some a \<Rightarrow>
        if ac_internal a then let (r, s) = next s in (Inner r, s)
        else let (account, s) = get_credit_account now s (ac_tenant_id a)
             in if ca_balance_units account < min_credit_balance_units
                then (PaymentRequired ''credit balance below minimum; top up to continue'', s)
                else let (r, s) = next s in (Inner r, s)
    | None \<Rightarrow> let (r, s) = next s in (Inner r, s))"

section \<open>What the limits do\<close>

lemma guards_dropped:
  "concurrency_quota sh p q now auth path next ([], c) = (let (r, m, c) = next ([], c) in (Inner r, m, c))"
proof -
  have keys: "tenant_guard_key sh t \<noteq> cell_guard_key sh i" for t i
    by (simp add: tenant_guard_key_def cell_guard_key_def)
  show ?thesis
    using keys keys [symmetric]
    by (auto simp: concurrency_quota_def try_enter_def drop_guard_def Let_def split: option.splits prod.splits)
qed


end
