(* ===== verification/Api_Handlers.thy ===== *)
theory Api_Handlers
  imports Failover Api_Quota
begin

text \<open>
  The tenant routes of the API server (\<open>api-server/src/handlers/database.rs\<close>, \<open>kv.rs\<close>, \<open>sql.rs\<close>, \<open>replication.rs\<close>,
  \<open>backup.rs\<close>, \<open>failover.rs\<close>): cells, KV commands, SQL, replicas, backups and failover.  A handler runs on the state of the system and of the server's meter, on behalf
  of an authenticated tenant.
\<close>

section \<open>The server\<close>

record ('c, 'u, 'o) app =
  ap_cluster :: "('c, 'u, 'o) cluster"
  ap_usage :: counters
  ap_quota :: quota_config

text \<open>What a request meets: clocks, network and drawn identifiers, in the order of the code.\<close>

record 'b request_env =
  re_now :: "nat \<Rightarrow> int"
  re_route :: "nat \<Rightarrow> int \<times> nat"
  re_trip :: "nat \<Rightarrow> 'b trip"
  re_pick :: "int \<times> nat"
  re_id :: database_id
  re_unix :: nat
  re_failover :: "'b failover_env"

datatype 'n api_reply =
    Created database_id str
  | Replayed database_id str
  | Cell database_record
  | Cells "database_record list"
  | Ensured database_record bool
  | NoContent
  | ReplicaOf database_id "node_id option"
  | Answer "'n answer"
  | Answers "'n answer list"

definition on_cluster :: "(('c, 'u, 'o) cluster, 'a) op \<Rightarrow> (('c, 'u, 'o) app, 'a) op" where
  "on_cluster f = (\<lambda>a. let (r, k) = f (ap_cluster a) in (r, a\<lparr>ap_cluster := k\<rparr>))"

definition metered :: "(counters \<Rightarrow> counters) \<Rightarrow> (('c, 'u, 'o) app, unit) op" where
  "metered f = (\<lambda>a. (Inr (), a\<lparr>ap_usage := f (ap_usage a)\<rparr>))"

definition from_meta :: "(inner \<Rightarrow> 'a result) \<Rightarrow> (('c, 'u, 'o) app, 'a) op" where
  "from_meta f = (\<lambda>a. (f (cl_meta (ap_cluster a)), a))"

definition into_meta :: "(inner \<Rightarrow> 'a result \<times> inner) \<Rightarrow> (('c, 'u, 'o) app, 'a) op" where
  "into_meta f = on_cluster (on_meta f)"

definition require_db :: "auth_context \<Rightarrow> database_id \<Rightarrow> (('c, 'u, 'o) app, database_record) op" where
  "require_db auth db = from_meta (\<lambda>s.
    if ac_internal auth then get_database_by_id s db else get_database s (ac_tenant_id auth) db)"

definition cell_client ::
  "('c, 'u, 'f, 'n, 'o, 'b) world \<Rightarrow> 'b request_env \<Rightarrow> database_id \<Rightarrow> (('c, 'u, 'o) app, client) op" where
  "cell_client W rq db = on_cluster (\<lambda>k. on_routing (client_for (lb_show (wo_libs W)) (\<lambda>i. here k (re_route rq i)) db) k)"

definition call_cell ::
  "('c, 'u, 'f, 'n, 'o, 'b) world \<Rightarrow> 'b request_env \<Rightarrow> nat \<Rightarrow> client \<Rightarrow> 'n node_call \<Rightarrow> (('c, 'u, 'o) app, 'n answer) op" where
  "call_cell W rq i c call = on_cluster (call_client W (re_trip rq i) c call)"

section \<open>KV and SQL\<close>

text \<open>The course of a KV handler: ownership, metering, route, call.\<close>

definition kv_handler ::
  "('c, 'u, 'f, 'n, 'o, 'b) world \<Rightarrow> 'b request_env \<Rightarrow> auth_context \<Rightarrow> database_id \<Rightarrow> usage_metric
    \<Rightarrow> (database_record \<Rightarrow> client \<Rightarrow> (('c, 'u, 'o) app, 'a) op) \<Rightarrow> (('c, 'u, 'o) app, 'a) op" where
  "kv_handler W rq auth db metric work =
    try_then (require_db auth db) (\<lambda>r.
    try_then (metered (record_usage (re_now rq 0) (ac_tenant_id auth) (Some db) metric 1)) (\<lambda>_.
    try_then (cell_client W rq db) (\<lambda>c. work r c)))"

definition api_kv_get where
  "api_kv_get W rq auth db key = kv_handler W rq auth db KvRead (\<lambda>_ c. call_cell W rq 0 c (KvGet db key))"

definition api_kv_set where
  "api_kv_set W rq auth db key req = kv_handler W rq auth db KvWrite (\<lambda>r c. call_cell W rq 0 c (KvSet db key req (db_generation r)))"

definition api_kv_del where
  "api_kv_del W rq auth db key = kv_handler W rq auth db KvWrite (\<lambda>r c. call_cell W rq 0 c (KvDel db key (db_generation r)))"

definition api_kv_exists where
  "api_kv_exists W rq auth db keys = kv_handler W rq auth db KvRead (\<lambda>_ c.
    for_each (\<lambda>(i, k). call_cell W rq i c (KvExists db k)) (List.enumerate 0 keys))"

definition api_kv_mget where
  "api_kv_mget W rq auth db keys = kv_handler W rq auth db KvRead (\<lambda>_ c. call_cell W rq 0 c (KvMget db keys))"

definition api_kv_mset where
  "api_kv_mset W rq auth db items = kv_handler W rq auth db KvWrite (\<lambda>r c. call_cell W rq 0 c (KvMset db items (db_generation r)))"

definition api_kv_ttl where
  "api_kv_ttl W rq auth db keys = kv_handler W rq auth db KvRead (\<lambda>_ c.
    for_each (\<lambda>(i, k). call_cell W rq i c (KvTtl db k)) (List.enumerate 0 keys))"

definition api_kv_expire where
  "api_kv_expire W rq auth db req = kv_handler W rq auth db KvWrite (\<lambda>r c. call_cell W rq 0 c (KvExpire db req (db_generation r)))"

definition api_kv_incr where
  "api_kv_incr W rq auth db req = kv_handler W rq auth db KvWrite (\<lambda>r c. call_cell W rq 0 c (KvIncr db req (db_generation r)))"

definition api_kv_list where
  "api_kv_list W rq auth db pfx limit cursor = kv_handler W rq auth db KvRead (\<lambda>_ c.
    call_cell W rq 0 c (KvScan db (case pfx of Some p \<Rightarrow> p | None \<Rightarrow> []) (case limit of Some n \<Rightarrow> n | None \<Rightarrow> 50)
      (case cursor of Some s \<Rightarrow> s | None \<Rightarrow> [])))"

definition sql_metric :: "str \<Rightarrow> usage_metric" where
  "sql_metric sql = (if is_read_sql sql then SqlRead else SqlWrite)"

definition api_execute_sql where
  "api_execute_sql W rq auth db req =
    try_then (require_db auth db) (\<lambda>r.
    try_then (cell_client W rq db) (\<lambda>c.
    try_then (metered (record_billed (re_now rq 0) auth (Some db) (sql_metric (rq_sql req)) 1)) (\<lambda>_.
      call_cell W rq 0 c (ExecuteSql db req (db_generation r)))))"

definition api_execute_transaction where
  "api_execute_transaction W rq auth db reqs =
    try_then (require_db auth db) (\<lambda>r.
    try_then (cell_client W rq db) (\<lambda>c.
    try_then (metered (fold (\<lambda>(i, req). record_billed (re_now rq i) auth (Some db) (sql_metric (rq_sql req)) 1) (List.enumerate 0 reqs))) (\<lambda>_.
      call_cell W rq 0 c (ExecuteTransaction db reqs (db_generation r)))))"

section \<open>Cells\<close>

definition validate_cell_name :: "str \<Rightarrow> unit result" where
  "validate_cell_name name =
    (let n = trim name; lower = (\<lambda>c. 97 \<le> (of_char c :: nat) \<and> (of_char c :: nat) \<le> 122) in
     if n \<noteq> [] \<and> length n \<le> 63 \<and> list_all (\<lambda>c. lower c \<or> is_digit c \<or> c = CHR ''-'' \<or> c = CHR ''_'') n
       \<and> (lower (hd n) \<or> is_digit (hd n))
     then Inr () else Inl (InvalidCellName name))"

definition check_cell_quota :: "auth_context \<Rightarrow> (('c, 'u, 'o) app, unit) op" where
  "check_cell_quota auth = (\<lambda>a.
    let limit = max_cells_per_tenant (ap_quota a); n = length (list_databases (cl_meta (ap_cluster a)) (ac_tenant_id auth)) in
    if limit > 0 \<and> n \<ge> limit then
      (Inl (QuotaExceeded (''cell limit reached: '' @ show_nat n @ '' (max '' @ show_nat limit @ '')'')), a)
    else (Inr (), a))"

definition place_cell :: "'b request_env \<Rightarrow> (('c, 'u, 'o) app, node_id option) op" where
  "place_cell rq = on_cluster (\<lambda>k.
    let (p, g) = pick (fst (re_pick rq)) (snd (re_pick rq)) (cl_meta k) (cl_registry k)
    in (Inr (map_option fst p), k\<lparr>cl_registry := g\<rparr>))"

text \<open>
  \<open>payload_of\<close> is the JSON text stored for an idempotency key, \<open>payload_id\<close> reads it.
\<close>

definition create_cell ::
  "('c, 'u, 'f, 'n, 'o, 'b) world \<Rightarrow> 'b request_env \<Rightarrow> auth_context \<Rightarrow> str option \<Rightarrow> (('c, 'u, 'o) app, 'n api_reply) op" where
  "create_cell W rq auth name =
    try_then (check_cell_quota auth) (\<lambda>_.
    try_then (place_cell rq) (\<lambda>node.
    try_then (from_meta (\<lambda>_. case name of Some n \<Rightarrow> validate_cell_name n | None \<Rightarrow> Inr ())) (\<lambda>_.
    try_then (into_meta (\<lambda>s. create_database (lb_show (wo_libs W)) (re_unix rq) s (ac_tenant_id auth) (re_id rq) node name)) (\<lambda>r.
    try_then (ignoring (into_meta (\<lambda>s. set_database_state s (ac_tenant_id auth) (re_id rq) Active))) (\<lambda>_.
      done_with (Created (re_id rq) (db_name r)))))))"

definition api_create_database ::
  "('c, 'u, 'f, 'n, 'o, 'b) world \<Rightarrow> (database_id \<Rightarrow> str) \<Rightarrow> (str \<Rightarrow> database_id result) \<Rightarrow> 'b request_env \<Rightarrow> auth_context
    \<Rightarrow> str option \<Rightarrow> str option \<Rightarrow> (('c, 'u, 'o) app, 'n api_reply) op" where
  "api_create_database W payload_of payload_id rq auth idempotency_key name = (case idempotency_key of
      Some key \<Rightarrow>
        try_then (into_meta (\<lambda>s. let (found, s) = save_idempotency s key (ac_tenant_id auth) (payload_of (re_id rq)) in (Inr found, s)))
          (\<lambda>found. case found of
             Some existing \<Rightarrow>
               try_then (from_meta (\<lambda>_. payload_id existing)) (\<lambda>i.
               try_then (from_meta (\<lambda>s. get_database s (ac_tenant_id auth) i)) (\<lambda>r.
                 done_with (Replayed (db_id r) (db_name r))))
           | None \<Rightarrow> create_cell W rq auth name)
    | None \<Rightarrow> create_cell W rq auth name)"

definition api_list_databases :: "auth_context \<Rightarrow> (('c, 'u, 'o) app, 'n api_reply) op" where
  "api_list_databases auth = from_meta (\<lambda>s. Inr (Cells (list_databases s (ac_tenant_id auth))))"

definition api_delete_database ::
  "('c, 'u, 'f, 'n, 'o, 'b) world \<Rightarrow> 'b request_env \<Rightarrow> auth_context \<Rightarrow> database_id \<Rightarrow> (('c, 'u, 'o) app, 'n api_reply) op" where
  "api_delete_database W rq auth db =
    try_then (from_meta (\<lambda>s. get_database s (ac_tenant_id auth) db)) (\<lambda>_.
    try_then (into_meta (\<lambda>s. set_database_state s (ac_tenant_id auth) db Deleting)) (\<lambda>_.
    try_then (cell_client W rq db) (\<lambda>c.
    try_then (call_cell W rq 0 c (DeleteDatabase db)) (\<lambda>_.
    try_then (into_meta (\<lambda>s. delete_database s (ac_tenant_id auth) db)) (\<lambda>_.
      done_with NoContent)))))"

definition api_ensure_database ::
  "('c, 'u, 'f, 'n, 'o, 'b) world \<Rightarrow> 'b request_env \<Rightarrow> auth_context \<Rightarrow> str \<Rightarrow> (('c, 'u, 'o) app, 'n api_reply) op" where
  "api_ensure_database W rq auth name =
    try_then (from_meta (\<lambda>_. validate_cell_name name)) (\<lambda>_.
    try_then (check_cell_quota auth) (\<lambda>_.
    try_then (place_cell rq) (\<lambda>node.
    try_then (into_meta (\<lambda>s. ensure_database_by_name (re_id rq) (re_unix rq) s (ac_tenant_id auth) name node)) (\<lambda>(r, created).
      if created then
        (\<lambda>a. case try_then (cell_client W rq (db_id r)) (\<lambda>c. call_cell W rq 0 c (EnsureDatabase (db_id r))) a of
            (Inl e, a) \<Rightarrow> (Inl e, snd (into_meta (\<lambda>s. delete_database s (ac_tenant_id auth) (db_id r)) a))
          | (Inr _, a) \<Rightarrow>
              try_then (ignoring (into_meta (\<lambda>s. set_database_state s (ac_tenant_id auth) (db_id r) Active))) (\<lambda>_. done_with (Ensured r True)) a)
      else done_with (Ensured r False)))))"

definition api_get_database_by_name ::
  "'b request_env \<Rightarrow> auth_context \<Rightarrow> str \<Rightarrow> (('c, 'u, 'o) app, 'n api_reply) op" where
  "api_get_database_by_name rq auth name =
    try_then (from_meta (\<lambda>s. get_database_by_name (re_id rq) s (ac_tenant_id auth) name)) (\<lambda>r. done_with (Cell r))"

definition api_get_database :: "auth_context \<Rightarrow> database_id \<Rightarrow> (('c, 'u, 'o) app, 'n api_reply) op" where
  "api_get_database auth db = try_then (require_db auth db) (\<lambda>r. done_with (Cell r))"

definition api_rename_database :: "auth_context \<Rightarrow> database_id \<Rightarrow> str \<Rightarrow> (('c, 'u, 'o) app, 'n api_reply) op" where
  "api_rename_database auth db name =
    try_then (from_meta (\<lambda>_. validate_cell_name name)) (\<lambda>_.
    try_then (into_meta (\<lambda>s. rename_database s (ac_tenant_id auth) db name)) (\<lambda>r. done_with (Cell r)))"

definition api_reset_database ::
  "('c, 'u, 'f, 'n, 'o, 'b) world \<Rightarrow> 'b request_env \<Rightarrow> auth_context \<Rightarrow> database_id \<Rightarrow> (('c, 'u, 'o) app, 'n api_reply) op" where
  "api_reset_database W rq auth db =
    try_then (require_db auth db) (\<lambda>_.
    try_then (cell_client W rq db) (\<lambda>c.
    try_then (\<lambda>a. case call_cell W rq 0 c (ResetDatabase db) a of
        (Inl e, a) \<Rightarrow> (Inl (CellResetFailed (error_to_string (lb_show (wo_libs W)) e)), a)
      | (Inr _, a) \<Rightarrow> (Inr (), a)) (\<lambda>_.
    try_then (into_meta (\<lambda>s. reset_database s (ac_tenant_id auth) db)) (\<lambda>r. done_with (Cell r)))))"

definition api_delete_database_by_name ::
  "('c, 'u, 'f, 'n, 'o, 'b) world \<Rightarrow> 'b request_env \<Rightarrow> auth_context \<Rightarrow> str \<Rightarrow> (('c, 'u, 'o) app, 'n api_reply) op" where
  "api_delete_database_by_name W rq auth name =
    try_then (from_meta (\<lambda>s. get_database_by_name (re_id rq) s (ac_tenant_id auth) name)) (\<lambda>r.
    try_then (cell_client W rq (db_id r)) (\<lambda>c.
    try_then (call_cell W rq 0 c (DeleteDatabase (db_id r))) (\<lambda>_.
    try_then (into_meta (\<lambda>s. delete_database s (ac_tenant_id auth) (db_id r))) (\<lambda>_.
      done_with NoContent))))"

section \<open>Replicas, backups and failover\<close>

definition api_set_replica :: "auth_context \<Rightarrow> database_id \<Rightarrow> node_id \<Rightarrow> (('c, 'u, 'o) app, 'n api_reply) op" where
  "api_set_replica auth db node =
    try_then (require_db auth db) (\<lambda>_.
    try_then (into_meta (\<lambda>s. set_replica_node s (ac_tenant_id auth) db (Some node))) (\<lambda>r.
      done_with (ReplicaOf (db_id r) (db_replica_node_id r))))"

definition api_unset_replica :: "auth_context \<Rightarrow> database_id \<Rightarrow> (('c, 'u, 'o) app, 'n api_reply) op" where
  "api_unset_replica auth db =
    try_then (require_db auth db) (\<lambda>_.
    try_then (into_meta (\<lambda>s. set_replica_node s (ac_tenant_id auth) db None)) (\<lambda>_. done_with NoContent))"

definition api_get_replica :: "auth_context \<Rightarrow> database_id \<Rightarrow> (('c, 'u, 'o) app, 'n api_reply) op" where
  "api_get_replica auth db =
    try_then (from_meta (\<lambda>s. get_database s (ac_tenant_id auth) db)) (\<lambda>r. done_with (ReplicaOf (db_id r) (db_replica_node_id r)))"

definition api_backup ::
  "('c, 'u, 'f, 'n, 'o, 'b) world \<Rightarrow> 'b request_env \<Rightarrow> auth_context \<Rightarrow> database_id \<Rightarrow> (('c, 'u, 'o) app, 'n answer) op" where
  "api_backup W rq auth db =
    try_then (require_db auth db) (\<lambda>_. try_then (cell_client W rq db) (\<lambda>c. call_cell W rq 0 c (BackupCell db)))"

definition api_incremental_backup ::
  "('c, 'u, 'f, 'n, 'o, 'b) world \<Rightarrow> 'b request_env \<Rightarrow> auth_context \<Rightarrow> database_id \<Rightarrow> (('c, 'u, 'o) app, 'n answer) op" where
  "api_incremental_backup W rq auth db =
    try_then (require_db auth db) (\<lambda>_. try_then (cell_client W rq db) (\<lambda>c. call_cell W rq 0 c (IncrementalBackup db)))"

definition api_restore ::
  "('c, 'u, 'f, 'n, 'o, 'b) world \<Rightarrow> 'b request_env \<Rightarrow> auth_context \<Rightarrow> database_id \<Rightarrow> str option \<Rightarrow> (('c, 'u, 'o) app, 'n api_reply) op" where
  "api_restore W rq auth db version =
    (let allowed = ''backups/'' @ lb_show (wo_libs W) (db_uuid db) @ ''/'' in
     try_then (require_db auth db) (\<lambda>_.
     try_then (refuse_if (case version of Some v \<Rightarrow> \<not> starts_with v allowed | None \<Rightarrow> False)
       (InvalidRequest (''backup version must be under '' @ [CHR 0x27] @ allowed @ [CHR 0x27]))) (\<lambda>_.
     try_then (cell_client W rq db) (\<lambda>c.
     try_then (call_cell W rq 0 c (RestoreCell db version)) (\<lambda>_. done_with NoContent)))))"

definition api_failover ::
  "('c, 'u, 'f, 'n, 'o, 'b) world \<Rightarrow> 'b request_env \<Rightarrow> auth_context \<Rightarrow> database_id \<Rightarrow> (('c, 'u, 'o) app, 'n api_reply) op" where
  "api_failover W rq auth db =
    try_then (on_cluster (failover_cell W (re_failover rq) (ac_tenant_id auth) db)) (\<lambda>r. done_with (Cell r))"

section \<open>Errors\<close>

fun status_of :: "combee_error \<Rightarrow> nat" where
  "status_of (DatabaseNotFound _) = 404"
| "status_of (DatabaseAlreadyExists _) = 409"
| "status_of (CellAlreadyExists _) = 409"
| "status_of (CellNameConflict _) = 409"
| "status_of (InvalidCellName _) = 400"
| "status_of (CellResetFailed _) = 500"
| "status_of ApiKeyNotFound = 404"
| "status_of Unauthorized = 401"
| "status_of (InvalidRequest _) = 400"
| "status_of (Forbidden _) = 403"
| "status_of (QuotaExceeded _) = 429"
| "status_of (Sql _) = 400"
| "status_of (Internal _) = 500"

text \<open>The status, the code and the text of an error response.\<close>

definition error_response :: "(uuid \<Rightarrow> str) \<Rightarrow> combee_error \<Rightarrow> nat \<times> str \<times> str" where
  "error_response sh e = (status_of e, kind e, error_to_string sh e)"

section \<open>The routes\<close>

datatype 'n api_call =
    CreateCell "str option" "str option"
  | ListCells
  | DeleteCell database_id
  | EnsureCell str
  | CellByName str
  | CellById database_id
  | RenameCell database_id str
  | ResetCell database_id
  | DeleteByName str
  | Sql1 database_id "'n sql_request"
  | SqlMany database_id "'n sql_request list"
  | GetKey database_id str
  | PutKey database_id str kv_set_request
  | DeleteKey database_id str
  | KeysExist database_id "str list"
  | GetKeys database_id "str list"
  | PutKeys database_id "kv_set_item list"
  | KeysTtl database_id "str list"
  | ExpireKey database_id kv_expire_request
  | IncrKey database_id kv_incr_request
  | ListKeys database_id "str option" "nat option" "str option"
  | SetReplica database_id node_id
  | UnsetReplica database_id
  | GetReplica database_id
  | BackUp database_id
  | BackUpIncr database_id
  | Restore database_id "str option"
  | FailOver database_id

definition with_answer :: "('s, 'n answer) op \<Rightarrow> ('s, 'n api_reply) op" where
  "with_answer f = try_then f (\<lambda>x. done_with (Answer x))"

definition with_answers :: "('s, 'n answer list) op \<Rightarrow> ('s, 'n api_reply) op" where
  "with_answers f = try_then f (\<lambda>x. done_with (Answers x))"

fun handle ::
  "('c, 'u, 'f, 'n, 'o, 'b) world \<Rightarrow> (database_id \<Rightarrow> str) \<Rightarrow> (str \<Rightarrow> database_id result) \<Rightarrow> 'b request_env \<Rightarrow> auth_context \<Rightarrow> 'n api_call
    \<Rightarrow> (('c, 'u, 'o) app, 'n api_reply) op" where
  "handle W pay unpay rq auth (CreateCell key name) = api_create_database W pay unpay rq auth key name"
| "handle W pay unpay rq auth ListCells = api_list_databases auth"
| "handle W pay unpay rq auth (DeleteCell db) = api_delete_database W rq auth db"
| "handle W pay unpay rq auth (EnsureCell name) = api_ensure_database W rq auth name"
| "handle W pay unpay rq auth (CellByName name) = api_get_database_by_name rq auth name"
| "handle W pay unpay rq auth (CellById db) = api_get_database auth db"
| "handle W pay unpay rq auth (RenameCell db name) = api_rename_database auth db name"
| "handle W pay unpay rq auth (ResetCell db) = api_reset_database W rq auth db"
| "handle W pay unpay rq auth (DeleteByName name) = api_delete_database_by_name W rq auth name"
| "handle W pay unpay rq auth (Sql1 db req) = with_answer (api_execute_sql W rq auth db req)"
| "handle W pay unpay rq auth (SqlMany db reqs) = with_answer (api_execute_transaction W rq auth db reqs)"
| "handle W pay unpay rq auth (GetKey db key) = with_answer (api_kv_get W rq auth db key)"
| "handle W pay unpay rq auth (PutKey db key req) = with_answer (api_kv_set W rq auth db key req)"
| "handle W pay unpay rq auth (DeleteKey db key) = with_answer (api_kv_del W rq auth db key)"
| "handle W pay unpay rq auth (KeysExist db keys) = with_answers (api_kv_exists W rq auth db keys)"
| "handle W pay unpay rq auth (GetKeys db keys) = with_answer (api_kv_mget W rq auth db keys)"
| "handle W pay unpay rq auth (PutKeys db items) = with_answer (api_kv_mset W rq auth db items)"
| "handle W pay unpay rq auth (KeysTtl db keys) = with_answers (api_kv_ttl W rq auth db keys)"
| "handle W pay unpay rq auth (ExpireKey db req) = with_answer (api_kv_expire W rq auth db req)"
| "handle W pay unpay rq auth (IncrKey db req) = with_answer (api_kv_incr W rq auth db req)"
| "handle W pay unpay rq auth (ListKeys db pfx limit cursor) = with_answer (api_kv_list W rq auth db pfx limit cursor)"
| "handle W pay unpay rq auth (SetReplica db node) = api_set_replica auth db node"
| "handle W pay unpay rq auth (UnsetReplica db) = api_unset_replica auth db"
| "handle W pay unpay rq auth (GetReplica db) = api_get_replica auth db"
| "handle W pay unpay rq auth (BackUp db) = with_answer (api_backup W rq auth db)"
| "handle W pay unpay rq auth (BackUpIncr db) = with_answer (api_incremental_backup W rq auth db)"
| "handle W pay unpay rq auth (Restore db version) = api_restore W rq auth db version"
| "handle W pay unpay rq auth (FailOver db) = api_failover W rq auth db"

section \<open>Tenants\<close>

text \<open>The cell a call addresses by its identifier.\<close>

fun addressed :: "'n api_call \<Rightarrow> database_id option" where
  "addressed (CreateCell key name) = None"
| "addressed ListCells = None"
| "addressed (DeleteCell db) = Some db"
| "addressed (EnsureCell name) = None"
| "addressed (CellByName name) = None"
| "addressed (CellById db) = Some db"
| "addressed (RenameCell db name) = Some db"
| "addressed (ResetCell db) = Some db"
| "addressed (DeleteByName name) = None"
| "addressed (Sql1 db req) = Some db"
| "addressed (SqlMany db reqs) = Some db"
| "addressed (GetKey db key) = Some db"
| "addressed (PutKey db key req) = Some db"
| "addressed (DeleteKey db key) = Some db"
| "addressed (KeysExist db keys) = Some db"
| "addressed (GetKeys db keys) = Some db"
| "addressed (PutKeys db items) = Some db"
| "addressed (KeysTtl db keys) = Some db"
| "addressed (ExpireKey db req) = Some db"
| "addressed (IncrKey db req) = Some db"
| "addressed (ListKeys db pfx limit cursor) = Some db"
| "addressed (SetReplica db node) = Some db"
| "addressed (UnsetReplica db) = Some db"
| "addressed (GetReplica db) = Some db"
| "addressed (BackUp db) = Some db"
| "addressed (BackUpIncr db) = Some db"
| "addressed (Restore db version) = Some db"
| "addressed (FailOver db) = Some db"

lemmas other_handlers = api_execute_sql_def api_execute_transaction_def api_get_database_def api_set_replica_def api_unset_replica_def
  api_get_replica_def api_backup_def api_incremental_backup_def api_restore_def

lemmas kv_handlers = api_kv_get_def api_kv_set_def api_kv_del_def api_kv_exists_def api_kv_mget_def api_kv_mset_def
  api_kv_ttl_def api_kv_expire_def api_kv_incr_def api_kv_list_def kv_handler_def

lemma foreign_cell_refused:
  assumes "\<not> ac_internal auth" "map_of (databases (cl_meta (ap_cluster a))) (ac_tenant_id auth, db) = None" "addressed call = Some db"
  shows "\<exists>e. handle W pay unpay rq auth call a = (Inl e, a)"
proof -
  have get: "get_database (cl_meta (ap_cluster a)) (ac_tenant_id auth) db = Inl (DatabaseNotFound db)"
    using assms(2) by (simp add: get_database_def ok_or_def)
  have own: "require_db auth db a = (Inl (DatabaseNotFound db), a)"
    using assms(1) get by (simp add: require_db_def from_meta_def)
  have rename: "\<exists>e. api_rename_database auth db name a = (Inl e, a)" for name
    using assms(2) by (cases "validate_cell_name name")
      (simp_all add: api_rename_database_def try_then_def from_meta_def into_meta_def on_cluster_def on_meta_def rename_database_def)
  show ?thesis
    using assms(3) by (cases call)
      (simp_all add: with_answer_def with_answers_def kv_handlers other_handlers api_reset_database_def api_delete_database_def
        api_failover_def failover_cell_def on_cluster_def from_meta_def try_then_def Let_def own get rename)
qed

text \<open>
  How a handler moves the metadata: from a state with \<open>R\<close> it ends, with success or not, in one with \<open>Q\<close>.
\<close>

definition moves :: "(inner \<Rightarrow> bool) \<Rightarrow> (inner \<Rightarrow> bool) \<Rightarrow> (('c, 'u, 'o) app, 'a) op \<Rightarrow> bool" where
  "moves R Q f \<longleftrightarrow> (\<forall>a. R (cl_meta (ap_cluster a)) \<longrightarrow> Q (cl_meta (ap_cluster (snd (f a)))))"

lemma moves_then:
  fixes f :: "(('c, 'u, 'o) app, 'x) op"
  assumes "moves R M f" "\<And>x. moves M Q (g x)" "\<And>s. M s \<Longrightarrow> Q s"
  shows "moves R Q (try_then f g)"
  unfolding moves_def
proof (intro allI impI)
  fix a :: "('c, 'u, 'o) app"
  assume "R (cl_meta (ap_cluster a))"
  then have "M (cl_meta (ap_cluster (snd (f a))))"
    using assms(1) by (simp add: moves_def)
  then show "Q (cl_meta (ap_cluster (snd (try_then f g a))))"
    using assms(2,3) by (auto simp: moves_def try_then_def split: prod.splits sum.splits)
qed

lemma moves_into: "(\<And>s. R s \<Longrightarrow> Q (snd (f s))) \<Longrightarrow> moves R Q (into_meta f)"
  by (simp add: moves_def into_meta_def on_cluster_def on_meta_def Let_def case_prod_unfold)

lemma moves_ignoring: "moves R Q f \<Longrightarrow> moves R Q (ignoring f)"
  by (simp add: moves_def ignoring_def)

lemma moves_loop: "(\<And>x. moves R R (f x)) \<Longrightarrow> moves R R (for_each f xs)"
  unfolding moves_def using for_each_keeps [of xs "\<lambda>a. R (cl_meta (ap_cluster a))" f] by blast

lemma call_client_meta: "cl_meta (snd (call_client W tr c call k)) = cl_meta k"
  by (simp add: call_client_def Let_def case_prod_unfold split: client.splits option.splits)

lemma moves_static:
  "moves R R (done_with x)" "moves R R (from_meta h)" "moves R R (metered u)" "moves R R (check_cell_quota auth)"
  "moves R R (place_cell rq)" "moves R R (cell_client W rq db)" "moves R R (call_cell W rq i c call)" "moves R R (require_db auth db)" "moves R R (refuse_if b e)"
  by (simp_all add: moves_def done_with_def raise_def refuse_if_def from_meta_def metered_def check_cell_quota_def place_cell_def cell_client_def call_cell_def
      on_cluster_def on_routing_def require_db_def call_client_meta Let_def case_prod_unfold)

definition hidden_from :: "tenant_id \<Rightarrow> inner \<Rightarrow> inner \<Rightarrow> bool" where
  "hidden_from u s0 s \<longleftrightarrow> tenant_cells s u = tenant_cells s0 u \<and> tenant_names s u = tenant_names s0 u"

lemma hidden_exec:
  assumes "hidden_from u s0 s" "op_tenant oper \<noteq> u" "dir_inv s \<or> (\<forall>t i. oper \<noteq> OpDelete t i)"
  shows "hidden_from u s0 (dir_exec sh oper s)"
  using assms(1) dir_exec_frame [OF assms(3,2), of sh] by (simp add: hidden_from_def)

text \<open>The operations of the directory a handler makes for a tenant other than \<open>u\<close>.\<close>

lemma moves_directory:
  assumes "t \<noteq> u"
  shows "moves (hidden_from u s0) (hidden_from u s0) (into_meta (\<lambda>s. create_database sh now s t i node name))"
    "moves (hidden_from u s0) (hidden_from u s0) (into_meta (\<lambda>s. set_database_state s t i st))"
    "moves (hidden_from u s0) (hidden_from u s0) (into_meta (\<lambda>s. rename_database s t i n))"
    "moves (hidden_from u s0) (hidden_from u s0) (into_meta (\<lambda>s. reset_database s t i))"
    "moves (hidden_from u s0) (hidden_from u s0) (into_meta (\<lambda>s. set_replica_node s t i replica))"
    "moves (\<lambda>s. dir_inv s \<and> hidden_from u s0 s) (hidden_from u s0) (into_meta (\<lambda>s. delete_database s t i))"
    "moves (\<lambda>s. dir_inv s \<and> hidden_from u s0 s) (\<lambda>s. dir_inv s \<and> hidden_from u s0 s) (into_meta (\<lambda>s. set_database_state s t i st))"
    "moves (\<lambda>s. fresh_id s i \<and> dir_inv s \<and> hidden_from u s0 s) (\<lambda>s. dir_inv s \<and> hidden_from u s0 s)
      (into_meta (\<lambda>s. ensure_database_by_name i now s t n node))"
  using assms hidden_exec [of u s0 _ "OpCreate now t i node name" sh] hidden_exec [of u s0 _ "OpSetState t i st" sh]
    hidden_exec [of u s0 _ "OpRename t i n" sh] hidden_exec [of u s0 _ "OpReset t i" sh] hidden_exec [of u s0 _ "OpSetReplica t i replica" sh] hidden_exec [of u s0 _ "OpDelete t i" sh]
    hidden_exec [of u s0 _ "OpEnsure i now t n node" sh] dir_exec_inv [of _ sh "OpSetState t i st"] dir_exec_inv [of _ sh "OpEnsure i now t n node"]
  by (auto intro!: moves_into)

lemma moves_idempotency:
  "moves (hidden_from u s0) (hidden_from u s0) (into_meta (\<lambda>s. let (found, s) = save_idempotency s key t pay in (Inr found, s)))"
  by (rule moves_into)
    (auto simp: save_idempotency_def hidden_from_def tenant_cells_def tenant_names_def Let_def split: option.splits)

lemma moves_weaken: "moves R Q f \<Longrightarrow> (\<And>s. P s \<Longrightarrow> R s) \<Longrightarrow> moves P Q f"
  by (simp add: moves_def)

lemmas quiet_moves = moves_then [where R = R and M = R and Q = R for R] moves_static moves_loop moves_ignoring

lemma node_client_meta: "cl_meta (snd (node_client W t node k)) = cl_meta k"
  using node_client_same [of W t node k] by (metis prod.collapse same_nodes_def)

lemma meta_then:
  assumes "P (cl_meta (snd (f k)))" "\<And>x k. P (cl_meta k) \<Longrightarrow> P (cl_meta (snd (g x k)))"
  shows "P (cl_meta (snd (try_then f g k)))"
  using assms by (cases "f k"; cases "fst (f k)") (auto simp: try_then_def)

lemma moves_failover:
  assumes "t \<noteq> u"
  shows "moves (hidden_from u s0) (hidden_from u s0) (on_cluster (failover_cell W fe t db))"
proof -
  have fence: "cl_meta (snd (fence_old_primary W fe db r replica k)) = cl_meta k" for r replica k
    using node_client_meta [of W "fe_old fe"]
    by (auto simp: fence_old_primary_def op_defs call_client_meta split: option.splits prod.splits sum.splits) (metis snd_conv)+
  have promote: "hidden_from u s0 (snd (promote_replica sh s t db))" if "hidden_from u s0 s" for s sh
    using hidden_exec [OF that, of "OpPromote t db" sh] assms by simp
  note seq = meta_then [where P = "hidden_from u s0"]
  have step: "hidden_from u s0 (cl_meta (snd (node_client W x node k)))" "hidden_from u s0 (cl_meta (snd (call_client W tr c call k)))"
      "hidden_from u s0 (cl_meta (snd (ignoring (call_client W tr c call) k)))" "hidden_from u s0 (cl_meta (snd (fence_old_primary W fe db r replica k)))"
      "hidden_from u s0 (cl_meta (snd (on_meta (\<lambda>s. promote_replica sh s t db) k)))" "hidden_from u s0 (cl_meta (snd (done_with y k)))"
      "hidden_from u s0 (cl_meta (snd (Inr (), k\<lparr>cl_routing := rt\<rparr>)))"
    if "hidden_from u s0 (cl_meta k)" for k x node tr c call r replica sh y rt
    using that promote by (simp_all add: node_client_meta call_client_meta fence ignoring_def done_with_def on_meta_def Let_def case_prod_unfold)
  have "hidden_from u s0 (cl_meta (snd (failover_cell W fe t db k)))" if k: "hidden_from u s0 (cl_meta k)" for k
  proof (cases "get_database (cl_meta k) t db")
    case (Inr r)
    show ?thesis
    proof (cases "db_replica_node_id r")
      case (Some replica)
      show ?thesis
        unfolding failover_cell_def Inr Some sum.case option.case by (intro seq step k)
    qed (simp add: failover_cell_def Inr k)
  qed (simp add: failover_cell_def k)
  then show ?thesis
    by (simp add: moves_def on_cluster_def Let_def case_prod_unfold)
qed

lemma handle_hidden_quiet:
  assumes "ac_tenant_id auth \<noteq> u" "\<forall>name. call \<noteq> EnsureCell name \<and> call \<noteq> DeleteByName name" "\<forall>db. call \<noteq> DeleteCell db"
  shows "moves (hidden_from u s0) (hidden_from u s0) (handle W pay unpay rq auth call)"
proof -
  have create: "moves (hidden_from u s0) (hidden_from u s0) (create_cell W rq auth name)" for name
    unfolding create_cell_def by (intro quiet_moves moves_directory [OF assms(1)])
  then have "moves (hidden_from u s0) (hidden_from u s0) (api_create_database W pay unpay rq auth key name)" for key name
    unfolding api_create_database_def
    by (cases key) (simp, auto intro!: quiet_moves moves_idempotency [unfolded Let_def] split: option.splits)
  moreover have "moves (hidden_from u s0) (hidden_from u s0) (api_reset_database W rq auth db)" for db
  proof -
    have "moves R R (\<lambda>a. case call_cell W rq 0 c (ResetDatabase db) a of
        (Inl e, a) \<Rightarrow> (Inl (CellResetFailed (error_to_string (lb_show (wo_libs W)) e)), a) | (Inr _, a) \<Rightarrow> (Inr (), a))" for R c
      using moves_static(7) [of R W rq 0 c "ResetDatabase db"] by (auto simp: moves_def split: prod.splits sum.splits)
    then show ?thesis
      unfolding api_reset_database_def by (intro quiet_moves moves_directory [OF assms(1)])
  qed
  ultimately show ?thesis
    using assms(2,3) by (cases call)
      (auto simp: with_answer_def with_answers_def kv_handlers other_handlers Let_def
        api_list_databases_def api_get_database_by_name_def api_rename_database_def api_failover_def
        intro!: quiet_moves moves_directory [OF assms(1)] moves_failover [OF assms(1)])
qed

lemma handle_hidden:
  assumes "ac_tenant_id auth \<noteq> u"
  shows "moves (\<lambda>s. fresh_id s (re_id rq) \<and> dir_inv s \<and> hidden_from u s0 s) (hidden_from u s0) (handle W pay unpay rq auth call)"
proof -
  let ?S = "\<lambda>s. fresh_id s (re_id rq) \<and> dir_inv s \<and> hidden_from u s0 s" and ?I = "\<lambda>s. dir_inv s \<and> hidden_from u s0 s"
  note dir = moves_directory [OF assms]
  have delete: "moves ?I (hidden_from u s0) (api_delete_database W rq auth db)" for db
    unfolding api_delete_database_def
    by (rule moves_then [where M = ?I], rule moves_static, rule moves_then [where M = ?I], rule dir, rule moves_then [where M = ?I], rule moves_static,
        rule moves_then [where M = ?I], rule moves_static, rule moves_then [where M = "hidden_from u s0"], rule dir, rule moves_static) auto
  have by_name: "moves ?I (hidden_from u s0) (api_delete_database_by_name W rq auth name)" for name
    unfolding api_delete_database_by_name_def
    by (rule moves_then [where M = ?I], rule moves_static, rule moves_then [where M = ?I], rule moves_static,
        rule moves_then [where M = ?I], rule moves_static, rule moves_then [where M = "hidden_from u s0"], rule dir, rule moves_static) auto
  have init: "moves ?I (hidden_from u s0) (\<lambda>a. case try_then (cell_client W rq db) (\<lambda>c. call_cell W rq 0 c (EnsureDatabase db)) a of
            (Inl e, a) \<Rightarrow> (Inl e, snd (into_meta (\<lambda>s. delete_database s (ac_tenant_id auth) db) a))
          | (Inr _, a) \<Rightarrow> try_then (ignoring (into_meta (\<lambda>s. set_database_state s (ac_tenant_id auth) db Active))) (\<lambda>_. done_with x) a)" for db x
  proof -
    have a: "moves ?I ?I (try_then (cell_client W rq db) (\<lambda>c. call_cell W rq 0 c (EnsureDatabase db)))"
      by (intro quiet_moves)
    have b: "moves (hidden_from u s0) (hidden_from u s0) (try_then (ignoring (into_meta (\<lambda>s. set_database_state s (ac_tenant_id auth) db Active))) (\<lambda>_. done_with x))"
      by (intro quiet_moves dir)
    show ?thesis
      using a b dir(6) [of s0 db] unfolding moves_def by (auto split: prod.splits sum.splits)
  qed
  have ensure: "moves ?S (hidden_from u s0) (api_ensure_database W rq auth name)" for name
    unfolding api_ensure_database_def
    by (rule moves_then [where M = ?S], rule moves_static, rule moves_then [where M = ?S], rule moves_static,
        rule moves_then [where M = ?S], rule moves_static, rule moves_then [where M = ?I], rule dir)
      (auto intro!: init moves_weaken [OF moves_static(1)])
  show ?thesis
  proof (cases "(\<exists>name. call = EnsureCell name \<or> call = DeleteByName name) \<or> (\<exists>db. call = DeleteCell db)")
    case True
    have "moves ?S (hidden_from u s0) (api_delete_database W rq auth db)" "moves ?S (hidden_from u s0) (api_delete_database_by_name W rq auth name)" for db name
      by (rule moves_weaken [OF delete], simp) (rule moves_weaken [OF by_name], simp)
    with True show ?thesis
      using ensure by auto
  next
    case False
    then show ?thesis
      by (intro moves_weaken [OF handle_hidden_quiet [OF assms]]) auto
  qed
qed


definition tenant_auth :: "tenant_id \<Rightarrow> auth_context" where
  "tenant_auth t = \<lparr>ac_tenant_id = t, ac_internal = False\<rparr>"

definition two_app :: "((cache_key \<times> cached_value) list, nat \<times> nat option, pair_store) app" where
  "two_app = \<lparr>ap_cluster = two_cluster [], ap_usage = [], ap_quota = no_quota\<rparr>"

definition sample_request :: "'b request_env" where
  "sample_request = \<lparr>re_now = (\<lambda>_. 104), re_route = (\<lambda>_. (3, 30)), re_trip = (\<lambda>_. trip_at 3 104), re_pick = (3, 30), re_id = DatabaseId 9, re_unix = 3,
    re_failover = sample_failover\<rparr>"


section \<open>Resetting a cell\<close>

definition all_nodes :: "('c, 'u, 'o) cluster \<Rightarrow> ('c, 'u) data_node list" where
  "all_nodes k = (case cl_local k of Some n \<Rightarrow> [n] | None \<Rightarrow> []) @ map snd (cl_nodes k)"

definition in_step :: "database_id \<Rightarrow> int \<Rightarrow> ('c, 'u, 'o) cluster \<Rightarrow> bool" where
  "in_step db g k \<longleftrightarrow> list_all (\<lambda>n. current_generation n db = g) (all_nodes k)"

lemma set_update_snd: "x \<in> set (AList.update i v m) \<Longrightarrow> snd x = v \<or> x \<in> set m"
  by (induction m) (auto split: if_splits)

lemma in_step_update:
  "in_step db g k \<Longrightarrow> current_generation n db = g \<Longrightarrow> in_step db g (k\<lparr>cl_nodes := AList.update addr n (cl_nodes k), cl_objects := ob\<rparr>)"
  using set_update_snd [of _ addr n "cl_nodes k"]
  by (fastforce simp: in_step_def all_nodes_def list_all_iff split: option.splits)

lemma reset_generations:
  "dn_generations (fst (snd (local_client L S im e (ResetDatabase db) (n, ob)))) = dn_generations n"
  by (auto simp: answered_def on_node_def node_reset_database_def on_mgr_def clear_cell_def op_defs Let_def split: prod.splits sum.splits)

lemma remote_reset_generations:
  "dn_generations (fst (snd (remote_client L S im J p fresh tok server rid net e (ResetDatabase db) (n, ob)))) = dn_generations n"
proof -
  have "dn_generations (fst (snd (serve L S im server e \<lparr>hq_method = m, hq_path = ''/rpc/reset_database'', hq_headers = hs\<rparr> body (n, ob)))) = dn_generations n" for m hs body
    using reset_generations [of L S im e _ n ob]
    by (cases body) (auto simp: serve_def router_lookup rpc_reset_database_def reply_def Let_def case_prod_unfold split: verdict.splits)
  then show ?thesis
    by (auto simp: remote_client_def remote_call_def Let_def case_prod_unfold split: net.splits option.splits)
qed

lemma call_reset_in_step:
  assumes "in_step db g k"
  shows "in_step db g (snd (call_client W tr c (ResetDatabase db') k))"
proof -
  have node: "current_generation n db = g" if "map_of (cl_nodes k) addr = Some n" for addr n
    using assms map_of_SomeD [OF that] by (force simp: in_step_def all_nodes_def list_all_iff)
  have loc: "current_generation n db = g" if "cl_local k = Some n" for n
    using assms that by (simp add: in_step_def all_nodes_def)
  have routing: "in_step db g (k'\<lparr>cl_routing := rt\<rparr>) \<longleftrightarrow> in_step db g k'" for k' :: "('a, 'b, 'c) cluster" and rt
    by (simp add: in_step_def all_nodes_def)
  have local_step: "in_step db g (k\<lparr>cl_local := Some n', cl_objects := ob\<rparr>)" if "dn_generations n' = dn_generations n" "cl_local k = Some n" for n n' ob
    using assms that by (simp add: in_step_def all_nodes_def current_generation_def)
  show ?thesis
  proof (cases c)
    case LocalClient
    then show ?thesis
      using assms
      by (auto simp: call_client_def Let_def case_prod_unfold simp del: local_client.simps intro!: local_step [OF reset_generations] split: option.splits)
  next
    case (RemoteClient addr hook)
    then show ?thesis
      using assms node [of addr]
      by (auto simp: call_client_def Let_def case_prod_unfold routing current_generation_def remote_reset_generations intro!: in_step_update split: option.splits)
  qed
qed

lemma wrap_next_differs: "wrap_i64 (g + 1) \<noteq> g"
proof
  let ?q = "(g + 1 + 2 ^ 63) div 2 ^ 64"
  assume "wrap_i64 (g + 1) = g"
  then have "2 ^ 64 * ?q = 1"
    unfolding wrap_i64_def by (simp flip: minus_mult_div_eq_mod)
  then have "(2 :: int) ^ 64 dvd 1"
    by (metis dvd_triv_left)
  then show False
    by simp
qed

text \<open>
  C31: Resetting a cell locks its tenant out. The reset handler bumps the generation in the metadata
  but fences no node. If every node was at the generation of the record and the reset succeeds, the
  metadata holds a new record with another generation, while every node still is at the old one; so
  every write that the API makes with the record it now finds is refused as fenced off, whatever the
  node it reaches and the kind of the write.
\<close>

theorem reset_locks_out_writers:
  assumes "get_database (cl_meta (ap_cluster a)) (ac_tenant_id auth) db = Inr r" "in_step db (db_generation r) (ap_cluster a)"
    "api_reset_database W rq auth db a = (Inr ans, a')"
  shows "\<exists>r'. ans = Cell r' \<and> get_database (cl_meta (ap_cluster a')) (ac_tenant_id auth) db = Inr r'
    \<and> db_generation r' = wrap_i64 (db_generation r + 1)
    \<and> (\<forall>n \<in> set (all_nodes (ap_cluster a')). \<forall>io w. \<exists>e. call_write (wo_libs W) io db (db_generation r') w n = (Inl (Forbidden e), n))"
proof -
  let ?r = "r\<lparr>db_generation := wrap_i64 (db_generation r + 1)\<rparr>"
  obtain x c v a1 a2 a3 where run: "require_db auth db a = (Inr x, a1)" "cell_client W rq db a1 = (Inr c, a2)"
      and call: "(case call_cell W rq 0 c (ResetDatabase db) a2 of
        (Inl e, a) \<Rightarrow> (Inl (CellResetFailed (error_to_string (lb_show (wo_libs W)) e)), a) | (Inr _, a) \<Rightarrow> (Inr (), a)) = (Inr v, a3)"
      and meta: "try_then (into_meta (\<lambda>s. reset_database s (ac_tenant_id auth) db)) (\<lambda>r. done_with (Cell r)) a3 = (Inr ans, a')"
    using assms(3) unfolding api_reset_database_def try_then_Inr_iff [of "require_db auth db"] try_then_Inr_iff [of "cell_client W rq db"]
      try_then_Inr_iff [of "\<lambda>a. _ a"] by blast
  have snd_call: "a3 = snd (call_cell W rq 0 c (ResetDatabase db) a2)"
    using call by (auto split: prod.splits sum.splits)
  have a1: "a1 = a"
    using run(1) by (simp add: require_db_def from_meta_def)
  have a2: "cl_meta (ap_cluster a2) = cl_meta (ap_cluster a)" "all_nodes (ap_cluster a2) = all_nodes (ap_cluster a)"
    using run(2) a1 by (auto simp: cell_client_def on_cluster_def on_routing_def all_nodes_def Let_def split: prod.splits)
  have a3: "ap_cluster a3 = snd (call_client W (re_trip rq 0) c (ResetDatabase db) (ap_cluster a2))"
    using snd_call by (simp add: call_cell_def on_cluster_def Let_def case_prod_unfold)
  have reset: "reset_database (cl_meta (ap_cluster a3)) (ac_tenant_id auth) db
      = (Inr ?r, (cl_meta (ap_cluster a3))\<lparr>databases := AList.update (ac_tenant_id auth, db) ?r (databases (cl_meta (ap_cluster a3)))\<rparr>)"
    using assms(1) a2(1) a3 by (simp add: reset_database_def update_record_def call_client_meta)
  have out: "ans = Cell ?r" "cl_meta (ap_cluster a') = (cl_meta (ap_cluster a3))\<lparr>databases := AList.update (ac_tenant_id auth, db) ?r (databases (cl_meta (ap_cluster a3)))\<rparr>"
      "all_nodes (ap_cluster a') = all_nodes (ap_cluster a3)"
    using meta by (auto simp: try_then_Inr_iff done_with_def into_meta_def on_cluster_def on_meta_def reset all_nodes_def)
  have "in_step db (db_generation r) (ap_cluster a3)"
    unfolding a3 using call_reset_in_step assms(2) a2(2) by (metis in_step_def)
  then have "db_generation ?r \<noteq> current_generation n db" if "n \<in> set (all_nodes (ap_cluster a'))" for n
    using that out(3) wrap_next_differs by (auto simp: in_step_def list_all_iff)
  then have "\<exists>e. call_write (wo_libs W) io db (db_generation ?r) w n = (Inl (Forbidden e), n)" if "n \<in> set (all_nodes (ap_cluster a'))" for n io w
    using call_stale [of "db_generation ?r" n db "wo_libs W" io w] that by blast
  then show ?thesis
    using out(1,2) by (intro exI [of _ ?r]) (simp del: call_write.simps)
qed

theorem reset_locks_out_writers_witness:
  "\<exists>r' a' n. api_reset_database two_world sample_request (tenant_auth (TenantId 1)) (DatabaseId 1) two_app = (Inr (Cell r'), a')
    \<and> db_generation r' = 1 \<and> n \<in> set (all_nodes (ap_cluster a'))
    \<and> (\<exists>e. call_write exact_libs (calm 9) (DatabaseId 1) (db_generation r') (CallDel ''k'') n = (Inl (Forbidden e), n))"
proof -
  let ?run = "api_reset_database two_world sample_request (tenant_auth (TenantId 1)) (DatabaseId 1) two_app"
  let ?r = "new_record 1 (TenantId 1) (DatabaseId 1) (Some (NodeId 1)) ''main''\<lparr>db_replica_node_id := Some (NodeId 2)\<rparr>"
  have run: "is_ok (fst ?run)" "all_nodes (ap_cluster (snd ?run)) \<noteq> []" "in_step (DatabaseId 1) 0 (ap_cluster two_app)"
    by code_simp+
  obtain ans a' where ok: "?run = (Inr ans, a')"
    using run(1) by (cases ?run; cases "fst ?run") auto
  have r: "db_generation ?r = 0" "wrap_i64 1 = 1" "wo_libs two_world = exact_libs"
    by (simp_all add: new_record_def i64_defs two_world_def)
  have meta: "get_database (cl_meta (ap_cluster two_app)) (ac_tenant_id (tenant_auth (TenantId 1))) (DatabaseId 1) = Inr ?r"
    using replicated_record by (simp only: two_app_def two_cluster_def tenant_auth_def app.select_convs cluster.select_convs auth_context.select_convs)
  obtain r' where "ans = Cell r'" "db_generation r' = wrap_i64 (db_generation ?r + 1)"
      "\<forall>n \<in> set (all_nodes (ap_cluster a')). \<forall>io w. \<exists>e. call_write (wo_libs two_world) io (DatabaseId 1) (db_generation r') w n = (Inl (Forbidden e), n)"
    using reset_locks_out_writers [OF meta _ ok] run(3) r(1) by auto
  moreover have "hd (all_nodes (ap_cluster a')) \<in> set (all_nodes (ap_cluster a'))"
    using run(2) ok by simp
  ultimately show ?thesis
    using ok r by (intro exI [of _ r'] exI [of _ a'] exI [of _ "hd (all_nodes (ap_cluster a'))"]) (auto simp del: call_write.simps)
qed

end
