(* ===== verification/Api_Control.thy ===== *)
theory Api_Control
  imports Api_Handlers Pricing_Manager
begin

text \<open>
  The routes around the cells: credits, API keys and prices of a tenant (\<open>api-server/src/handlers/credits.rs\<close>,
  \<open>keys.rs\<close>), the node agents (\<open>internal.rs\<close>), readiness (\<open>health.rs\<close>) and administration (\<open>admin.rs\<close>), with the
  migration of a cell to another node.  \<open>sha256\<close> and the text of identifiers are parameters.
\<close>

section \<open>Credits\<close>

record balance_reply =
  br_available :: str
  br_reserved :: str
  br_updated_at :: int

definition credits_balance :: "nat \<Rightarrow> auth_context \<Rightarrow> (('c, 'u, 'o) app, balance_reply) op" where
  "credits_balance clock auth = into_meta (\<lambda>s.
    let (account, s) = get_credit_account clock s (ac_tenant_id auth)
    in (Inr \<lparr>br_available = show_int (ca_balance_units account), br_reserved = show_int (ca_reserved_units account),
         br_updated_at = ca_updated_at account\<rparr>, s))"

record txn_page =
  tp_items :: "credit_transaction list"
  tp_next_cursor :: "uuid option"

definition txn_limit :: "int option \<Rightarrow> int" where
  "txn_limit limit = max 1 (min 1000 (case limit of Some n \<Rightarrow> n | None \<Rightarrow> 100))"

definition txn_page_of :: "inner \<Rightarrow> tenant_id \<Rightarrow> int option \<Rightarrow> uuid option \<Rightarrow> txn_page" where
  "txn_page_of s t limit cursor =
    (let n = txn_limit limit;
         found = list_credit_transactions s t (n + 1) cursor;
         has_more = int (length found) > n;
         items = take (nat n) found
     in \<lparr>tp_items = items, tp_next_cursor = (if has_more \<and> items \<noteq> [] then Some (ct_id (last items)) else None)\<rparr>)"

definition credits_transactions :: "auth_context \<Rightarrow> int option \<Rightarrow> uuid option \<Rightarrow> (('c, 'u, 'o) app, txn_page) op" where
  "credits_transactions auth limit cursor = from_meta (\<lambda>s. Inr (txn_page_of s (ac_tenant_id auth) limit cursor))"

record redeem_reply =
  rr_credits_added :: str
  rr_balance :: str
  rr_already_redeemed :: bool

text \<open>\<open>now\<close> is the reading of the handler, \<open>clock\<close> those of the store, \<open>tid\<close> the drawn identifier.\<close>

definition credits_redeem ::
  "(str \<Rightarrow> nat list) \<Rightarrow> int \<Rightarrow> nat \<times> nat \<Rightarrow> uuid \<Rightarrow> auth_context \<Rightarrow> str \<Rightarrow> (('c, 'u, 'o) app, redeem_reply) op" where
  "credits_redeem sha256 now clock tid auth code =
    (let h = hash_voucher_code sha256 (trim code);
         balance = (\<lambda>at added already. into_meta (\<lambda>s. let (account, s) = get_credit_account at s (ac_tenant_id auth)
           in (Inr \<lparr>rr_credits_added = show_int added, rr_balance = show_int (ca_balance_units account), rr_already_redeemed = already\<rparr>, s)))
     in try_then (from_meta (\<lambda>s. Inr (find_transaction_by_reference s (''voucher:'' @ h)))) (\<lambda>found. case found of
          Some txn \<Rightarrow> balance (fst clock) (ct_amount_units txn) True
        | None \<Rightarrow>
            try_then (into_meta (\<lambda>s. redeem_voucher (fst clock) tid s h (ac_tenant_id auth) now)) (\<lambda>amount.
              balance (snd clock) amount False)))"

definition get_pricing :: "pricing_config \<Rightarrow> int \<times> int \<times> (str \<times> int \<times> int) list" where
  "get_pricing cfg = (pc_version cfg, pc_effective_at cfg, map (\<lambda>(m, u). (metric_as_str m, u)) (pc_rules cfg))"

section \<open>API keys\<close>

text \<open>\<open>u1\<close>, \<open>u2\<close> and \<open>kid\<close> are the identifiers drawn for the key and its record.\<close>

definition api_create_api_key ::
  "(str \<Rightarrow> nat list) \<Rightarrow> (uuid \<Rightarrow> str) \<Rightarrow> uuid \<Rightarrow> uuid \<Rightarrow> uuid \<Rightarrow> nat \<Rightarrow> auth_context \<Rightarrow> str option
    \<Rightarrow> (('c, 'u, 'o) app, str \<times> api_key_record) op" where
  "api_create_api_key sha256 simple u1 u2 kid clock auth name =
    (let plain = generate simple u1 u2;
         name = (case name of Some n \<Rightarrow> if trim n \<noteq> [] then n else ''default'' | None \<Rightarrow> ''default'')
     in into_meta (\<lambda>s. let (r, s) = create_api_key clock kid s (ac_tenant_id auth) (hash sha256 plain) name in (Inr (plain, r), s)))"

definition api_list_api_keys :: "auth_context \<Rightarrow> (('c, 'u, 'o) app, api_key_record list) op" where
  "api_list_api_keys auth = from_meta (\<lambda>s. Inr (list_api_keys s (ac_tenant_id auth)))"

definition api_revoke_api_key :: "nat \<Rightarrow> auth_context \<Rightarrow> uuid \<Rightarrow> (('c, 'u, 'o) app, unit) op" where
  "api_revoke_api_key clock auth kid = into_meta (\<lambda>s. revoke_api_key clock s (ac_tenant_id auth) kid)"

section \<open>Node agents and readiness\<close>

definition on_nodes :: "(inner \<times> registry \<Rightarrow> 'a \<times> inner \<times> registry) \<Rightarrow> ('c, 'u, 'o) app \<Rightarrow> 'a \<times> ('c, 'u, 'o) app" where
  "on_nodes f a = (let (r, s, g) = f (cl_meta (ap_cluster a), cl_registry (ap_cluster a))
    in (r, a\<lparr>ap_cluster := (ap_cluster a)\<lparr>cl_meta := s, cl_registry := g\<rparr>\<rparr>))"

definition internal_register ::
  "int \<Rightarrow> nat \<Rightarrow> node_id option \<Rightarrow> node_id \<Rightarrow> str \<Rightarrow> nat \<Rightarrow> ('c, 'u, 'o) app \<Rightarrow> node_id \<times> ('c, 'u, 'o) app" where
  "internal_register now unix given fresh addr capacity = on_nodes (register_with_id now unix given fresh addr capacity)"

text \<open>The status of the response: 204, or 404 for an unknown node.\<close>

definition internal_heartbeat :: "int \<Rightarrow> nat \<Rightarrow> node_id \<Rightarrow> nat \<Rightarrow> ('c, 'u, 'o) app \<Rightarrow> nat \<times> ('c, 'u, 'o) app" where
  "internal_heartbeat now unix node conns a = (let (known, a) = on_nodes (heartbeat now unix node conns) a in (if known then 204 else 404, a))"

definition internal_unregister :: "node_id \<Rightarrow> ('c, 'u, 'o) app \<Rightarrow> nat \<times> ('c, 'u, 'o) app" where
  "internal_unregister node a = (let (known, a) = on_nodes (unregister node) a in (if known then 204 else 404, a))"

definition internal_list :: "int \<Rightarrow> nat \<Rightarrow> ('c, 'u, 'o) app \<Rightarrow> node_info list \<times> ('c, 'u, 'o) app" where
  "internal_list now unix = on_nodes (\<lambda>(s, g). let (infos, g) = list_nodes now unix s g in (infos, s, g))"

definition internal_replicas :: "node_id \<Rightarrow> (('c, 'u, 'o) app, database_id list) op" where
  "internal_replicas node = from_meta (\<lambda>s. Inr (map db_id (list_replicas_of s node)))"

text \<open>\<open>ping\<close> is the outcome of reaching the database of the metadata.\<close>

definition ready :: "bool \<Rightarrow> int \<Rightarrow> nat \<Rightarrow> ('c, 'u, 'o) app \<Rightarrow> (nat \<times> str) \<times> ('c, 'u, 'o) app" where
  "ready ping now unix a =
    (if \<not> ping then ((503, ''not_ready''), a)
     else if shared (cl_registry (ap_cluster a)) then
       let (hs, a) = on_nodes (\<lambda>(s, g). let (hs, g) = healthy_nodes now unix s g in (hs, s, g)) a
       in (if hs = [] then (200, ''degraded'') else (200, ''ok''), a)
     else ((200, ''ok''), a))"

section \<open>Administration\<close>

definition admin_grant_credits ::
  "(uuid \<Rightarrow> str) \<Rightarrow> uuid \<times> uuid \<Rightarrow> int \<Rightarrow> nat \<times> nat \<Rightarrow> tenant_id \<Rightarrow> int \<Rightarrow> str option \<Rightarrow> (('c, 'u, 'o) app, str \<times> uuid) op" where
  "admin_grant_credits sh drawn now clock tenant units reason =
    try_then (refuse_if (units \<le> 0) (InvalidRequest ''amount_units must be > 0'')) (\<lambda>_.
    try_then (into_meta (\<lambda>s. append_credit_transaction (fst clock) (snd clock) s
      \<lparr>ct_id = fst drawn, ct_tenant_id = tenant, ct_txn_type = Grant, ct_amount_units = units, ct_pricing_version = None,
       ct_reference_id = Some (''grant:'' @ sh (tenant_uuid tenant) @ '':'' @ sh (snd drawn)),
       ct_description = Some (case reason of Some r \<Rightarrow> r | None \<Rightarrow> ''admin grant''), ct_created_at = now, ct_balance_after = None\<rparr>)) (\<lambda>entry.
      done_with (show_int (case ct_balance_after entry of Some b \<Rightarrow> b | None \<Rightarrow> 0), ct_id entry)))"

text \<open>\<open>draws\<close> are the random draws and clock readings of the store, one for each voucher.\<close>

definition admin_generate_vouchers ::
  "(str \<Rightarrow> nat list) \<Rightarrow> (nat \<Rightarrow> (nat \<Rightarrow> nat) \<times> uuid \<times> nat) \<Rightarrow> int \<Rightarrow> nat \<Rightarrow> str option \<Rightarrow> int option \<Rightarrow> (('c, 'u, 'o) app, (str \<times> int) list) op" where
  "admin_generate_vouchers sha256 draws units count campaign expires =
    try_then (refuse_if (units \<le> 0 \<or> count = 0 \<or> count > 1000) (InvalidRequest ''amount_units > 0 and 1 <= count <= 1000'')) (\<lambda>_.
    try_then (into_meta (\<lambda>s. let (vs, s) = create_vouchers sha256 s units campaign expires (map draws [0..<count]) in (Inr vs, s))) (\<lambda>vs.
      done_with (map (\<lambda>(code, v). (code, cv_amount_units v)) vs)))"

definition admin_list_vouchers :: "int option \<Rightarrow> (('c, 'u, 'o) app, credit_voucher list) op" where
  "admin_list_vouchers limit = from_meta (\<lambda>s. Inr (list_vouchers s (txn_limit limit)))"

record pricing_rule_in =
  pi_metric :: str
  pi_unit_size :: int
  pi_price_units :: int

fun rules_in :: "pricing_rule_in list \<Rightarrow> pricing_rule list result" where
  "rules_in [] = Inr []"
| "rules_in (r # rs) = (case metric_parse (pi_metric r) of
      None \<Rightarrow> Inl (InvalidRequest (''unknown metric: '' @ pi_metric r))
    | Some m \<Rightarrow>
        if pi_unit_size r \<le> 0 \<or> pi_price_units r \<le> 0 then Inl (InvalidRequest ''unit_size and price_units must be > 0'')
        else (case rules_in rs of
            Inl e \<Rightarrow> Inl e
          | Inr out \<Rightarrow> Inr (\<lparr>pr_pricing_version = 0, pr_metric = m, pr_unit_size = pi_unit_size r, pr_price_units = pi_price_units r\<rparr> # out)))"

definition admin_create_pricing_version :: "nat \<Rightarrow> pricing_rule_in list \<Rightarrow> (('c, 'u, 'o) app, int \<times> str) op" where
  "admin_create_pricing_version clock rules =
    try_then (refuse_if (rules = []) (InvalidRequest ''at least one rule required'')) (\<lambda>_.
    try_then (from_meta (\<lambda>_. rules_in rules)) (\<lambda>rs.
    try_then (into_meta (\<lambda>s. let (v, s) = create_pricing_version clock s rs in (Inr v, s))) (\<lambda>v.
      done_with (pv_version v, ''active''))))"

definition admin_list_pricing_versions :: "(('c, 'u, 'o) app, pricing_version list) op" where
  "admin_list_pricing_versions = from_meta (\<lambda>s. Inr (list_pricing_versions s))"

definition DEFAULT_NEW_USER_GRANT_UNITS :: int where
  "DEFAULT_NEW_USER_GRANT_UNITS = 1000 * CREDIT_UNITS_PER_CREDIT"

definition signup_grant :: "(uuid \<Rightarrow> str) \<Rightarrow> uuid \<Rightarrow> int \<Rightarrow> tenant_id \<Rightarrow> int \<Rightarrow> credit_transaction" where
  "signup_grant sh tid now tenant units =
    \<lparr>ct_id = tid, ct_tenant_id = tenant, ct_txn_type = Grant, ct_amount_units = units, ct_pricing_version = None,
     ct_reference_id = Some (''signup_grant:'' @ sh (tenant_uuid tenant)), ct_description = Some ''new user signup grant'',
     ct_created_at = now, ct_balance_after = None\<rparr>"

text \<open>\<open>tenant\<close>, \<open>u1\<close>, \<open>u2\<close>, \<open>kid\<close> and \<open>tid\<close> are drawn; \<open>clock\<close> gives the readings of the store in order.\<close>

definition admin_create_tenant ::
  "(str \<Rightarrow> nat list) \<Rightarrow> (uuid \<Rightarrow> str) \<Rightarrow> (uuid \<Rightarrow> str) \<Rightarrow> tenant_id \<Rightarrow> uuid \<Rightarrow> uuid \<Rightarrow> uuid \<Rightarrow> uuid \<Rightarrow> int \<Rightarrow> (nat \<Rightarrow> nat)
    \<Rightarrow> (('c, 'u, 'o) app, tenant_id \<times> str \<times> uuid) op" where
  "admin_create_tenant sha256 sh simple tenant u1 u2 kid tid now clock =
    (let key = generate simple u1 u2 in
     try_then (into_meta (\<lambda>s. (Inr (), snd (create_tenant (clock 0) s tenant)))) (\<lambda>_.
     try_then (into_meta (\<lambda>s. let (r, s) = create_api_key (clock 1) kid s tenant (hash sha256 key) ''console-user'' in (Inr r, s))) (\<lambda>r.
     try_then (from_meta (\<lambda>s. Inr (case get_config s ''new_user_grant_units'' of
         Some v \<Rightarrow> (case parse_i64 (trim v) of Some n \<Rightarrow> n | None \<Rightarrow> DEFAULT_NEW_USER_GRANT_UNITS)
       | None \<Rightarrow> DEFAULT_NEW_USER_GRANT_UNITS))) (\<lambda>units.
     try_then (if units > 0 then ignoring (into_meta (\<lambda>s. append_credit_transaction (clock 2) (clock 3) s (signup_grant sh tid now tenant units)))
       else done_with ()) (\<lambda>_.
       done_with (tenant, key, ak_id r))))))"

section \<open>Waitlist\<close>

definition is_valid_email :: "str \<Rightarrow> bool" where
  "is_valid_email email \<longleftrightarrow> (case split_on (CHR 0x40) email of
      [user, domain] \<Rightarrow> user \<noteq> [] \<and> CHR ''.'' \<in> set domain \<and> 3 \<le> length domain
    | _ \<Rightarrow> False)"

text \<open>\<open>lower\<close> is Unicode lower-casing.\<close>

definition waitlist_join :: "(str \<Rightarrow> str) \<Rightarrow> nat \<Rightarrow> str \<Rightarrow> (('c, 'u, 'o) app, int) op" where
  "waitlist_join lower clock email =
    (let email = lower (trim email); now = wrap_i64 (int clock) in
     try_then (refuse_if (\<not> is_valid_email email) (InvalidRequest ''invalid email address'')) (\<lambda>_.
     try_then (into_meta (\<lambda>s. (Inr (), create_waitlist_entry s email now))) (\<lambda>_. done_with now)))"

definition waitlist_admin_list :: "int option \<Rightarrow> (('c, 'u, 'o) app, waitlist_entry list) op" where
  "waitlist_admin_list limit = from_meta (\<lambda>s. Inr (list_waitlist s (case limit of Some n \<Rightarrow> n | None \<Rightarrow> 100)))"

section \<open>Migration\<close>

text \<open>What a migration meets: the clocks of its lookups and the two calls.\<close>

record 'b migrate_env =
  me_target :: "int \<times> nat"
  me_route :: "nat \<Rightarrow> int \<times> nat"
  me_backup :: "'b trip"
  me_again :: "int \<times> nat"
  me_restore :: "'b trip"

record migrate_reply =
  mr_cell_id :: database_id
  mr_from_node :: "node_id option"
  mr_to_node :: node_id
  mr_generation :: int

definition backup_key :: "'n answer result \<Rightarrow> str option" where
  "backup_key r = (case r of Inr (ABackup info) \<Rightarrow> Some (bi_key info) | _ \<Rightarrow> None)"

text \<open>The backup of the cell through its route; a failure gives no version.\<close>

definition migrate_source ::
  "('c, 'u, 'f, 'n, 'o, 'b) world \<Rightarrow> 'b migrate_env \<Rightarrow> database_id \<Rightarrow> (('c, 'u, 'o) cluster, str option) op" where
  "migrate_source W me db k =
    (let (r, k) = try_then (\<lambda>k. on_routing (client_for (lb_show (wo_libs W)) (\<lambda>i. here k (me_route me i)) db) k)
                   (\<lambda>c. call_client W (me_backup me) c (BackupCell db)) k
     in (Inr (backup_key r), k))"

definition admin_migrate_cell ::
  "('c, 'u, 'f, 'n, 'o, 'b) world \<Rightarrow> 'b migrate_env \<Rightarrow> database_id \<Rightarrow> node_id \<Rightarrow> (('c, 'u, 'o) cluster, migrate_reply) op" where
  "admin_migrate_cell W me db to_node = (\<lambda>k. case get_database_by_id (cl_meta k) db of
      Inl e \<Rightarrow> (Inl e, k)
    | Inr r \<Rightarrow>
        try_then (refuse_if (Some to_node = db_storage_node_id r) (InvalidRequest ''to_node_id is already the storage node'')) (\<lambda>_.
        try_then (node_client W (me_target me) to_node) (\<lambda>_.
        try_then (on_meta (\<lambda>s. migrate_database s (db_tenant_id r) db to_node)) (\<lambda>frozen.
        try_then (migrate_source W me db) (\<lambda>version.
        try_then (node_client W (me_again me) to_node) (\<lambda>c.
        try_then (call_client W (me_restore me) c (RestoreCell db version)) (\<lambda>_.
        try_then (\<lambda>k. (Inr (), k\<lparr>cl_routing := invalidate_route db (cl_routing k)\<rparr>)) (\<lambda>_.
          done_with \<lparr>mr_cell_id = db, mr_from_node = db_storage_node_id r, mr_to_node = to_node, mr_generation = db_generation frozen\<rparr>))))))) k)"

lemma by_id_record:
  assumes "dir_inv s"
  shows "get_database_by_id s i = Inr r \<longleftrightarrow> map_of (databases s) (db_tenant_id r, i) = Some r"
proof -
  have "db_tenant_id r = t" if "map_of (databases s) (t, i) = Some r" for t
    using assms map_of_SomeD [OF that] by (fastforce simp: dir_inv_def list_all_iff)
  then show ?thesis
    using get_by_id_Inr [OF assms] by metis
qed

lemma migrate_run:
  assumes "dir_inv s" "get_database_by_id s db = Inr r"
    "p = r\<lparr>db_storage_node_id := Some node, db_generation := wrap_i64 (db_generation r + 1)\<rparr>"
  shows "\<exists>s'. migrate_database s (db_tenant_id r) db node = (Inr p, s') \<and> get_database_by_id s' db = Inr p
    \<and> get_database s' (db_tenant_id r) db = Inr p \<and> list_data_nodes s' = list_data_nodes s"
proof -
  have m: "map_of (databases s) (db_tenant_id r, db) = Some r"
    using by_id_record [OF assms(1)] assms(2) by blast
  define s' where "s' = s\<lparr>databases := AList.update (db_tenant_id r, db) p (databases s)\<rparr>"
  have run: "migrate_database s (db_tenant_id r) db node = (Inr p, s')"
    using m by (simp add: migrate_database_def update_record_def assms(3) s'_def)
  have "dir_inv s'"
    using dir_exec_inv [OF assms(1), of uuid_dec "OpMigrate (db_tenant_id r) db node"] run by simp
  moreover have "map_of (databases s') (db_tenant_id p, db) = Some p"
    by (simp add: s'_def assms(3))
  ultimately show ?thesis
    using run by_id_record [of s' db p] by (simp add: s'_def list_data_nodes_def assms(3))
qed

lemma client_uncached:
  assumes "map_of (rt_routes rt) db = None" "get_database_by_id (mo_store (t 2)) db = Inr r" "db_storage_node_id r = Some node"
    "node_addr (mo_now (t 3)) (mo_unix (t 3)) (mo_store (t 3)) node g = (Some addr, g)"
  shows "\<exists>rt'. client_for sh t db (g, rt) = (Inr (RemoteClient (trim_slashes addr) (Some db)), g, rt')
    \<and> rt_clients rt' = AList.update node (RemoteClient (trim_slashes addr) (Some db)) (rt_clients rt) \<and> rt_control_token rt' = rt_control_token rt"
  using assms by (simp add: client_for_def from_authority_def addr_at_def make_client_def with_hooks_def note_route_def Let_def)

text \<open>
  C32: Migrating a cell loses its data. The handler switches the storage node in the metadata first and
  then asks the route of the cell for the source of the backup.  Unless the old route is still
  cached, that is the target: the target is backed up and restored from its own backup, and the
  migration reports success.  The target then holds what it held before, and no other node has been
  contacted; the content of the source is never read.
\<close>

theorem migrate_loses_data:
  assumes "connected W k" "dir_inv (cl_meta k)" "get_database_by_id (cl_meta k) db = Inr r" "db_storage_node_id r \<noteq> Some node"
    "map_of (rt_routes (cl_routing k)) db = None" "map_of (rt_clients (cl_routing k)) node = None" "base = trim_slashes addr"
    "\<And>t. t \<in> {me_target me, me_route me 3, me_again me} \<Longrightarrow> node_addr (fst t) (snd t) (cl_meta k) node (cl_registry k) = (Some addr, cl_registry k)"
    "map_of (cl_nodes k) base = Some n" "tr_net (me_backup me) = Delivered" "tr_net (me_restore me) = Delivered"
    "wo_store W = Some st" "store_obeys st objs" "image_obeys (wo_image W)" "moka_ok (lb_moka (wo_libs W))" "hex_text (lb_show (wo_libs W))"
    "node_backup (wo_libs W) (Some st) (wo_image W) (ce_io (tr_env (me_backup me))) (ce_millis (tr_env (me_backup me))) (ce_drawn (tr_env (me_backup me)))
      (ce_now0 (tr_env (me_backup me))) db (n, cl_objects k) = (Inr info, n1, ob1)"
    "os_get st ob1 (bi_key info) = Inr b" "quiet (ce_io (tr_env (me_restore me)))" "ce_integrity (tr_env (me_restore me)) = ''ok''"
    "format_ok (wo_libs W) n1 db"
  shows "\<exists>reply k' m. admin_migrate_cell W me db node k = (Inr reply, k')
    \<and> reply = \<lparr>mr_cell_id = db, mr_from_node = db_storage_node_id r, mr_to_node = node, mr_generation = wrap_i64 (db_generation r + 1)\<rparr>
    \<and> map_of (cl_nodes k') base = Some m \<and> cell_content (lb_empty (wo_libs W)) m db = cell_content (lb_empty (wo_libs W)) n db
    \<and> (\<forall>other. other \<noteq> base \<longrightarrow> map_of (cl_nodes k') other = map_of (cl_nodes k) other)"
proof -
  let ?L = "wo_libs W" and ?p = "r\<lparr>db_storage_node_id := Some node, db_generation := wrap_i64 (db_generation r + 1)\<rparr>"
  let ?c = "RemoteClient base None"
  define k1 where "k1 = k\<lparr>cl_routing := (cl_routing k)\<lparr>rt_clients := AList.update node ?c (rt_clients (cl_routing k))\<rparr>\<rparr>"
  have step1: "node_client W (me_target me) node k = (Inr ?c, k1)"
    using assms(6,8) by (simp add: node_client_def on_routing_def client_for_node_def addr_at_def here_def with_hooks_def assms(7) k1_def Let_def)
  obtain s' where s': "migrate_database (cl_meta k) (db_tenant_id r) db node = (Inr ?p, s')" "get_database_by_id s' db = Inr ?p"
      "list_data_nodes s' = list_data_nodes (cl_meta k)"
    using migrate_run [OF assms(2,3) refl, of node] by blast
  define k2 where "k2 = k1\<lparr>cl_meta := s'\<rparr>"
  have step2: "on_meta (\<lambda>s. migrate_database s (db_tenant_id r) db node) k1 = (Inr ?p, k2)"
    using s'(1) by (simp add: on_meta_def k1_def k2_def)
  have addr: "node_addr (fst t) (snd t) s' node (cl_registry k) = (Some addr, cl_registry k)"
    if "t \<in> {me_target me, me_route me 3, me_again me}" for t
    using assms(8) [OF that] node_addr_store [OF s'(3)] by simp
  let ?d = "RemoteClient base (Some db)"
  obtain rt where rt: "client_for (lb_show ?L) (\<lambda>i. here k2 (me_route me i)) db (cl_registry k2, cl_routing k2) = (Inr ?d, cl_registry k2, rt)"
      "rt_clients rt = AList.update node ?d (rt_clients (cl_routing k2))" "rt_control_token rt = rt_control_token (cl_routing k2)"
    using client_uncached [of "cl_routing k2" db "\<lambda>i. here k2 (me_route me i)" ?p node "cl_registry k2" addr "lb_show ?L"] assms(5,7) s'(2) addr
    by (auto simp: k1_def k2_def here_def)
  define k3 where "k3 = k2\<lparr>cl_routing := rt\<rparr>"
  have c3: "connected W k3" "map_of (cl_nodes k3) base = Some n"
    using assms(1,9) rt(3) by (simp_all add: connected_def k1_def k2_def k3_def)
  define k4 where "k4 = k3\<lparr>cl_nodes := AList.update base n1 (cl_nodes k3), cl_objects := ob1\<rparr>"
  have "local_client ?L (wo_store W) (wo_image W) (tr_env (me_backup me)) (BackupCell db) (n, cl_objects k3) = (Inr (ABackup info), n1, ob1)"
    using assms(12,17) by (simp add: answered_def try_then_def done_with_def k1_def k2_def k3_def)
  from call_arrives [OF c3(1) assms(10) c3(2) this]
  have "call_client W (me_backup me) ?d (BackupCell db) k3 = (Inr (ABackup info), k4)"
    by (simp add: rpc_transport_def k4_def)
  then have step3: "migrate_source W me db k2 = (Inr (Some (bi_key info)), k4)"
    using rt(1) by (simp add: migrate_source_def try_then_def on_routing_def backup_key_def k1_def k2_def k3_def)
  have step4: "node_client W (me_again me) node k4 = (Inr ?d, k4)"
    using addr rt(2) by (simp add: node_client_def on_routing_def client_for_node_def addr_at_def here_def Let_def k1_def k2_def k3_def k4_def)
  obtain m where m: "node_restore ?L (Some st) (wo_image W) (ce_io0 (tr_env (me_restore me))) (ce_io (tr_env (me_restore me))) (ce_io1 (tr_env (me_restore me)))
        (ce_wal_left (tr_env (me_restore me))) ''ok'' db (Some (bi_key info)) (n1, ob1) = (Inr (), m, ob1)"
      "cell_content (lb_empty ?L) m db = cell_content (lb_empty ?L) n db"
    using snapshot_restores [OF assms(13-17) refl assms(18,19,21)] by blast
  define k5 where "k5 = k4\<lparr>cl_nodes := AList.update base m (cl_nodes k4), cl_objects := ob1\<rparr>"
  have c4: "connected W k4" "map_of (cl_nodes k4) base = Some n1"
    using c3 by (simp_all add: connected_def k4_def)
  have "local_client ?L (wo_store W) (wo_image W) (tr_env (me_restore me)) (RestoreCell db (Some (bi_key info))) (n1, cl_objects k4) = (Inr AUnit, m, ob1)"
    using m(1) assms(12,20) by (simp add: answered_def try_then_def done_with_def k4_def)
  from call_arrives [OF c4(1) assms(11) c4(2) this]
  have step5: "call_client W (me_restore me) ?d (RestoreCell db (Some (bi_key info))) k4 = (Inr AUnit, k5)"
    by (simp add: rpc_transport_def k5_def)
  let ?k = "k5\<lparr>cl_routing := invalidate_route db (cl_routing k5)\<rparr>"
  have "admin_migrate_cell W me db node k
      = (Inr \<lparr>mr_cell_id = db, mr_from_node = db_storage_node_id r, mr_to_node = node, mr_generation = wrap_i64 (db_generation r + 1)\<rparr>, ?k)"
    using assms(3,4) by (simp add: admin_migrate_cell_def op_defs step1 step2 step3 step4 step5)
  moreover have "map_of (cl_nodes ?k) base = Some m" "other \<noteq> base \<Longrightarrow> map_of (cl_nodes ?k) other = map_of (cl_nodes k) other" for other
    by (simp_all add: k1_def k2_def k3_def k4_def k5_def)
  ultimately show ?thesis
    using m(2) by (intro exI [of _ ?k] exI [of _ m] exI) simp
qed

definition sample_migration :: "'b migrate_env" where
  "sample_migration = \<lparr>me_target = (3, 30), me_route = (\<lambda>_. (3, 30)), me_backup = (trip_at 3 104)\<lparr>tr_env := (at_time 3 104)\<lparr>ce_millis := 7\<rparr>\<rparr>,
    me_again = (4, 40), me_restore = trip_at 4 104\<rparr>"

definition target_backup ::
  "backup_info result \<times> ((cache_key \<times> cached_value) list, nat \<times> nat option) data_node \<times> pair_store" where
  "target_backup = node_backup exact_libs (Some (failing_store ''wal-7.sqlite-wal'')) late_image (calm 3) 7 0 104 (DatabaseId 1) (fresh_node, [])"

lemma target_backup_eval:
  "is_ok (fst target_backup)" "format_ok exact_libs (fst (snd target_backup)) (DatabaseId 1)"
  "live 104 (db_kv (cell_content (0, None) written_node (DatabaseId 1))) ''k'' = Some (''v'', Some 110)"
  "live 104 (db_kv (cell_content (0, None) fresh_node (DatabaseId 1))) ''k'' = None"
  unfolding format_ok_def by code_simp+

theorem migrate_loses_data_witness:
  "\<exists>reply k' m. admin_migrate_cell two_world sample_migration (DatabaseId 1) (NodeId 2) (two_cluster []) = (Inr reply, k')
    \<and> map_of (cl_nodes k') ''http://b'' = Some m \<and> map_of (cl_nodes k') ''http://a'' = Some written_node
    \<and> live 104 (db_kv (cell_content (0, None) written_node (DatabaseId 1))) ''k'' = Some (''v'', Some 110)
    \<and> live 104 (db_kv (cell_content (0, None) m (DatabaseId 1))) ''k'' = None"
proof -
  let ?k = "two_cluster []" and ?st = "failing_store ''wal-7.sqlite-wal'' :: (pair_store, (nat \<times> nat option) cell_db list) object_store"
  let ?r = "new_record 1 (TenantId 1) (DatabaseId 1) (Some (NodeId 1)) ''main''\<lparr>db_replica_node_id := Some (NodeId 2)\<rparr>"
  obtain r n1 ob1 where b: "target_backup = (r, n1, ob1)"
    using prod_cases3 by blast
  then obtain info where info: "r = Inr info"
    using target_backup_eval(1) unfolding b by (cases r) auto
  have run: "node_backup exact_libs (Some ?st) late_image (calm 3) 7 0 104 (DatabaseId 1) (fresh_node, []) = (Inr info, n1, ob1)"
    using b info by (simp add: target_backup_def)
  obtain snap where snap: "os_get ?st ob1 (bi_key info) = Inr snap"
    using node_backup_stores(2) [OF failing_store_obeys exact_hex run] by (simp add: failing_store_def list_store_def)
  have meta: "cl_meta ?k = replicated_cell" "cl_registry ?k = two_nodes" "cl_objects ?k = []" "map_of (cl_nodes ?k) ''http://b'' = Some fresh_node"
      "map_of (cl_nodes ?k) ''http://a'' = Some written_node" "rt_routes (cl_routing ?k) = []" "rt_clients (cl_routing ?k) = []"
    by (simp_all add: two_cluster_def routing_new_def)
  have cell: "dir_inv replicated_cell" "get_database_by_id replicated_cell (DatabaseId 1) = Inr ?r" "''http://b'' = trim_slashes ''http://b''"
    by code_simp+
  have addr: "node_addr 3 30 replicated_cell (NodeId 2) two_nodes = (Some ''http://b'', two_nodes)"
      "node_addr 4 40 replicated_cell (NodeId 2) two_nodes = (Some ''http://b'', two_nodes)"
    by code_simp+
  have libs: "wo_libs two_world = exact_libs" "wo_store two_world = Some ?st" "wo_image two_world = late_image" "lb_empty exact_libs = (0, None)"
    by (simp_all add: two_world_def exact_libs_def)
  have env: "me_target sample_migration = (3, 30)" "me_route sample_migration 3 = (3, 30)" "me_again sample_migration = (4, 40)"
      "tr_net (me_backup sample_migration) = Delivered" "tr_net (me_restore sample_migration) = Delivered"
      "ce_io (tr_env (me_backup sample_migration)) = calm 3" "ce_millis (tr_env (me_backup sample_migration)) = 7" "ce_drawn (tr_env (me_backup sample_migration)) = 0"
      "ce_now0 (tr_env (me_backup sample_migration)) = 104" "ce_io (tr_env (me_restore sample_migration)) = calm 4" "ce_integrity (tr_env (me_restore sample_migration)) = ''ok''"
    by (simp_all add: sample_migration_def trip_at_def at_time_def)
  have at: "node_addr (fst t) (snd t) replicated_cell (NodeId 2) two_nodes = (Some ''http://b'', two_nodes)" if "t \<in> {(3, 30), (3, 30), (4, 40)}" for t
    using that addr by auto
  have fmt: "format_ok exact_libs n1 (DatabaseId 1)"
    using target_backup_eval(2) unfolding b by simp
  have node: "db_storage_node_id ?r \<noteq> Some (NodeId 2)"
    by (simp add: new_record_def)
  obtain reply k' m where "admin_migrate_cell two_world sample_migration (DatabaseId 1) (NodeId 2) ?k = (Inr reply, k')"
      "map_of (cl_nodes k') ''http://b'' = Some m" "cell_content (0, None) m (DatabaseId 1) = cell_content (0, None) fresh_node (DatabaseId 1)"
      "\<forall>other. other \<noteq> ''http://b'' \<longrightarrow> map_of (cl_nodes k') other = map_of (cl_nodes ?k) other"
    using migrate_loses_data [OF two_world_connected, of "[]" "DatabaseId 1" ?r "NodeId 2", where base = "''http://b''" and addr = "''http://b''"
        and me = sample_migration and n = fresh_node and st = ?st and objs = map_of and info = info and ?n1.0 = n1 and ?ob1.0 = ob1 and b = snap,
        unfolded meta libs env, OF cell(1,2) node _ _ cell(3) at _ refl refl refl failing_store_obeys late_obeys exact_moka exact_hex run snap quiet_calm refl fmt]
    by auto
  then show ?thesis
    using target_backup_eval(3,4) meta(5) by (intro exI [of _ reply] exI [of _ k'] exI [of _ m]) simp
qed

section \<open>Paging through the ledger\<close>

text \<open>The items of the pages a client gets that follows the cursors, at most \<open>n\<close> of them.\<close>

fun txn_pages :: "inner \<Rightarrow> tenant_id \<Rightarrow> int option \<Rightarrow> uuid option \<Rightarrow> nat \<Rightarrow> credit_transaction list list" where
  "txn_pages s t limit cursor 0 = []"
| "txn_pages s t limit cursor (Suc n) =
    (let p = txn_page_of s t limit cursor
     in tp_items p # (case tp_next_cursor p of None \<Rightarrow> [] | Some c \<Rightarrow> txn_pages s t limit (Some c) n))"

lemma listed_below: "x \<in> set (list_credit_transactions s t limit (Some c)) \<Longrightarrow> ct_id x < c"
  unfolding list_credit_transactions_def by (drule in_set_takeD) simp

lemma page_below:
  assumes "x \<in> set (tp_items (txn_page_of s t limit (Some c)))"
  shows "ct_id x < c"
  using assms listed_below unfolding txn_page_of_def Let_def by (auto dest!: in_set_takeD)

lemma cursor_on_page: "tp_next_cursor (txn_page_of s t limit cursor) = Some c \<Longrightarrow> \<exists>x \<in> set (tp_items (txn_page_of s t limit cursor)). ct_id x = c"
  unfolding txn_page_of_def Let_def by (auto split: if_splits intro!: last_in_set)

lemma pages_below: "x \<in> set (concat (txn_pages s t limit (Some c) n)) \<Longrightarrow> ct_id x < c"
proof (induction n arbitrary: c)
  case (Suc n)
  let ?p = "txn_page_of s t limit (Some c)"
  show ?case
  proof (cases "x \<in> set (tp_items ?p)")
    case True
    then show ?thesis
      by (rule page_below)
  next
    case False
    then obtain d where d: "tp_next_cursor ?p = Some d" "x \<in> set (concat (txn_pages s t limit (Some d) n))"
      using Suc.prems by (cases "tp_next_cursor ?p") (auto simp: Let_def)
    obtain y where "y \<in> set (tp_items ?p)" "ct_id y = d"
      using cursor_on_page [OF d(1)] by blast
    then show ?thesis
      using page_below Suc.IH [OF d(2)] by fastforce
  qed
qed simp


definition paged_ledger :: inner where
  "paged_ledger = inner_default\<lparr>credit_transactions :=
    [(1, (sample_txn 1 5 None)\<lparr> ct_tenant_id := TenantId 1, ct_created_at := 20\<rparr>), (2, (sample_txn 2 5 None)\<lparr> ct_tenant_id := TenantId 1, ct_created_at := 10\<rparr>)]\<rparr>"


end
