(* ===== verification/Api_Usage.thy ===== *)
theory Api_Usage
  imports Api_Control "HOL-Library.Signed_Division" "HOL-Library.Multiset"
begin

text \<open>
  The usage routes (\<open>api-server/src/handlers/usage.rs\<close>): the summary of a tenant and of a cell, and the
  time series of a metric.  Reading and printing of RFC 3339 times are the parameters \<open>parse_time\<close> and
  \<open>fmt\<close> (the crate \<open>chrono\<close>).
\<close>

section \<open>Ranges and sums\<close>

record usage_query =
  uq_from :: "str option"
  uq_to :: "str option"
  uq_metric :: "str option"
  uq_interval :: "str option"

definition resolve_range :: "(str \<Rightarrow> int option) \<Rightarrow> int \<Rightarrow> usage_query \<Rightarrow> int \<times> int" where
  "resolve_range parse_time now q =
    (let read = (\<lambda>x d. case x of Some s \<Rightarrow> (case parse_time s of Some t \<Rightarrow> t | None \<Rightarrow> d) | None \<Rightarrow> d)
     in (read (uq_from q) (wrap_i64 (now - 86400)), read (uq_to q) now))"

text \<open>The hours of storage are kept as the byte-seconds that the code divides by \<open>BYTE_SECS_PER_GB_HOUR\<close> as floats.\<close>

record usage_summary =
  us_period :: "str \<times> str"
  us_kv_reads :: nat
  us_kv_writes :: nat
  us_sql_reads :: nat
  us_sql_writes :: nat
  us_request_count :: nat
  us_bytes_in :: nat
  us_bytes_out :: nat
  us_current_storage_bytes :: nat
  us_storage_byte_secs :: nat

definition add_u64 :: "nat \<Rightarrow> nat \<Rightarrow> nat" where
  "add_u64 a b = wrap_u64 (int a + int b)"

fun count_bucket :: "usage_bucket \<Rightarrow> usage_summary \<Rightarrow> usage_summary" where
  "count_bucket b u = (case ub_metric b of
      KvRead \<Rightarrow> u\<lparr>us_kv_reads := add_u64 (us_kv_reads u) (ub_value b)\<rparr>
    | KvWrite \<Rightarrow> u\<lparr>us_kv_writes := add_u64 (us_kv_writes u) (ub_value b)\<rparr>
    | SqlRead \<Rightarrow> u\<lparr>us_sql_reads := add_u64 (us_sql_reads u) (ub_value b)\<rparr>
    | SqlWrite \<Rightarrow> u\<lparr>us_sql_writes := add_u64 (us_sql_writes u) (ub_value b)\<rparr>
    | Requests \<Rightarrow> u\<lparr>us_request_count := add_u64 (us_request_count u) (ub_value b)\<rparr>
    | BytesIn \<Rightarrow> u\<lparr>us_bytes_in := add_u64 (us_bytes_in u) (ub_value b)\<rparr>
    | BytesOut \<Rightarrow> u\<lparr>us_bytes_out := add_u64 (us_bytes_out u) (ub_value b)\<rparr>
    | StorageBytes \<Rightarrow> u
    | StorageByteSecs \<Rightarrow> u\<lparr>us_storage_byte_secs := add_u64 (us_storage_byte_secs u) (ub_value b)\<rparr>)"

definition summarize :: "(int \<Rightarrow> str) \<Rightarrow> usage_bucket list \<Rightarrow> int \<Rightarrow> int \<Rightarrow> usage_summary" where
  "summarize fmt buckets from_t to_t = fold count_bucket buckets
    \<lparr>us_period = (fmt from_t, fmt to_t), us_kv_reads = 0, us_kv_writes = 0, us_sql_reads = 0, us_sql_writes = 0, us_request_count = 0,
     us_bytes_in = 0, us_bytes_out = 0, us_current_storage_bytes = 0, us_storage_byte_secs = 0\<rparr>"

section \<open>The handlers\<close>

text \<open>The size of a cell on its node; a failure on the way counts nothing.\<close>

definition cell_bytes ::
  "('c, 'u, 'f, 'n, 'o, 'b) world \<Rightarrow> 'b request_env \<Rightarrow> database_id \<Rightarrow> ('c, 'u, 'o) app \<Rightarrow> nat option \<times> ('c, 'u, 'o) app" where
  "cell_bytes W rq db a = (case try_then (cell_client W rq db) (\<lambda>c. call_cell W rq 0 c (StorageBytesOf db)) a of
      (Inr (ANat n), a) \<Rightarrow> (Some n, a)
    | (_, a) \<Rightarrow> (None, a))"

text \<open>\<open>env\<close> is what the requests to the nodes meet, by the position of the cell.\<close>

fun add_cells ::
  "('c, 'u, 'f, 'n, 'o, 'b) world \<Rightarrow> (nat \<Rightarrow> 'b request_env) \<Rightarrow> (nat \<times> database_record) list \<Rightarrow> nat \<Rightarrow> ('c, 'u, 'o) app \<Rightarrow> nat \<times> ('c, 'u, 'o) app" where
  "add_cells W env [] acc a = (acc, a)"
| "add_cells W env ((i, r) # rs) acc a =
    (let (b, a) = cell_bytes W (env i) (db_id r) a
     in add_cells W env rs (case b of Some n \<Rightarrow> add_u64 acc n | None \<Rightarrow> acc) a)"

definition api_usage_summary ::
  "('c, 'u, 'f, 'n, 'o, 'b) world \<Rightarrow> (str \<Rightarrow> int option) \<Rightarrow> (int \<Rightarrow> str) \<Rightarrow> (nat \<Rightarrow> 'b request_env) \<Rightarrow> int \<Rightarrow> auth_context \<Rightarrow> usage_query
    \<Rightarrow> (('c, 'u, 'o) app, usage_summary) op" where
  "api_usage_summary W parse_time fmt env now auth q = (\<lambda>a.
    let (from_t, to_t) = resolve_range parse_time now q;
        s = cl_meta (ap_cluster a);
        u = summarize fmt (query s (ac_tenant_id auth) None None (bucket_start from_t) (bucket_start to_t)) from_t to_t;
        (total, a) = add_cells W env (List.enumerate 0 (list_databases s (ac_tenant_id auth))) (us_current_storage_bytes u) a
    in (Inr (u\<lparr>us_current_storage_bytes := total\<rparr>), a))"

definition api_cell_usage ::
  "('c, 'u, 'f, 'n, 'o, 'b) world \<Rightarrow> (str \<Rightarrow> int option) \<Rightarrow> (int \<Rightarrow> str) \<Rightarrow> 'b request_env \<Rightarrow> int \<Rightarrow> auth_context \<Rightarrow> database_id \<Rightarrow> usage_query
    \<Rightarrow> (('c, 'u, 'o) app, usage_summary) op" where
  "api_cell_usage W parse_time fmt rq now auth db q =
    try_then (from_meta (\<lambda>s. get_database s (ac_tenant_id auth) db)) (\<lambda>_ a.
      let (from_t, to_t) = resolve_range parse_time now q;
          u = summarize fmt (query (cl_meta (ap_cluster a)) (ac_tenant_id auth) (Some db) None (bucket_start from_t) (bucket_start to_t)) from_t to_t;
          (b, a) = cell_bytes W rq db a
      in (Inr (case b of Some n \<Rightarrow> u\<lparr>us_current_storage_bytes := n\<rparr> | None \<Rightarrow> u), a))"

definition interval_secs :: "str option \<Rightarrow> int result" where
  "interval_secs x = (let i = (case x of Some s \<Rightarrow> s | None \<Rightarrow> ''minute'') in
    if i = ''minute'' then Inr 60 else if i = ''hour'' then Inr 3600 else if i = ''day'' then Inr 86400
    else Inl (InvalidRequest (''invalid interval: '' @ i)))"

text \<open>The ordered map of the code: values by the start of their interval, in ascending order.\<close>

definition interval_start :: "int \<Rightarrow> int \<Rightarrow> int" where
  "interval_start secs b = (b sdiv secs) * secs"

definition merge_bucket :: "int \<Rightarrow> usage_bucket \<Rightarrow> (int, nat) hashmap \<Rightarrow> (int, nat) hashmap" where
  "merge_bucket secs b m =
    (let k = interval_start secs (ub_bucket_start b)
     in AList.update k (add_u64 (case map_of m k of Some v \<Rightarrow> v | None \<Rightarrow> 0) (ub_value b)) m)"

definition merge_series :: "int \<Rightarrow> usage_bucket list \<Rightarrow> (int \<times> nat) list" where
  "merge_series secs buckets = sort_key fst (fold (merge_bucket secs) buckets [])"

definition api_usage_timeseries ::
  "(str \<Rightarrow> int option) \<Rightarrow> (int \<Rightarrow> str) \<Rightarrow> int \<Rightarrow> auth_context \<Rightarrow> usage_query \<Rightarrow> (('c, 'u, 'o) app, (str \<times> nat) list) op" where
  "api_usage_timeseries parse_time fmt now auth q = from_meta (\<lambda>s.
    case (case uq_metric q of Some m \<Rightarrow> metric_parse m | None \<Rightarrow> None) of
      None \<Rightarrow> Inl (InvalidRequest ''invalid or missing metric'')
    | Some metric \<Rightarrow>
        let (from_t, to_t) = resolve_range parse_time now q;
            buckets = query s (ac_tenant_id auth) None (Some metric) (bucket_start from_t) (bucket_start to_t)
        in (case interval_secs (uq_interval q) of
            Inl e \<Rightarrow> Inl e
          | Inr secs \<Rightarrow> Inr (map (\<lambda>(t, v). (fmt t, v)) (merge_series secs buckets))))"

section \<open>The routes agree\<close>

lemma add_u64_mod: "add_u64 a b = (a + b) mod 2 ^ 64"
proof -
  have "int a + int b = int (a + b)" "(2 ^ 64 :: int) = int (2 ^ 64)"
    by simp_all
  then show ?thesis
    unfolding add_u64_def wrap_u64_def by (simp only: zmod_int [symmetric] nat_int)
qed

fun figure :: "usage_metric \<Rightarrow> usage_summary \<Rightarrow> nat" where
  "figure KvRead u = us_kv_reads u"
| "figure KvWrite u = us_kv_writes u"
| "figure SqlRead u = us_sql_reads u"
| "figure SqlWrite u = us_sql_writes u"
| "figure Requests u = us_request_count u"
| "figure BytesIn u = us_bytes_in u"
| "figure BytesOut u = us_bytes_out u"
| "figure StorageBytes u = us_current_storage_bytes u"
| "figure StorageByteSecs u = us_storage_byte_secs u"

definition metered_sum :: "usage_metric \<Rightarrow> usage_bucket list \<Rightarrow> nat" where
  "metered_sum m bs = sum_list (map ub_value (filter (\<lambda>b. ub_metric b = m) bs))"

lemma figure_count:
  "m \<noteq> StorageBytes \<Longrightarrow> figure m (count_bucket b u) = (if ub_metric b = m then add_u64 (figure m u) (ub_value b) else figure m u)"
  by (cases m; cases "ub_metric b") simp_all

lemma figure_fold:
  "m \<noteq> StorageBytes \<Longrightarrow> figure m u < 2 ^ 64 \<Longrightarrow> figure m (fold count_bucket bs u) = (figure m u + metered_sum m bs) mod 2 ^ 64"
proof (induction bs arbitrary: u)
  case Nil
  then show ?case by (simp add: metered_sum_def)
next
  case (Cons b bs)
  have "figure m (count_bucket b u) < 2 ^ 64"
    using Cons.prems by (simp add: figure_count add_u64_mod del: count_bucket.simps)
  then show ?case
    using Cons by (simp add: figure_count add_u64_mod metered_sum_def mod_simps ac_simps del: count_bucket.simps)
qed

lemma figure_summarize: "m \<noteq> StorageBytes \<Longrightarrow> figure m (summarize fmt bs f t) = metered_sum m bs mod 2 ^ 64"
  unfolding summarize_def by (subst figure_fold) (cases m; simp)+

lemma figure_storage: "m \<noteq> StorageBytes \<Longrightarrow> figure m (u\<lparr>us_current_storage_bytes := n\<rparr>) = figure m u"
  by (cases m) simp_all

lemma sum_list_update:
  "distinct (map fst m) \<Longrightarrow>
    sum_list (map snd (AList.update k v m)) + (case map_of m k of Some w \<Rightarrow> w | None \<Rightarrow> 0) = sum_list (map snd m) + (v :: nat)"
  by (induction m) (auto split: option.splits dest: map_of_SomeD)

lemma mod_add_cancel:
  fixes x y w n :: nat
  assumes "(x + w) mod n = (y + w) mod n"
  shows "x mod n = y mod n"
proof -
  have "(int x + int w) mod int n = (int y + int w) mod int n"
    using arg_cong [OF assms, of int] by (simp add: zmod_int)
  then have "int x mod int n = int y mod int n"
    by (simp add: mod_eq_dvd_iff)
  then show ?thesis
    by (metis nat_int zmod_int)
qed

lemma merge_bucket_total:
  assumes "distinct (map fst m)"
  shows "distinct (map fst (merge_bucket secs b m))"
    and "sum_list (map snd (merge_bucket secs b m)) mod 2 ^ 64 = (sum_list (map snd m) + ub_value b) mod 2 ^ 64"
proof -
  let ?k = "interval_start secs (ub_bucket_start b)"
  let ?w = "case map_of m ?k of Some v \<Rightarrow> v | None \<Rightarrow> 0"
  show "distinct (map fst (merge_bucket secs b m))"
    using assms by (simp add: merge_bucket_def Let_def distinct_update)
  have e: "sum_list (map snd (merge_bucket secs b m)) + ?w = sum_list (map snd m) + (?w + ub_value b) mod 2 ^ 64"
    using sum_list_update [OF assms, of ?k "add_u64 ?w (ub_value b)"] by (simp add: merge_bucket_def Let_def add_u64_mod)
  show "sum_list (map snd (merge_bucket secs b m)) mod 2 ^ 64 = (sum_list (map snd m) + ub_value b) mod 2 ^ 64"
    by (rule mod_add_cancel [of _ ?w]) (simp add: e mod_simps ac_simps)
qed

lemma merge_fold_total:
  "distinct (map fst m) \<Longrightarrow> distinct (map fst (fold (merge_bucket secs) bs m))
    \<and> sum_list (map snd (fold (merge_bucket secs) bs m)) mod 2 ^ 64 = (sum_list (map snd m) + sum_list (map ub_value bs)) mod 2 ^ 64"
proof (induction bs arbitrary: m)
  case (Cons b bs)
  note d = merge_bucket_total(1) [OF Cons.prems, of secs b]
  have "(sum_list (map snd (merge_bucket secs b m)) + sum_list (map ub_value bs)) mod 2 ^ 64
      = ((sum_list (map snd m) + ub_value b) + sum_list (map ub_value bs)) mod 2 ^ 64"
    by (rule mod_add_cong [OF merge_bucket_total(2) [OF Cons.prems] refl])
  then show ?case
    using Cons.IH [OF d] by (simp add: ac_simps)
qed simp

lemma sum_sorted: "sum_list (map f (sort_key g xs)) = (sum_list (map f xs) :: nat)"
  by (metis mset_map mset_sort sum_mset_sum_list)

lemma merge_starts:
  "\<forall>k \<in> set (map fst m). secs dvd k \<Longrightarrow> \<forall>k \<in> set (map fst (fold (merge_bucket secs) bs m)). secs dvd k"
proof (induction bs arbitrary: m)
  case (Cons b bs)
  have "\<forall>k \<in> set (map fst (merge_bucket secs b m)). secs dvd k"
    using Cons.prems by (auto simp: merge_bucket_def Let_def update_keys interval_start_def)
  then show ?case
    using Cons.IH by simp
qed simp

lemma merge_series_total:
  "sorted_wrt (<) (map fst (merge_series secs bs))"
  "\<forall>k \<in> set (map fst (merge_series secs bs)). secs dvd k"
  "sum_list (map snd (merge_series secs bs)) mod 2 ^ 64 = sum_list (map ub_value bs) mod 2 ^ 64"
proof -
  have d: "distinct (map fst (fold (merge_bucket secs) bs []))"
    and t: "sum_list (map snd (fold (merge_bucket secs) bs [])) mod 2 ^ 64 = sum_list (map ub_value bs) mod 2 ^ 64"
    using merge_fold_total [of "[]" secs bs] by simp_all
  have "distinct (map fst (merge_series secs bs))"
    using d by (metis merge_series_def distinct_map distinct_sort set_sort)
  then show "sorted_wrt (<) (map fst (merge_series secs bs))"
    by (simp add: merge_series_def strict_sorted_iff)
  show "\<forall>k \<in> set (map fst (merge_series secs bs)). secs dvd k"
    using merge_starts [of "[]" secs bs] by (simp add: merge_series_def)
  show "sum_list (map snd (merge_series secs bs)) mod 2 ^ 64 = sum_list (map ub_value bs) mod 2 ^ 64"
    using t by (simp add: merge_series_def sum_sorted)
qed

lemma query_metric_total:
  "metered_sum m (query s t c None f u) = sum_list (map ub_value (query s t c (Some m) f u))"
proof -
  have "filter (\<lambda>b. ub_metric b = m) (map (\<lambda>(k, v). bucket_of k v) (filter (\<lambda>(k, v). usage_match t c None f u k) xs))
      = map (\<lambda>(k, v). bucket_of k v) (filter (\<lambda>(k, v). usage_match t c (Some m) f u k) xs)" for xs
    by (induction xs) (auto simp: usage_match_def bucket_of_def)
  then show ?thesis
    by (simp add: metered_sum_def query_def query_usage_def filter_sort sum_sorted)
qed


definition daily_query :: usage_query where
  "daily_query = \<lparr>uq_from = None, uq_to = None, uq_metric = Some ''kv_read'', uq_interval = Some ''day''\<rparr>"


end
