(* ===== verification/Api_Routes.thy ===== *)
theory Api_Routes
  imports Api_Control
begin

text \<open>
  The routers of the API server (\<open>api-server/src/app.rs\<close>): which routes there are, in which of the four groups each one stands, and the
  middleware a request passes on its way to the handler, from the outside in.  Finding the route of a path is the router's (\<open>axum\<close>): a request
  comes with the group of the route it was matched to.  The handler is the argument \<open>handler\<close>.
\<close>

section \<open>The routes\<close>

datatype route_group = Health | Public | Admin | Internal_Api

text \<open>Method and pattern of every route.\<close>

definition health_routes :: "(str \<times> str) list" where
  "health_routes =
    [(''GET'', ''/health''), (''GET'', ''/ready''), (''GET'', ''/metrics'')]"

definition public_routes :: "(str \<times> str) list" where
  "public_routes =
    [(''GET'', ''/v1/databases''), (''POST'', ''/v1/databases''), (''PUT'', ''/v1/databases/by-name/{name}''),
     (''GET'', ''/v1/databases/by-name/{name}''), (''DELETE'', ''/v1/databases/by-name/{name}''),
     (''GET'', ''/v1/databases/{id}''), (''DELETE'', ''/v1/databases/{id}''),
     (''PATCH'', ''/v1/databases/{id}''), (''POST'', ''/v1/databases/{id}/reset''),
     (''POST'', ''/v1/databases/{id}/sql''), (''POST'', ''/v1/databases/{id}/backup''),
     (''POST'', ''/v1/databases/{id}/backup/incr''), (''POST'', ''/v1/databases/{id}/restore''),
     (''POST'', ''/v1/databases/{id}/transaction''), (''GET'', ''/v1/databases/{id}/kv/{key}''),
     (''PUT'', ''/v1/databases/{id}/kv/{key}''), (''DELETE'', ''/v1/databases/{id}/kv/{key}''),
     (''GET'', ''/v1/databases/{id}/kv''), (''POST'', ''/v1/databases/{id}/kv/ops/exists''),
     (''POST'', ''/v1/databases/{id}/kv/ops/mget''), (''POST'', ''/v1/databases/{id}/kv/ops/mset''),
     (''POST'', ''/v1/databases/{id}/kv/ops/ttl''), (''POST'', ''/v1/databases/{id}/kv/ops/expire''),
     (''POST'', ''/v1/databases/{id}/kv/ops/incr''), (''POST'', ''/v1/api-keys''), (''GET'', ''/v1/api-keys''),
     (''DELETE'', ''/v1/api-keys/{id}''), (''GET'', ''/v1/usage/summary''),
     (''GET'', ''/v1/usage/timeseries''), (''POST'', ''/v1/waitlist''), (''GET'', ''/v1/cells/{id}/usage''),
     (''GET'', ''/v1/credits/balance''), (''GET'', ''/v1/credits/transactions''),
     (''POST'', ''/v1/credits/redeem''), (''GET'', ''/v1/pricing''), (''GET'', ''/openapi.json''),
     (''POST'', ''/v1/databases/{id}/failover''), (''GET'', ''/v1/databases/{id}/replication''),
     (''POST'', ''/v1/databases/{id}/replication''), (''DELETE'', ''/v1/databases/{id}/replication'')]"

definition admin_routes :: "(str \<times> str) list" where
  "admin_routes =
    [(''POST'', ''/admin/tenants/{tenant}/credits/grant''), (''POST'', ''/admin/vouchers/generate''),
     (''POST'', ''/admin/tenants''), (''GET'', ''/admin/vouchers''), (''GET'', ''/admin/waitlist''),
     (''POST'', ''/admin/cells/{id}/migrate''), (''POST'', ''/admin/pricing/versions''),
     (''GET'', ''/admin/pricing/versions'')]"

definition internal_routes :: "(str \<times> str) list" where
  "internal_routes =
    [(''POST'', ''/internal/nodes/register''), (''POST'', ''/internal/nodes/heartbeat''),
     (''POST'', ''/internal/nodes/unregister''), (''GET'', ''/internal/nodes''),
     (''GET'', ''/internal/nodes/{node}/replicas'')]"

definition build_app :: "(route_group \<times> str \<times> str) list" where
  "build_app = map (Pair Public) public_routes @ map (Pair Admin) admin_routes @ map (Pair Internal_Api) internal_routes
    @ map (Pair Health) health_routes"

section \<open>The chain\<close>

text \<open>What the middleware reads of the state of the server, and the clock readings of a request.\<close>

record gate_config =
  gc_auth :: auth_mode
  gc_control_plane_token :: "str option"
  gc_admin_token :: "str option"
  gc_bff_service_key :: "str option"
  gc_min_credit_balance_units :: int

record gate_clock =
  gk_account :: nat
  gk_counted :: int
  gk_in :: int
  gk_out :: int
  gk_refused :: int

text \<open>\<open>dg_sha256\<close> is the digest of keys, \<open>dg_parse\<close> and \<open>dg_show\<close> read and print identifiers.\<close>

record gate_libs =
  dg_sha256 :: "str \<Rightarrow> nat list"
  dg_parse :: "str \<Rightarrow> uuid option"
  dg_show :: "uuid \<Rightarrow> str"

datatype 'r gate_reply = Denied nat str str | Handled 'r

type_synonym ('c, 'u, 'o, 'r) route_handler = "auth_context option \<Rightarrow> ('c, 'u, 'o) app \<Rightarrow> ('r \<times> frame list) \<times> ('c, 'u, 'o) app"

definition with_meta :: "inner \<Rightarrow> ('c, 'u, 'o) app \<Rightarrow> ('c, 'u, 'o) app" where
  "with_meta s a = a\<lparr>ap_cluster := (ap_cluster a)\<lparr>cl_meta := s\<rparr>\<rparr>"

abbreviation meta_of :: "('c, 'u, 'o) app \<Rightarrow> inner" where
  "meta_of a \<equiv> cl_meta (ap_cluster a)"

text \<open>The body of a refusal for too many requests is a JSON object, sent as one frame.\<close>

definition quota_body :: "frame list" where
  "quota_body = [Data (length ''{\"code\":\"quota_exceeded\",\"error\":\"concurrency limit exceeded\"}''), End]"

definition limited ::
  "gate_libs \<Rightarrow> gate_clock \<Rightarrow> http_request \<Rightarrow> ('c, 'u, 'o, 'r) route_handler \<Rightarrow> auth_context
    \<Rightarrow> ('c, 'u, 'o) app \<times> inflight \<Rightarrow> ('r gate_reply \<times> frame list) \<times> ('c, 'u, 'o) app \<times> inflight" where
  "limited L clk req handler auth = (\<lambda>(a, fl).
    let (response, fl, c) = concurrency_quota (dg_show L) (dg_parse L) (ap_quota a) (gk_refused clk) (Some auth) (hq_path req)
          (\<lambda>(fl, c). let ((r, body), a) = handler (Some auth) (a\<lparr>ap_usage := c\<rparr>) in ((r, body, a), fl, ap_usage a)) (fl, ap_usage a)
    in case response of
         Inner (r, body, a) \<Rightarrow> ((Handled r, body), a\<lparr>ap_usage := c\<rparr>, fl)
       | TooManyRequests msg \<Rightarrow> ((Denied 429 ''quota_exceeded'' msg, quota_body), a\<lparr>ap_usage := c\<rparr>, fl)
       | PaymentRequired msg \<Rightarrow> ((Denied 402 ''insufficient_credits'' msg, []), a\<lparr>ap_usage := c\<rparr>, fl))"

definition tracked ::
  "gate_libs \<Rightarrow> gate_clock \<Rightarrow> http_request \<Rightarrow> frame list \<Rightarrow> ('c, 'u, 'o, 'r) route_handler \<Rightarrow> auth_context
    \<Rightarrow> ('c, 'u, 'o) app \<times> inflight \<Rightarrow> 'r gate_reply \<times> ('c, 'u, 'o) app \<times> inflight" where
  "tracked L clk req body handler auth = (\<lambda>(a, fl).
    let ((r, a, fl), c) = usage_tracking (dg_parse L) (gk_counted clk) (gk_in clk) (gk_out clk) (Some auth) (hq_path req) body
          (\<lambda>c. let ((r, sent), a, fl) = limited L clk req handler auth (a\<lparr>ap_usage := c\<rparr>, fl) in (((r, a, fl), sent), ap_usage a)) (ap_usage a)
    in (r, a\<lparr>ap_usage := c\<rparr>, fl))"

definition funded ::
  "gate_libs \<Rightarrow> gate_config \<Rightarrow> gate_clock \<Rightarrow> http_request \<Rightarrow> frame list \<Rightarrow> ('c, 'u, 'o, 'r) route_handler \<Rightarrow> auth_context
    \<Rightarrow> ('c, 'u, 'o) app \<times> inflight \<Rightarrow> 'r gate_reply \<times> ('c, 'u, 'o) app \<times> inflight" where
  "funded L cfg clk req body handler auth = (\<lambda>(a, fl).
    let (response, s) = credit_quota (gk_account clk) (gc_min_credit_balance_units cfg) (Some auth)
          (\<lambda>s. let (r, a, fl) = tracked L clk req body handler auth (with_meta s a, fl) in ((r, a, fl), meta_of a)) (meta_of a)
    in case response of
         Inner (r, a, fl) \<Rightarrow> (r, with_meta s a, fl)
       | PaymentRequired msg \<Rightarrow> (Denied 402 ''insufficient_credits'' msg, with_meta s a, fl)
       | TooManyRequests msg \<Rightarrow> (Denied 429 ''quota_exceeded'' msg, with_meta s a, fl))"

text \<open>The handlers outside the tenants' group read no identity.\<close>

definition unmetered ::
  "'v verdict \<Rightarrow> ('c, 'u, 'o, 'r) route_handler \<Rightarrow> ('c, 'u, 'o) app \<times> inflight \<Rightarrow> 'r gate_reply \<times> ('c, 'u, 'o) app \<times> inflight" where
  "unmetered verdict handler = (\<lambda>(a, fl). case verdict of
      Refuse n c msg \<Rightarrow> (Denied n c msg, a, fl)
    | Pass _ \<Rightarrow> let ((r, _), a) = handler None a in (Handled r, a, fl))"

fun serve_route ::
  "gate_libs \<Rightarrow> gate_config \<Rightarrow> gate_clock \<Rightarrow> route_group \<Rightarrow> http_request \<Rightarrow> frame list \<Rightarrow> ('c, 'u, 'o, 'r) route_handler
    \<Rightarrow> ('c, 'u, 'o) app \<times> inflight \<Rightarrow> 'r gate_reply \<times> ('c, 'u, 'o) app \<times> inflight" where
  "serve_route L cfg clk Public req body handler (a, fl) =
    (case auth_middleware (dg_sha256 L) (dg_parse L) (gc_auth cfg) (gc_bff_service_key cfg) (meta_of a) req of
       Refuse n c msg \<Rightarrow> (Denied n c msg, a, fl)
     | Pass auth \<Rightarrow> funded L cfg clk req body handler auth (a, fl))"
| "serve_route L cfg clk Admin req body handler st = unmetered (admin_auth (gc_bff_service_key cfg) (gc_admin_token cfg) req) handler st"
| "serve_route L cfg clk Internal_Api req body handler st = unmetered (internal_auth (gc_control_plane_token cfg) req) handler st"
| "serve_route L cfg clk Health req body handler st = unmetered (Pass ()) handler st"

section \<open>What a request passes\<close>

lemma with_meta_simps [simp]:
  "with_meta (meta_of a) a = a" "meta_of (with_meta s a) = s" "ap_usage (with_meta s a) = ap_usage a"
  "with_meta s (with_meta s' a) = with_meta s a" "with_meta s (a\<lparr>ap_usage := c\<rparr>) = (with_meta s a)\<lparr>ap_usage := c\<rparr>"
  by (simp_all add: with_meta_def)

text \<open>
  A chain of middleware around a handler either answers without it, whatever the handler is, or runs it once in
  the state \<open>a\<close>, up to the counters of usage, and hands on what it answers and leaves.
\<close>

definition refuses ::
  "(('c, 'u, 'o, 'r) route_handler \<Rightarrow> 'r gate_reply \<times> ('c, 'u, 'o) app \<times> inflight) \<Rightarrow> nat \<Rightarrow> ('c, 'u, 'o) app \<Rightarrow> bool" where
  "refuses chain n a \<longleftrightarrow> (\<exists>c msg. \<forall>h. chain h = (Denied n c msg, a, []))"

definition runs ::
  "(('c, 'u, 'o, 'r) route_handler \<Rightarrow> 'r gate_reply \<times> ('c, 'u, 'o) app \<times> inflight) \<Rightarrow> auth_context option \<Rightarrow> ('c, 'u, 'o) app \<Rightarrow> bool" where
  "runs chain who a \<longleftrightarrow> (\<exists>u. \<forall>h. \<exists>u'. chain h =
    (Handled (fst (fst (h who (a\<lparr>ap_usage := u\<rparr>)))), (snd (h who (a\<lparr>ap_usage := u\<rparr>)))\<lparr>ap_usage := u'\<rparr>, []))"

lemma limited_handles: "limited L clk req h auth (a, []) = (let ((r, body), a') = h (Some auth) a in ((Handled r, body), a', []))"
  by (simp add: limited_def guards_dropped Let_def split: prod.split)

lemma tracked_runs: "runs (\<lambda>h. tracked L clk req body h auth (a, [])) (Some auth) a"
proof -
  let ?skip = "ac_internal auth \<or> list_ex (starts_with (hq_path req)) USAGE_SELF_PATHS"
  let ?u = "if ?skip then ap_usage a
    else record_usage (gk_counted clk) (ac_tenant_id auth) (parse_cell_from_path (dg_parse L) (hq_path req)) Requests 1 (ap_usage a)"
  let ?a = "a\<lparr>ap_usage := ?u\<rparr>"
  have "\<exists>u'. tracked L clk req body h auth (a, []) = (Handled (fst (fst (h (Some auth) ?a))), (snd (h (Some auth) ?a))\<lparr>ap_usage := u'\<rparr>, [])" for h
    by (cases ?skip; cases "h (Some auth) ?a") (auto simp: tracked_def usage_tracking_def limited_handles Let_def)
  then show ?thesis
    unfolding runs_def by blast
qed

text \<open>The state after the look at the balance, which opens the account of a tenant that has none.\<close>

definition balance_read :: "gate_clock \<Rightarrow> auth_context \<Rightarrow> ('c, 'u, 'o) app \<Rightarrow> ('c, 'u, 'o) app" where
  "balance_read clk auth a =
    (if ac_internal auth then a else with_meta (snd (get_credit_account (gk_account clk) (meta_of a) (ac_tenant_id auth))) a)"

definition solvent :: "gate_config \<Rightarrow> gate_clock \<Rightarrow> auth_context \<Rightarrow> ('c, 'u, 'o) app \<Rightarrow> bool" where
  "solvent cfg clk auth a \<longleftrightarrow> ac_internal auth
    \<or> gc_min_credit_balance_units cfg \<le> ca_balance_units (fst (get_credit_account (gk_account clk) (meta_of a) (ac_tenant_id auth)))"

lemma funded_insolvent:
  "\<not> solvent cfg clk auth a \<Longrightarrow> funded L cfg clk req body h auth (a, fl) =
    (Denied 402 ''insufficient_credits'' ''credit balance below minimum; top up to continue'', balance_read clk auth a, fl)"
  by (auto simp: solvent_def funded_def credit_quota_def balance_read_def split: prod.splits)

lemma funded_solvent:
  "solvent cfg clk auth a \<Longrightarrow> funded L cfg clk req body h auth (a, fl) = tracked L clk req body h auth (balance_read clk auth a, fl)"
  by (auto simp: solvent_def funded_def credit_quota_def balance_read_def Let_def split: prod.splits)

lemma unmetered_runs: "runs (\<lambda>h. unmetered (Pass v) h (a, [])) None a"
proof -
  let ?a = "a\<lparr>ap_usage := ap_usage a\<rparr>"
  have "\<exists>u'. unmetered (Pass v) h (a, []) = (Handled (fst (fst (h None ?a))), (snd (h None ?a))\<lparr>ap_usage := u'\<rparr>, [])" for h
    by (cases "h None a") (auto simp: unmetered_def intro: exI [of _ "ap_usage (snd (h None a))"])
  then show ?thesis
    unfolding runs_def by blast
qed

lemma unmetered_refuses: "refuses (\<lambda>h. unmetered (Refuse n c msg) h (a, [])) n a"
  by (auto simp: refuses_def unmetered_def)

definition in_group :: "route_group \<Rightarrow> str \<Rightarrow> bool" where
  "in_group g p = (case g of
      Health \<Rightarrow> p \<in> {''/health'', ''/ready'', ''/metrics''}
    | Public \<Rightarrow> starts_with p ''/v1/'' \<or> p = ''/openapi.json''
    | Admin \<Rightarrow> starts_with p ''/admin/''
    | Internal_Api \<Rightarrow> starts_with p ''/internal/'')"

lemma routes_grouped: "(g, m, p) \<in> set build_app \<Longrightarrow> in_group g p"
proof -
  have "list_all (\<lambda>(g, m, p). in_group g p) build_app"
    by code_simp
  then show "(g, m, p) \<in> set build_app \<Longrightarrow> in_group g p"
    by (auto simp: list_all_iff)
qed

text \<open>
  C21: Every route is behind the check of its group. The three probes are the only routes without one; an admin route runs its handler
  exactly if the admin check passes, a route for the nodes exactly if theirs does, and everything else, \<open>/v1\<close> and the API description,
  needs the identity of a tenant and a balance that is not below the minimum, or the platform's own identity. A refused request
  leaves the server as it was, but for an account opened by the look at the balance; otherwise the handler
  runs once, with the identity the check found, and its answer and the state it leaves are handed on.
\<close>

theorem every_route_gated:
  fixes a :: "('c, 'u, 'o) app"
  assumes "(g, m, p) \<in> set build_app"
  shows "in_group g p \<and> (let chain = \<lambda>h :: ('c, 'u, 'o, 'r) route_handler. serve_route L cfg clk g req body h (a, []) in case g of
      Health \<Rightarrow> runs chain None a
    | Admin \<Rightarrow> (case admin_auth (gc_bff_service_key cfg) (gc_admin_token cfg) req of
        Pass _ \<Rightarrow> runs chain None a | Refuse n _ _ \<Rightarrow> refuses chain n a)
    | Internal_Api \<Rightarrow> (case internal_auth (gc_control_plane_token cfg) req of
        Pass _ \<Rightarrow> runs chain None a | Refuse n _ _ \<Rightarrow> refuses chain n a)
    | Public \<Rightarrow> (case auth_middleware (dg_sha256 L) (dg_parse L) (gc_auth cfg) (gc_bff_service_key cfg) (meta_of a) req of
        Refuse n _ _ \<Rightarrow> refuses chain n a
      | Pass auth \<Rightarrow> if solvent cfg clk auth a then runs chain (Some auth) (balance_read clk auth a)
                     else refuses chain 402 (balance_read clk auth a)))"
proof -
  have group: "in_group g p"
    using assms by (rule routes_grouped)
  show ?thesis
  proof (cases g)
    case Public
    show ?thesis
      using group by (cases "auth_middleware (dg_sha256 L) (dg_parse L) (gc_auth cfg) (gc_bff_service_key cfg) (meta_of a) req")
        (simp_all add: Public Let_def funded_solvent funded_insolvent tracked_runs refuses_def)
  qed (use group in \<open>auto simp: unmetered_runs unmetered_refuses split: verdict.split\<close>)
qed

definition sample_libs :: gate_libs where
  "sample_libs = \<lparr>dg_sha256 = map of_char, dg_parse = \<lambda>_. None, dg_show = \<lambda>_. ''''\<rparr>"

definition sample_gates :: gate_config where
  "sample_gates = \<lparr>gc_auth = Key, gc_control_plane_token = None, gc_admin_token = Some ''root'', gc_bff_service_key = Some ''bff'',
    gc_min_credit_balance_units = - 5\<rparr>"

definition sample_clock :: gate_clock where
  "sample_clock = \<lparr>gk_account = 50, gk_counted = 50, gk_in = 50, gk_out = 50, gk_refused = 50\<rparr>"

text \<open>Joining the waitlist without a key is refused where keys are required.\<close>

theorem every_route_gated_witness:
  "(Public, ''POST'', ''/v1/waitlist'') \<in> set build_app \<and> (let req = \<lparr>hq_method = ''POST'', hq_path = ''/v1/waitlist'', hq_headers = []\<rparr> in
    refuses (\<lambda>h :: (_, _, _, unit) route_handler. serve_route sample_libs sample_gates sample_clock Public req [End] h (two_app, [])) 401 two_app)"
proof -
  let ?req = "\<lparr>hq_method = ''POST'', hq_path = ''/v1/waitlist'', hq_headers = []\<rparr>"
  have route: "(Public, ''POST'', ''/v1/waitlist'') \<in> set build_app"
    by code_simp
  have "auth_middleware (dg_sha256 sample_libs) (dg_parse sample_libs) (gc_auth sample_gates) (gc_bff_service_key sample_gates) (meta_of two_app) ?req = unauthorized ''unauthorized''"
    by (simp add: auth_middleware_def sample_gates_def header_str_def)
  then show ?thesis
    using route every_route_gated [OF route, where 'r = unit, of sample_libs sample_gates sample_clock ?req "[End]" two_app] by (simp add: Let_def)
qed

section \<open>A tenant below the minimum\<close>

text \<open>Requests on the tenants' routes one after the other, each with its clock, body and handler.\<close>

fun serve_all ::
  "gate_libs \<Rightarrow> gate_config \<Rightarrow> (gate_clock \<times> http_request \<times> frame list \<times> ('c, 'u, 'o, 'r) route_handler) list
    \<Rightarrow> ('c, 'u, 'o) app \<times> inflight \<Rightarrow> 'r gate_reply list \<times> ('c, 'u, 'o) app \<times> inflight" where
  "serve_all L cfg [] st = ([], st)"
| "serve_all L cfg ((clk, req, body, h) # rest) st =
    (let (r, st) = serve_route L cfg clk Public req body h st; (rs, st) = serve_all L cfg rest st in (r # rs, st))"

lemma update_same: "map_of m k = Some v \<Longrightarrow> AList.update k v m = m"
  by (induction m) auto

lemma overdrawn_refused:
  assumes "gc_auth cfg = Key" "lookup_api_key_by_hash (meta_of a) (hash (dg_sha256 L) k) = Some r" "gc_bff_service_key cfg \<noteq> Some k"
    and "map_of (credit_accounts (meta_of a)) (ak_tenant_id r) = Some acc" "ca_balance_units acc < gc_min_credit_balance_units cfg"
    and "header_str req ''x-api-key'' = Some k"
  shows "serve_route L cfg clk Public req body h (a, fl) =
    (Denied 402 ''insufficient_credits'' ''credit balance below minimum; top up to continue'', a, fl)"
proof -
  let ?auth = "\<lparr>ac_tenant_id = ak_tenant_id r, ac_internal = False\<rparr>"
  have "get_credit_account (gk_account clk) (meta_of a) (ak_tenant_id r) = (acc, meta_of a)"
    using assms(4) by (simp add: get_credit_account_def account_entry_def update_same)
  then have "\<not> solvent cfg clk ?auth a" "balance_read clk ?auth a = a"
    using assms(5) by (simp_all add: solvent_def balance_read_def)
  moreover have "auth_middleware (dg_sha256 L) (dg_parse L) (gc_auth cfg) (gc_bff_service_key cfg) (meta_of a) req = Pass ?auth"
    using assms(1,2,3,6) by (simp add: auth_middleware_def on_behalf_def)
  ultimately show ?thesis
    by (simp add: funded_insolvent)
qed


definition overdrawn_app :: "(unit, unit, unit) app" where
  "overdrawn_app = \<lparr>ap_cluster = \<lparr>cl_meta = inner_default
    \<lparr>api_keys := [(1, \<lparr>ak_id = 1, ak_tenant_id = TenantId 1, ak_name = ''main'', ak_key_hash = hash (dg_sha256 sample_libs) ''key'', ak_created_at = 1, ak_revoked_at = None\<rparr>)],
     credit_accounts := [(TenantId 1, \<lparr>ca_tenant_id = TenantId 1, ca_balance_units = - 7, ca_reserved_units = 0, ca_updated_at = 1\<rparr>)],
     vouchers := [(2, \<lparr>cv_id = 2, cv_code_hash = hash_voucher_code (dg_sha256 sample_libs) ''V'', cv_amount_units = 30, cv_status = VoucherActive, cv_campaign = None,
       cv_created_at = 1, cv_expires_at = None, cv_redeemed_by = None, cv_redeemed_at = None\<rparr>)],
     voucher_by_hash := [(hash_voucher_code (dg_sha256 sample_libs) ''V'', 2)]\<rparr>,
    cl_registry = registry_new 0, cl_routing = routing_new None None, cl_local = None, cl_nodes = [], cl_objects = ()\<rparr>, ap_usage = [], ap_quota = no_quota\<rparr>"

definition redeem_handler :: "('c, 'u, 'o, redeem_reply result) route_handler" where
  "redeem_handler auth a = (let (r, a) = credits_redeem (dg_sha256 sample_libs) 50 (50, 50) 9 (auth_extractor auth) ''V'' a in ((r, [End]), a))"


end
