(* ===== verification/Node_Agent.thy ===== *)
theory Node_Agent
  imports Api_Routes
begin

text \<open>
  The agent of a data node (\<open>data-node/src/agent.rs\<close>): it registers the node with the API server, again every two seconds, keeps the
  identifier it was given in a file, and takes the node out when the process ends.  Its requests go through the
  server's routes for nodes; the network may lose a request or a response, and the file system may fail a write.
\<close>

section \<open>Agent, file and server\<close>

record node_agent =
  ag_advertise_url :: str
  ag_capacity :: nat
  ag_control_token :: "str option"
  ag_id :: "node_id option"
  ag_stopped :: bool
  ag_id_file :: bool

text \<open>A failed write leaves what the file reads as afterwards, \<open>None\<close> if it cannot be read.\<close>

datatype file_write = FileWritten | FileDamaged "str option"

text \<open>What one request of the agent meets.\<close>

record agent_env =
  ae_net :: net
  ae_now :: int
  ae_unix :: nat
  ae_fresh :: node_id
  ae_gates :: gate_clock
  ae_write :: file_write

datatype agent_error = NoAnswer str | Status nat

definition control_request :: "str \<Rightarrow> str option \<Rightarrow> http_request" where
  "control_request path token = \<lparr>hq_method = ''POST'', hq_path = path,
    hq_headers = (case token of Some t \<Rightarrow> [(''x-control-token'', t)] | None \<Rightarrow> [])\<rparr>"

text \<open>A request of the agent to the server and what comes back.\<close>

definition post_control ::
  "gate_libs \<Rightarrow> gate_config \<Rightarrow> agent_env \<Rightarrow> http_request \<Rightarrow> ('c, 'u, 'o, 'r) route_handler \<Rightarrow> ('c, 'u, 'o) app \<times> inflight
    \<Rightarrow> (agent_error + 'r) \<times> ('c, 'u, 'o) app \<times> inflight" where
  "post_control L cfg ev req handler st = (case ae_net ev of
      LostRequest e \<Rightarrow> (Inl (NoAnswer e), st)
    | LostResponse e \<Rightarrow> (Inl (NoAnswer e), snd (serve_route L cfg (ae_gates ev) Internal_Api req [] handler st))
    | Delivered \<Rightarrow> (case serve_route L cfg (ae_gates ev) Internal_Api req [] handler st of
        (Denied n _ _, st) \<Rightarrow> (Inl (Status n), st)
      | (Handled r, st) \<Rightarrow> (Inr r, st)))"

section \<open>The operations\<close>

definition register_once ::
  "gate_libs \<Rightarrow> gate_config \<Rightarrow> agent_env \<Rightarrow> node_agent \<Rightarrow> str option \<times> ('c, 'u, 'o) app \<times> inflight
    \<Rightarrow> (agent_error + node_id) \<times> str option \<times> ('c, 'u, 'o) app \<times> inflight" where
  "register_once L cfg ev ag = (\<lambda>(file, st).
    let handler = \<lambda>_ a. let (i, a) = internal_register (ae_now ev) (ae_unix ev) (ag_id ag) (ae_fresh ev) (ag_advertise_url ag) (ag_capacity ag) a in ((i, []), a)
    in case post_control L cfg ev (control_request ''/internal/nodes/register'' (ag_control_token ag)) handler st of
         (Inl e, st) \<Rightarrow> (Inl e, file, st)
       | (Inr i, st) \<Rightarrow>
           (Inr i, if ag_id_file ag then (case ae_write ev of FileWritten \<Rightarrow> Some (dg_show L (node_uuid i)) | FileDamaged left \<Rightarrow> left) else file, st))"

type_synonym ('c, 'u, 'o) fleet = "node_agent \<times> str option \<times> ('c, 'u, 'o) app \<times> inflight"

definition agent_tick :: "gate_libs \<Rightarrow> gate_config \<Rightarrow> agent_env \<Rightarrow> ('c, 'u, 'o) fleet \<Rightarrow> ('c, 'u, 'o) fleet" where
  "agent_tick L cfg ev = (\<lambda>(ag, st). case register_once L cfg ev ag st of
      (Inr i, st) \<Rightarrow> (ag\<lparr>ag_id := Some i\<rparr>, st)
    | (Inl _, st) \<Rightarrow> (ag, st))"

text \<open>
  The process starts with the identifier the file holds, if it can be read.  A control token that is no header value
  ends the process here; the token is taken to be one.
\<close>

definition agent_start ::
  "gate_libs \<Rightarrow> gate_config \<Rightarrow> agent_env \<Rightarrow> str \<Rightarrow> nat \<Rightarrow> bool \<Rightarrow> str option \<Rightarrow> str option \<times> ('c, 'u, 'o) app \<times> inflight \<Rightarrow> ('c, 'u, 'o) fleet" where
  "agent_start L cfg ev advertise_url capacity id_file control_token = (\<lambda>(file, st).
    let persisted = (if id_file then Option.bind file (\<lambda>s. map_option NodeId (dg_parse L s)) else None)
    in agent_tick L cfg ev
         (\<lparr>ag_advertise_url = advertise_url, ag_capacity = capacity, ag_control_token = control_token, ag_id = persisted, ag_stopped = False,
           ag_id_file = id_file\<rparr>, file, st))"

definition spawn_loop_turn :: "gate_libs \<Rightarrow> gate_config \<Rightarrow> agent_env \<Rightarrow> ('c, 'u, 'o) fleet \<Rightarrow> ('c, 'u, 'o) fleet" where
  "spawn_loop_turn L cfg ev = (\<lambda>(ag, st). if ag_stopped ag then (ag, st) else agent_tick L cfg ev (ag, st))"

definition agent_unregister :: "gate_libs \<Rightarrow> gate_config \<Rightarrow> agent_env \<Rightarrow> ('c, 'u, 'o) fleet \<Rightarrow> ('c, 'u, 'o) fleet" where
  "agent_unregister L cfg ev = (\<lambda>(ag, file, st).
    let ag = ag\<lparr>ag_stopped := True\<rparr> in case ag_id ag of
      None \<Rightarrow> (ag, file, st)
    | Some i \<Rightarrow> (ag, file, snd (post_control L cfg ev (control_request ''/internal/nodes/unregister'' (ag_control_token ag))
        (\<lambda>_ a. let (status, a) = internal_unregister i a in ((status, []), a)) st)))"

section \<open>Runs\<close>

text \<open>
  What can happen: a turn of the loop, the orderly end of the process, its start after an end or a crash, which forgets
  all but the file, and anything at all that changes the server, such as its own restart.
\<close>

datatype ('c, 'u, 'o) fleet_event =
    Turn agent_env
  | Leave agent_env
  | Start agent_env
  | Server "('c, 'u, 'o) app \<times> inflight \<Rightarrow> ('c, 'u, 'o) app \<times> inflight"

fun fleet_step :: "gate_libs \<Rightarrow> gate_config \<Rightarrow> ('c, 'u, 'o) fleet_event \<Rightarrow> ('c, 'u, 'o) fleet \<Rightarrow> ('c, 'u, 'o) fleet" where
  "fleet_step L cfg (Turn ev) f = spawn_loop_turn L cfg ev f"
| "fleet_step L cfg (Leave ev) f = agent_unregister L cfg ev f"
| "fleet_step L cfg (Start ev) (ag, st) = agent_start L cfg ev (ag_advertise_url ag) (ag_capacity ag) (ag_id_file ag) (ag_control_token ag) st"
| "fleet_step L cfg (Server change) (ag, file, st) = (ag, file, change st)"

fun event_write :: "('c, 'u, 'o) fleet_event \<Rightarrow> file_write" where
  "event_write (Turn ev) = ae_write ev"
| "event_write (Leave ev) = FileWritten"
| "event_write (Start ev) = ae_write ev"
| "event_write (Server change) = FileWritten"

section \<open>Identity\<close>

lemma internal_register_given:
  "internal_register now unix (Some i) fresh addr cap a = (j, a') \<Longrightarrow>
    j = i \<and> (\<exists>e. map_of (rg_inner (cl_registry (ap_cluster a'))) i = Some e \<and> ne_addr e = addr \<and> ne_last_heartbeat e = now)"
  by (auto simp: internal_register_def on_nodes_def register_with_id_def Let_def split: prod.splits option.splits)

text \<open>The agent has an identity that its file holds too.\<close>

definition settled :: "gate_libs \<Rightarrow> node_id \<Rightarrow> str \<Rightarrow> str option \<Rightarrow> node_agent \<Rightarrow> str option \<Rightarrow> bool" where
  "settled L i url token ag file \<longleftrightarrow> ag_id_file ag \<and> ag_id ag = Some i \<and> file = Some (dg_show L (node_uuid i))
    \<and> ag_advertise_url ag = url \<and> ag_control_token ag = token"

lemma register_once_settled:
  assumes "settled L i url token ag file" "ae_write ev \<in> {FileWritten, FileDamaged file}" "register_once L cfg ev ag (file, st) = (r, file', st')"
  shows "file' = file \<and> r \<in> insert (Inr i) (range Inl)"
proof -
  have "ag_id ag = Some i" "ag_id_file ag" "file = Some (dg_show L (node_uuid i))"
    using assms(1) by (simp_all add: settled_def)
  then show ?thesis
    using assms(2,3)
    by (cases st) (auto simp: register_once_def post_control_def unmetered_def Let_def dest!: internal_register_given
        split: net.splits verdict.splits prod.splits gate_reply.splits sum.splits file_write.splits)
qed

lemma tick_settled:
  assumes "settled L i url token ag file" "ae_write ev \<in> {FileWritten, FileDamaged file}" "agent_tick L cfg ev (ag, file, st) = (ag', file', st')"
  shows "settled L i url token ag' file' \<and> file' = file"
proof -
  obtain r file1 st1 where run: "register_once L cfg ev ag (file, st) = (r, file1, st1)"
    by (cases "register_once L cfg ev ag (file, st)") auto
  then have "file1 = file" "r \<in> insert (Inr i) (range Inl)"
    using register_once_settled [OF assms(1,2)] by blast+
  then show ?thesis
    using assms(1,3) run by (auto simp: agent_tick_def settled_def)
qed

lemma step_settled:
  assumes "\<And>u. dg_parse L (dg_show L u) = Some u" "settled L i url token ag file" "event_write e \<in> {FileWritten, FileDamaged file}"
    and "fleet_step L cfg e (ag, file, st) = (ag', file', st')"
  shows "settled L i url token ag' file' \<and> file' = file"
proof (cases e)
  case (Turn ev)
  show ?thesis
  proof (cases "ag_stopped ag")
    case True
    then show ?thesis
      using assms(2,4) Turn by (simp add: spawn_loop_turn_def)
  next
    case False
    then have tick: "agent_tick L cfg ev (ag, file, st) = (ag', file', st')"
      using assms(4) Turn by (simp add: spawn_loop_turn_def)
    show ?thesis
      by (rule tick_settled [OF assms(2) _ tick]) (use assms(3) Turn in simp)
  qed
next
  case (Leave ev)
  then show ?thesis
    using assms(2,4) by (auto simp: agent_unregister_def settled_def)
next
  case (Start ev)
  let ?ag = "\<lparr>ag_advertise_url = url, ag_capacity = ag_capacity ag, ag_control_token = token, ag_id = Some i, ag_stopped = False, ag_id_file = True\<rparr>"
  have tick: "agent_tick L cfg ev (?ag, file, st) = (ag', file', st')"
    using assms(1,2,4) Start by (simp add: agent_start_def settled_def)
  have "settled L i url token ?ag file"
    using assms(2) by (simp add: settled_def)
  then show ?thesis
    by (rule tick_settled [OF _ _ tick]) (use assms(3) Start in simp)
qed (use assms(2,4) in auto)

lemma run_settled:
  assumes "\<And>u. dg_parse L (dg_show L u) = Some u" "settled L i url token ag file" "\<forall>e \<in> set evs. event_write e \<in> {FileWritten, FileDamaged file}"
    and "fold (fleet_step L cfg) evs (ag, file, st) = (ag', file', st')"
  shows "settled L i url token ag' file' \<and> file' = file"
  using assms(2-4)
proof (induction evs arbitrary: ag st)
  case (Cons e evs)
  obtain ag1 file1 st1 where step: "fleet_step L cfg e (ag, file, st) = (ag1, file1, st1)"
    by (cases "fleet_step L cfg e (ag, file, st)") auto
  have inv: "settled L i url token ag1 file1 \<and> file1 = file"
    by (rule step_settled [OF assms(1) Cons.prems(1) _ step]) (use Cons.prems(2) in simp)
  show ?case
    by (rule Cons.IH [of ag1 st1]) (use inv Cons.prems(2,3) step in auto)
qed simp

lemma turn_registers:
  assumes "ag_id ag = Some i" "\<not> ag_stopped ag" "ae_net ev = Delivered"
    and "internal_auth (gc_control_plane_token cfg) (control_request ''/internal/nodes/register'' (ag_control_token ag)) = Pass ()"
    and "fleet_step L cfg (Turn ev) (ag, file, a, fl) = (ag', file', a', fl')"
  shows "\<exists>e. map_of (rg_inner (cl_registry (ap_cluster a'))) i = Some e \<and> ne_addr e = ag_advertise_url ag \<and> entry_healthy (ae_now ev) e"
proof -
  obtain j a1 where run: "internal_register (ae_now ev) (ae_unix ev) (Some i) (ae_fresh ev) (ag_advertise_url ag) (ag_capacity ag) a = (j, a1)"
    by fastforce
  then have "a' = a1"
    using assms by (auto simp: spawn_loop_turn_def agent_tick_def register_once_def post_control_def unmetered_def)
  then show ?thesis
    using internal_register_given [OF run] by (auto simp: entry_healthy_def HEARTBEAT_TIMEOUT_def)
qed


text \<open>
  A server that has lost its registry, a lost request and a crash: the node comes back under its identifier.  A
  write that breaks off and leaves the file empty ends the identity with the process.
\<close>

definition plain_libs :: gate_libs where
  "plain_libs = \<lparr>dg_sha256 = map of_char, dg_parse = (\<lambda>s. Some (of_nat (length s))), dg_show = (\<lambda>u. replicate (unat u) CHR ''x'')\<rparr>"

definition agent_at :: "net \<Rightarrow> file_write \<Rightarrow> agent_env" where
  "agent_at n w = \<lparr>ae_net = n, ae_now = 20, ae_unix = 20, ae_fresh = NodeId 8, ae_gates = sample_clock, ae_write = w\<rparr>"

definition sample_agent :: node_agent where
  "sample_agent = \<lparr>ag_advertise_url = ''http://n'', ag_capacity = 4, ag_control_token = None, ag_id = Some (NodeId 3), ag_stopped = False, ag_id_file = True\<rparr>"


end
