(* ===== verification/Pg_Server.thy ===== *)
theory Pg_Server
  imports Metadata_State State_Result
begin

text \<open>
  The tables and statements of \<open>PostgresStore\<close> (\<open>metadata/src/postgres.rs\<close>).  The tables of \<open>SCHEMA\<close> and its
  migrations are lists of typed rows, a statement is a function from the tables to an error or to its
  answer and the tables it leaves, with the keys, unique indexes and the range of \<open>BIGINT\<close> as the statement
  and the schema state them.  What the connection to the server does to a statement (and any refusal by the
  server that the schema does not explain, such as a text it cannot store) is the list \<open>pg_net\<close>, one entry per statement, and \<open>disp\<close> is the
  \<open>Display\<close> text of \<open>sqlx::Error\<close>.  A column of type \<open>UUID\<close> keeps the identifier type that the code binds to it.
  A \<open>SELECT\<close> without \<open>ORDER BY\<close> answers in the order of the table.
\<close>

section \<open>Tables\<close>

record pg_database =
  pd_id :: database_id
  pd_tenant_id :: tenant_id
  pd_state :: str
  pd_created_at :: int
  pd_storage_node_id :: "node_id option"
  pd_replica_node_id :: "node_id option"
  pd_generation :: int
  pd_name :: "str option"

record pg_tenant =
  pgt_id :: tenant_id
  pgt_created_at :: int
  pgt_status :: str

record pg_api_key =
  pk_id :: uuid
  pk_tenant_id :: tenant_id
  pk_name :: str
  pk_key_hash :: str
  pk_created_at :: int
  pk_revoked_at :: "int option"

record pg_data_node =
  pn_id :: node_id
  pn_address :: str
  pn_capacity :: int
  pn_active_conns :: int
  pn_created_at :: int
  pn_last_heartbeat_at :: int

record pg_usage_bucket =
  pu_tenant_id :: tenant_id
  pu_cell_id :: database_id
  pu_metric :: str
  pu_bucket_start :: int
  pu_value :: int

record pg_pricing_version =
  pp_version :: int
  pp_status :: str
  pp_effective_at :: int
  pp_created_at :: int

record pg_pricing_rule =
  pgr_pricing_version :: int
  pgr_metric :: str
  pgr_unit_size :: int
  pgr_price_units :: int

record pg_transaction =
  px_id :: uuid
  px_tenant_id :: tenant_id
  px_txn_type :: str
  px_amount_units :: int
  px_pricing_version :: "int option"
  px_reference_id :: "str option"
  px_description :: "str option"
  px_created_at :: int
  px_balance_after :: "int option"

record pg_voucher =
  pgv_id :: uuid
  pgv_code_hash :: str
  pgv_amount_units :: int
  pgv_status :: str
  pgv_campaign :: "str option"
  pgv_created_at :: int
  pgv_expires_at :: "int option"
  pgv_redeemed_by :: "tenant_id option"
  pgv_redeemed_at :: "int option"

record pg_idempotency_key =
  pi_idem_key :: str
  pi_tenant_id :: tenant_id
  pi_payload :: str
  pi_created_at :: int

text \<open>What becomes of a statement on its way: it is served, it is lost before the server has run it, or the
  connection is cut after the server has run it and before the answer is back.\<close>

datatype passage = Served | Lost str | Cut str

text \<open>A lease is its name, owner and expiry; an account has the columns of \<open>CreditAccount\<close>.\<close>

record pg =
  pg_tenants :: "pg_tenant list"
  pg_api_keys :: "pg_api_key list"
  pg_waitlist :: "waitlist_entry list"
  pg_data_nodes :: "pg_data_node list"
  pg_usage_buckets :: "pg_usage_bucket list"
  pg_pricing_versions :: "pg_pricing_version list"
  pg_pricing_rules :: "pg_pricing_rule list"
  pg_credit_accounts :: "credit_account list"
  pg_credit_transactions :: "pg_transaction list"
  pg_credit_vouchers :: "pg_voucher list"
  pg_idempotency_keys :: "pg_idempotency_key list"
  pg_leader_leases :: "(str \<times> uuid \<times> int) list"
  pg_config :: "(str \<times> str) list"
  pg_databases :: "pg_database list"
  pg_net :: "passage list"

definition pg_empty :: pg where
  "pg_empty = \<lparr>pg_tenants = [], pg_api_keys = [], pg_waitlist = [], pg_data_nodes = [], pg_usage_buckets = [],
    pg_pricing_versions = [], pg_pricing_rules = [], pg_credit_accounts = [], pg_credit_transactions = [], pg_credit_vouchers = [],
    pg_idempotency_keys = [], pg_leader_leases = [], pg_config = [], pg_databases = [], pg_net = []\<rparr>"

section \<open>Statements\<close>

datatype sqlx_error =
    Io str
  | Violation str
  | OutOfRange
  | ColumnNotFound str
  | UnexpectedNull str
  | Decode str

type_synonym 'a statement = "pg \<Rightarrow> sqlx_error + 'a \<times> pg"

definition internal :: "(sqlx_error \<Rightarrow> str) \<Rightarrow> sqlx_error \<Rightarrow> combee_error" where
  "internal disp e = Internal (''postgres error: '' @ disp e)"

definition next_passage :: "pg \<Rightarrow> passage \<times> pg" where
  "next_passage p = (case pg_net p of [] \<Rightarrow> (Served, p) | x # xs \<Rightarrow> (x, p\<lparr>pg_net := xs\<rparr>))"

text \<open>A statement on the pool, which commits by itself, followed by \<open>map_err(...)?\<close>.\<close>

definition run_with :: "(sqlx_error \<Rightarrow> combee_error) \<Rightarrow> 'a statement \<Rightarrow> (pg, 'a) op" where
  "run_with err q p0 = (let (x, p) = next_passage p0 in case x of
      Served \<Rightarrow> (case q p of Inl e \<Rightarrow> (Inl (err e), p) | Inr (a, p') \<Rightarrow> (Inr a, p'))
    | Lost e \<Rightarrow> (Inl (err (Io e)), p)
    | Cut e \<Rightarrow> (Inl (err (Io e)), case q p of Inl _ \<Rightarrow> p | Inr (_, p') \<Rightarrow> p'))"

definition run_sql :: "(sqlx_error \<Rightarrow> str) \<Rightarrow> 'a statement \<Rightarrow> (pg, 'a) op" where
  "run_sql disp = run_with (internal disp)"

definition select :: "(pg \<Rightarrow> 'a) \<Rightarrow> 'a statement" where
  "select f = (\<lambda>p. Inr (f p, p))"

text \<open>The tables as they were, the connection as it is.\<close>

definition rolled_back :: "pg \<Rightarrow> pg \<Rightarrow> pg" where
  "rolled_back p0 p = p0\<lparr>pg_net := pg_net p\<rparr>"

definition commit :: "(sqlx_error \<Rightarrow> str) \<Rightarrow> pg \<Rightarrow> 'a \<Rightarrow> (pg, 'a) op" where
  "commit disp p0 a p1 = (let (x, p) = next_passage p1 in case x of
      Served \<Rightarrow> (Inr a, p)
    | Lost e \<Rightarrow> (Inl (internal disp (Io e)), rolled_back p0 p)
    | Cut e \<Rightarrow> (Inl (internal disp (Io e)), p))"

text \<open>
  \<open>begin\<close>, the statements of the body, \<open>commit\<close>.  A body that returns early with an error drops the
  transaction, which undoes its statements.
\<close>

definition committed :: "(sqlx_error \<Rightarrow> str) \<Rightarrow> (pg, 'a) op \<Rightarrow> (pg, 'a) op" where
  "committed disp body = try_then (run_sql disp (select (\<lambda>_. ()))) (\<lambda>_ p0.
    case body p0 of
      (Inl e, p) \<Rightarrow> (Inl e, rolled_back p0 p)
    | (Inr a, p) \<Rightarrow> commit disp p0 a p)"

text \<open>The same with a body that may ask for \<open>rollback\<close>, itself a statement, by answering \<open>None\<close>.\<close>

definition transaction :: "(sqlx_error \<Rightarrow> str) \<Rightarrow> (pg, 'a option) op \<Rightarrow> (pg, 'a option) op" where
  "transaction disp body = try_then (run_sql disp (select (\<lambda>_. ()))) (\<lambda>_ p0.
    case body p0 of
      (Inl e, p) \<Rightarrow> (Inl e, rolled_back p0 p)
    | (Inr None, p) \<Rightarrow> try_then (run_sql disp (select (\<lambda>_. ()))) (\<lambda>_. done_with None) (rolled_back p0 p)
    | (Inr (Some a), p) \<Rightarrow> commit disp p0 (Some a) p)"

section \<open>Pieces of statements\<close>

definition big_add :: "int \<Rightarrow> int \<Rightarrow> sqlx_error + int" where
  "big_add a b = (if in_i64 (a + b) then Inr (a + b) else Inl OutOfRange)"

text \<open>\<open>UPDATE ... SET ... WHERE ...\<close>: the number of rows and the rows.\<close>

fun update_where :: "('r \<Rightarrow> bool) \<Rightarrow> ('r \<Rightarrow> sqlx_error + 'r) \<Rightarrow> 'r list \<Rightarrow> sqlx_error + nat \<times> 'r list" where
  "update_where w f [] = Inr (0, [])"
| "update_where w f (r # rs) =
    rbind (if w r then f r else Inr r) (\<lambda>r'.
    rbind (update_where w f rs) (\<lambda>(n, rs'). Inr (if w r then Suc n else n, r' # rs')))"

text \<open>\<open>INSERT ... ON CONFLICT (key) DO UPDATE\<close>.\<close>

fun upsert :: "('r \<Rightarrow> bool) \<Rightarrow> ('r \<Rightarrow> sqlx_error + 'r) \<Rightarrow> 'r \<Rightarrow> 'r list \<Rightarrow> sqlx_error + 'r list" where
  "upsert same f new [] = Inr [new]"
| "upsert same f new (r # rs) =
    (if same r then rbind (f r) (\<lambda>r'. Inr (r' # rs)) else rbind (upsert same f new rs) (\<lambda>rs'. Inr (r # rs')))"

text \<open>\<open>DELETE ... WHERE ...\<close>.\<close>

definition delete_where :: "('r \<Rightarrow> bool) \<Rightarrow> 'r list \<Rightarrow> nat \<times> 'r list" where
  "delete_where w rs = (length (filter w rs), filter (\<lambda>r. \<not> w r) rs)"

text \<open>The unique index on \<open>(tenant_id, name)\<close>; rows without a name do not collide.\<close>

definition named :: "pg_database \<Rightarrow> (tenant_id \<times> str) option" where
  "named r = map_option (Pair (pd_tenant_id r)) (pd_name r)"

definition names_unique :: "pg_database list \<Rightarrow> bool" where
  "names_unique rs \<longleftrightarrow> distinct (List.map_filter named rs)"

definition update_databases :: "(pg_database \<Rightarrow> bool) \<Rightarrow> (pg_database \<Rightarrow> sqlx_error + pg_database) \<Rightarrow> nat statement" where
  "update_databases w f = (\<lambda>p. rbind (update_where w f (pg_databases p)) (\<lambda>(n, rs).
    if names_unique rs then Inr (n, p\<lparr>pg_databases := rs\<rparr>) else Inl (Violation ''uq_databases_tenant_name'')))"

section \<open>Rows of an answer\<close>

datatype pg_value = VUuid uuid | VText str | VInt int | VNull

type_synonym pg_row = "(str \<times> pg_value) list"

fun col_uuid :: "pg_value \<Rightarrow> uuid option" where
  "col_uuid (VUuid u) = Some u" | "col_uuid _ = None"

fun col_text :: "pg_value \<Rightarrow> str option" where
  "col_text (VText t) = Some t" | "col_text _ = None"

fun col_int :: "pg_value \<Rightarrow> int option" where
  "col_int (VInt n) = Some n" | "col_int _ = None"

text \<open>\<open>row.try_get\<close> at a type that takes no \<open>NULL\<close>, and at its \<open>Option\<close>.\<close>

definition try_get :: "(pg_value \<Rightarrow> 'a option) \<Rightarrow> pg_row \<Rightarrow> str \<Rightarrow> sqlx_error + 'a" where
  "try_get col row c = (case map_of row c of
      None \<Rightarrow> Inl (ColumnNotFound c)
    | Some VNull \<Rightarrow> Inl (UnexpectedNull c)
    | Some v \<Rightarrow> ok_or (Decode c) (col v))"

definition try_get_opt :: "(pg_value \<Rightarrow> 'a option) \<Rightarrow> pg_row \<Rightarrow> str \<Rightarrow> sqlx_error + 'a option" where
  "try_get_opt col row c = (case map_of row c of
      None \<Rightarrow> Inl (ColumnNotFound c)
    | Some VNull \<Rightarrow> Inr None
    | Some v \<Rightarrow> rbind (ok_or (Decode c) (col v)) (\<lambda>x. Inr (Some x)))"

definition map_err :: "('e \<Rightarrow> 'f) \<Rightarrow> 'e + 'a \<Rightarrow> 'f + 'a" where
  "map_err g x = (case x of Inl e \<Rightarrow> Inl (g e) | Inr a \<Rightarrow> Inr a)"

text \<open>\<open>rows.iter().map(f).collect::<Result<Vec<_>>>()\<close>.\<close>

fun collect_results :: "('r \<Rightarrow> 'a result) \<Rightarrow> 'r list \<Rightarrow> 'a list result" where
  "collect_results f [] = Inr []"
| "collect_results f (r # rs) = rbind (f r) (\<lambda>a. rbind (collect_results f rs) (\<lambda>xs. Inr (a # xs)))"

text \<open>A result computed from what was fetched.\<close>

definition give :: "'a result \<Rightarrow> ('s, 'a) op" where
  "give x = (\<lambda>s. (x, s))"

declare give_def [op_defs]

section \<open>Connecting\<close>

text \<open>The tables exist after the first migration; creating the unique index fails over rows that break it.\<close>

definition migrate_error :: "(sqlx_error \<Rightarrow> str) \<Rightarrow> sqlx_error \<Rightarrow> combee_error" where
  "migrate_error disp e = Internal (''postgres migrate: '' @ disp e)"

definition pg_connect :: "(sqlx_error \<Rightarrow> str) \<Rightarrow> (pg, unit) op" where
  "pg_connect disp =
    try_then (run_with (\<lambda>e. Internal (''postgres connect: '' @ disp e)) (select (\<lambda>_. ()))) (\<lambda>_.
    try_then (for_each (\<lambda>_. run_with (migrate_error disp) (select (\<lambda>_. ())))
      [''SCHEMA'', ''MIGRATE_STORAGE_NODE'', ''MIGRATE_REPLICA_NODE'', ''MIGRATE_GENERATION'', ''MIGRATE_DB_NAME'']) (\<lambda>_.
    run_with (migrate_error disp) (\<lambda>p.
      if names_unique (pg_databases p) then Inr ((), p) else Inl (Violation ''uq_databases_tenant_name''))))"

definition pg_ping :: "(sqlx_error \<Rightarrow> str) \<Rightarrow> (pg, unit) op" where
  "pg_ping disp = run_sql disp (select (\<lambda>_. ()))"

section \<open>Serving connections\<close>

text \<open>With nothing wrong on the way a statement does what it says.\<close>

lemma run_served: "pg_net p = [] \<Longrightarrow> run_sql disp q p = (case q p of Inl e \<Rightarrow> (Inl (internal disp e), p) | Inr (a, p') \<Rightarrow> (Inr a, p'))"
  by (simp add: run_sql_def run_with_def next_passage_def)

lemma run_select: "pg_net p = [] \<Longrightarrow> run_sql disp (select f) p = (Inr (f p), p)"
  by (simp add: run_served select_def)

lemma rbind_eq_Inr: "rbind x f = Inr b \<longleftrightarrow> (\<exists>a. x = Inr a \<and> f a = Inr b)"
  by (cases x) auto

lemma collect_results_all: "(\<And>r. r \<in> set rs \<Longrightarrow> f r = Inr (g r)) \<Longrightarrow> collect_results f rs = Inr (map g rs)"
  by (induction rs) auto

lemma collect_results_map: "collect_results f (map g xs) = collect_results (\<lambda>x. f (g x)) xs"
  by (induction xs) simp_all

lemma collect_results_first: "rs \<noteq> [] \<Longrightarrow> f (hd rs) = Inl e \<Longrightarrow> collect_results f rs = Inl e"
  by (cases rs) auto

section \<open>Tables and connections\<close>

definition same_tables :: "pg \<Rightarrow> pg \<Rightarrow> bool" where
  "same_tables p q \<longleftrightarrow> p\<lparr>pg_net := []\<rparr> = q\<lparr>pg_net := []\<rparr>"

lemma same_tables_net:
  "same_tables (p\<lparr>pg_net := xs\<rparr>) q \<longleftrightarrow> same_tables p q" "same_tables p (q\<lparr>pg_net := xs\<rparr>) \<longleftrightarrow> same_tables p q" "same_tables p p"
  by (simp_all add: same_tables_def)

lemma same_tables_trans: "same_tables p q \<Longrightarrow> same_tables q r \<Longrightarrow> same_tables p r"
  by (simp add: same_tables_def)

lemma same_tables_credits:
  assumes "same_tables p q"
  shows "pg_credit_accounts p = pg_credit_accounts q" "pg_credit_transactions p = pg_credit_transactions q"
proof -
  have "pg_credit_accounts (p\<lparr>pg_net := []\<rparr>) = pg_credit_accounts (q\<lparr>pg_net := []\<rparr>)"
    "pg_credit_transactions (p\<lparr>pg_net := []\<rparr>) = pg_credit_transactions (q\<lparr>pg_net := []\<rparr>)"
    using assms by (simp_all only: same_tables_def)
  then show "pg_credit_accounts p = pg_credit_accounts q" "pg_credit_transactions p = pg_credit_transactions q"
    by simp_all
qed

lemma next_passage_tables: "next_passage p = (x, p') \<Longrightarrow> same_tables p' p"
  by (auto simp: next_passage_def same_tables_net split: list.splits)

lemma run_select_tables: "same_tables (snd (run_sql disp (select f) p)) p"
  by (auto simp: run_sql_def run_with_def select_def dest: next_passage_tables split: prod.splits passage.splits)

text \<open>A statement that answers ran on the tables it found.\<close>

lemma run_sql_Inr:
  assumes "run_sql disp q p = (Inr a, p')"
  shows "\<exists>p1. same_tables p1 p \<and> q p1 = Inr (a, p')"
  using assms next_passage_tables [of p]
  by (auto simp: run_sql_def run_with_def split: prod.splits passage.splits sum.splits)

text \<open>A transaction leaves the tables as they were, or as its body left them on the way to \<open>commit\<close>; an answer tells which.\<close>

lemma transaction_outcome:
  assumes "transaction disp body p0 = (r, p)"
  shows "(same_tables p p0 \<and> (\<forall>a. r \<noteq> Inr (Some a)) \<and> (r = Inr None \<longrightarrow> (\<exists>p1 p2. same_tables p1 p0 \<and> body p1 = (Inr None, p2))))
    \<or> (\<exists>p1 a p2. same_tables p1 p0 \<and> body p1 = (Inr (Some a), p2) \<and> same_tables p p2 \<and> (\<forall>b. r = Inr b \<longrightarrow> b = Some a))"
proof (cases "run_sql disp (select (\<lambda>_. ())) p0")
  case (Pair b p1)
  have s1: "same_tables p1 p0"
    using run_select_tables [of disp "\<lambda>_. ()" p0] Pair by simp
  show ?thesis
  proof (cases b)
    case (Inl e)
    then show ?thesis
      using assms Pair s1 by (auto simp: transaction_def op_defs)
  next
    case (Inr u)
    obtain c p2 where body: "body p1 = (c, p2)"
      by fastforce
    have undone: "same_tables (rolled_back p1 q) p0" for q
      using s1 by (simp add: rolled_back_def same_tables_net)
    have rest: "transaction disp body p0 = (case (c, p2) of
        (Inl e, p) \<Rightarrow> (Inl e, rolled_back p1 p)
      | (Inr None, p) \<Rightarrow> try_then (run_sql disp (select (\<lambda>_. ()))) (\<lambda>_. done_with None) (rolled_back p1 p)
      | (Inr (Some a), p) \<Rightarrow> commit disp p1 (Some a) p)"
      by (simp add: transaction_def try_then_def [of "run_sql disp (select (\<lambda>_. ()))" "\<lambda>_ p0. _ p0"] Pair Inr body)
    consider (err) e where "c = Inl e" | (none) "c = Inr None" | (some) a where "c = Inr (Some a)"
      by (metis sum.exhaust_sel option.exhaust)
    then show ?thesis
    proof cases
      case err
      then show ?thesis
        using assms rest undone by auto
    next
      case none
      then show ?thesis
        using assms rest s1 body run_select_tables [of disp "\<lambda>_. ()" "rolled_back p1 p2"] undone [of p2]
        by (auto simp: op_defs split: prod.splits sum.splits intro: same_tables_trans)
    next
      case some
      obtain x q where x: "next_passage p2 = (x, q)"
        by fastforce
      then show ?thesis
        using some assms rest s1 body next_passage_tables [OF x] undone [of q]
        by (cases x) (auto simp: commit_def)
    qed
  qed
qed

end
