(* ===== verification/Pg_Directory.thy ===== *)
theory Pg_Directory
  imports Pg_Server Cell_Directory
begin

text \<open>
  The cell directory of \<open>PostgresStore\<close> (\<open>metadata/src/postgres.rs\<close>) and its relation to the directory in memory:
  while the server serves, the two stores take the same steps on the same cells and differ in a few answers only.
\<close>

section \<open>Rows to records\<close>

definition database_row :: "str list \<Rightarrow> pg_database \<Rightarrow> pg_row" where
  "database_row cols r = filter (\<lambda>(c, _). c \<in> set cols)
    [(''id'', VUuid (db_uuid (pd_id r))),
     (''tenant_id'', VUuid (tenant_uuid (pd_tenant_id r))),
     (''state'', VText (pd_state r)),
     (''created_at'', VInt (pd_created_at r)),
     (''storage_node_id'', case pd_storage_node_id r of Some n \<Rightarrow> VUuid (node_uuid n) | None \<Rightarrow> VNull),
     (''replica_node_id'', case pd_replica_node_id r of Some n \<Rightarrow> VUuid (node_uuid n) | None \<Rightarrow> VNull),
     (''generation'', VInt (pd_generation r)),
     (''name'', case pd_name r of Some n \<Rightarrow> VText n | None \<Rightarrow> VNull)]"

definition row_to_record :: "(sqlx_error \<Rightarrow> str) \<Rightarrow> (uuid \<Rightarrow> str) \<Rightarrow> pg_row \<Rightarrow> database_record result" where
  "row_to_record disp sh row =
    rbind (map_err (internal disp) (try_get col_uuid row ''id'')) (\<lambda>i.
    rbind (map_err (internal disp) (try_get col_uuid row ''tenant_id'')) (\<lambda>t.
    rbind (map_err (internal disp) (try_get col_text row ''state'')) (\<lambda>st.
    rbind (map_err (internal disp) (try_get col_int row ''created_at'')) (\<lambda>created.
    rbind (map_err (internal disp) (try_get_opt col_uuid row ''storage_node_id'')) (\<lambda>storage.
    rbind (map_err (internal disp) (try_get_opt col_uuid row ''replica_node_id'')) (\<lambda>replica.
    rbind (map_err (internal disp) (try_get col_int row ''generation'')) (\<lambda>generation.
    let name = (case try_get col_text row ''name'' of Inr n \<Rightarrow> n | Inl _ \<Rightarrow> default_cell_name sh (DatabaseId i)) in
    rbind (state_parse st) (\<lambda>st.
    Inr \<lparr>db_id = DatabaseId i, db_name = name, db_tenant_id = TenantId t, db_state = st, db_created_at = wrap_u64 created,
      db_storage_node_id = map_option NodeId storage, db_replica_node_id = map_option NodeId replica, db_generation = generation\<rparr>))))))))"

definition record_cols :: "str list" where
  "record_cols = [''id'', ''tenant_id'', ''state'', ''created_at'', ''storage_node_id'', ''replica_node_id'', ''generation'', ''name'']"

definition pg_record :: "(sqlx_error \<Rightarrow> str) \<Rightarrow> (uuid \<Rightarrow> str) \<Rightarrow> pg_database \<Rightarrow> database_record result" where
  "pg_record disp sh r = row_to_record disp sh (database_row record_cols r)"

section \<open>The methods\<close>

definition owned :: "tenant_id \<Rightarrow> database_id \<Rightarrow> pg_database \<Rightarrow> bool" where
  "owned t i r \<longleftrightarrow> pd_id r = i \<and> pd_tenant_id r = t"

definition fetched :: "(sqlx_error \<Rightarrow> str) \<Rightarrow> (uuid \<Rightarrow> str) \<Rightarrow> combee_error \<Rightarrow> pg_database option \<Rightarrow> (pg, database_record) op" where
  "fetched disp sh none row = (case row of Some r \<Rightarrow> give (pg_record disp sh r) | None \<Rightarrow> raise none)"

definition pg_get_database :: "(sqlx_error \<Rightarrow> str) \<Rightarrow> (uuid \<Rightarrow> str) \<Rightarrow> tenant_id \<Rightarrow> database_id \<Rightarrow> (pg, database_record) op" where
  "pg_get_database disp sh t i =
    try_then (run_sql disp (select (\<lambda>p. List.find (owned t i) (pg_databases p)))) (fetched disp sh (DatabaseNotFound i))"

definition pg_get_database_by_id :: "(sqlx_error \<Rightarrow> str) \<Rightarrow> (uuid \<Rightarrow> str) \<Rightarrow> database_id \<Rightarrow> (pg, database_record) op" where
  "pg_get_database_by_id disp sh i =
    try_then (run_sql disp (select (\<lambda>p. List.find (\<lambda>r. pd_id r = i) (pg_databases p)))) (fetched disp sh (DatabaseNotFound i))"

definition pg_get_database_by_name ::
  "(sqlx_error \<Rightarrow> str) \<Rightarrow> (uuid \<Rightarrow> str) \<Rightarrow> database_id \<Rightarrow> tenant_id \<Rightarrow> str \<Rightarrow> (pg, database_record) op" where
  "pg_get_database_by_name disp sh fresh t n =
    try_then (run_sql disp (select (\<lambda>p. List.find (\<lambda>r. pd_tenant_id r = t \<and> pd_name r = Some n) (pg_databases p))))
      (fetched disp sh (DatabaseNotFound fresh))"

text \<open>\<open>INSERT ... ON CONFLICT (id) DO NOTHING\<close>: only the primary key is excused.\<close>

definition insert_database :: "pg_database \<Rightarrow> nat statement" where
  "insert_database r = (\<lambda>p.
    if \<exists>x \<in> set (pg_databases p). pd_id x = pd_id r then Inr (0, p)
    else if \<not> names_unique (pg_databases p @ [r]) then Inl (Violation ''uq_databases_tenant_name'')
    else Inr (1, p\<lparr>pg_databases := pg_databases p @ [r]\<rparr>))"

definition new_row :: "int \<Rightarrow> tenant_id \<Rightarrow> database_id \<Rightarrow> node_id option \<Rightarrow> str option \<Rightarrow> pg_database" where
  "new_row now t i node n = \<lparr>pd_id = i, pd_tenant_id = t, pd_state = state_as_str Created, pd_created_at = now,
    pd_storage_node_id = node, pd_replica_node_id = None, pd_generation = 0, pd_name = n\<rparr>"

definition pg_create_database ::
  "(sqlx_error \<Rightarrow> str) \<Rightarrow> (uuid \<Rightarrow> str) \<Rightarrow> nat \<Rightarrow> tenant_id \<Rightarrow> database_id \<Rightarrow> node_id option \<Rightarrow> str option \<Rightarrow> (pg, database_record) op" where
  "pg_create_database disp sh now t i node name =
    (let n = (case name of Some n \<Rightarrow> n | None \<Rightarrow> default_cell_name sh i) in
     try_then (run_sql disp (insert_database (new_row (wrap_i64 (int now)) t i node (Some n)))) (\<lambda>inserted.
     if inserted = 0 then raise (DatabaseAlreadyExists i) else pg_get_database disp sh t i))"

text \<open>\<open>fresh\<close> are the identifiers drawn: for the first lookup's error, for the new cell, for the last lookup's error.\<close>

definition pg_ensure_database_by_name ::
  "(sqlx_error \<Rightarrow> str) \<Rightarrow> (uuid \<Rightarrow> str) \<Rightarrow> database_id \<times> database_id \<times> database_id \<Rightarrow> nat \<Rightarrow> tenant_id \<Rightarrow> str \<Rightarrow> node_id option
    \<Rightarrow> (pg, database_record \<times> bool) op" where
  "pg_ensure_database_by_name disp sh fresh now t n node p =
    (let (f1, i, f2) = fresh in
     case pg_get_database_by_name disp sh f1 t n p of
       (Inr r, p) \<Rightarrow> (Inr (r, False), p)
     | (Inl _, p) \<Rightarrow> (case pg_create_database disp sh now t i node (Some n) p of
           (Inr r, p) \<Rightarrow> (Inr (r, True), p)
         | (Inl (DatabaseAlreadyExists _), p) \<Rightarrow> try_then (pg_get_database_by_name disp sh f2 t n) (\<lambda>r. done_with (r, False)) p
         | (Inl e, p) \<Rightarrow> (Inl e, p)))"

text \<open>An update of one cell, \<open>DatabaseNotFound\<close> when no row matches, and the record read back.\<close>

definition update_cell ::
  "(sqlx_error \<Rightarrow> str) \<Rightarrow> (uuid \<Rightarrow> str) \<Rightarrow> tenant_id \<Rightarrow> database_id \<Rightarrow> (pg_database \<Rightarrow> sqlx_error + pg_database) \<Rightarrow> (pg, database_record) op" where
  "update_cell disp sh t i f =
    try_then (run_sql disp (update_databases (owned t i) f)) (\<lambda>updated.
    if updated = 0 then raise (DatabaseNotFound i) else pg_get_database disp sh t i)"

definition next_generation :: "pg_database \<Rightarrow> sqlx_error + pg_database" where
  "next_generation r = rbind (big_add (pd_generation r) 1) (\<lambda>g. Inr (r\<lparr>pd_generation := g\<rparr>))"

definition pg_rename_database ::
  "(sqlx_error \<Rightarrow> str) \<Rightarrow> (uuid \<Rightarrow> str) \<Rightarrow> tenant_id \<Rightarrow> database_id \<Rightarrow> str \<Rightarrow> (pg, database_record) op" where
  "pg_rename_database disp sh t i n = update_cell disp sh t i (\<lambda>r. Inr (r\<lparr>pd_name := Some n\<rparr>))"

definition pg_reset_database :: "(sqlx_error \<Rightarrow> str) \<Rightarrow> (uuid \<Rightarrow> str) \<Rightarrow> tenant_id \<Rightarrow> database_id \<Rightarrow> (pg, database_record) op" where
  "pg_reset_database disp sh t i = update_cell disp sh t i next_generation"

definition pg_list_databases_all :: "(sqlx_error \<Rightarrow> str) \<Rightarrow> (uuid \<Rightarrow> str) \<Rightarrow> (pg, database_record list) op" where
  "pg_list_databases_all disp sh =
    try_then (run_sql disp (select (\<lambda>p. sort_key (\<lambda>r. (pd_created_at r, pd_id r)) (pg_databases p))))
      (\<lambda>rows. give (collect_results (pg_record disp sh) rows))"

definition pg_list_databases :: "(sqlx_error \<Rightarrow> str) \<Rightarrow> (uuid \<Rightarrow> str) \<Rightarrow> tenant_id \<Rightarrow> (pg, database_record list) op" where
  "pg_list_databases disp sh t =
    try_then (run_sql disp (select (\<lambda>p. sort_key (\<lambda>r. (pd_created_at r, pd_id r)) (filter (\<lambda>r. pd_tenant_id r = t) (pg_databases p)))))
      (\<lambda>rows. give (collect_results (pg_record disp sh) rows))"

definition pg_set_database_state :: "(sqlx_error \<Rightarrow> str) \<Rightarrow> tenant_id \<Rightarrow> database_id \<Rightarrow> database_state \<Rightarrow> (pg, unit) op" where
  "pg_set_database_state disp t i st =
    try_then (run_sql disp (update_databases (owned t i) (\<lambda>r. Inr (r\<lparr>pd_state := state_as_str st\<rparr>)))) (\<lambda>_. done_with ())"

definition pg_delete_database :: "(sqlx_error \<Rightarrow> str) \<Rightarrow> tenant_id \<Rightarrow> database_id \<Rightarrow> (pg, unit) op" where
  "pg_delete_database disp t i =
    try_then (run_sql disp (\<lambda>p. let (n, rs) = delete_where (owned t i) (pg_databases p) in Inr (n, p\<lparr>pg_databases := rs\<rparr>)))
      (\<lambda>deleted. if deleted = 0 then raise (DatabaseNotFound i) else done_with ())"

definition pg_set_replica_node ::
  "(sqlx_error \<Rightarrow> str) \<Rightarrow> (uuid \<Rightarrow> str) \<Rightarrow> tenant_id \<Rightarrow> database_id \<Rightarrow> node_id option \<Rightarrow> (pg, database_record) op" where
  "pg_set_replica_node disp sh t i replica = update_cell disp sh t i (\<lambda>r. Inr (r\<lparr>pd_replica_node_id := replica\<rparr>))"

text \<open>One statement: \<open>UPDATE ... RETURNING\<close>.\<close>

definition pg_migrate_database ::
  "(sqlx_error \<Rightarrow> str) \<Rightarrow> (uuid \<Rightarrow> str) \<Rightarrow> tenant_id \<Rightarrow> database_id \<Rightarrow> node_id \<Rightarrow> (pg, database_record) op" where
  "pg_migrate_database disp sh t i new_node =
    try_then (run_sql disp (\<lambda>p.
      rbind (update_databases (owned t i) (\<lambda>r. next_generation (r\<lparr>pd_storage_node_id := Some new_node\<rparr>)) p) (\<lambda>(n, p').
      Inr (List.find (owned t i) (pg_databases p'), p'))))
    (fetched disp sh (DatabaseNotFound i))"

text \<open>The two lists whose \<open>SELECT\<close> leaves out columns.\<close>

definition replica_cols :: "str list" where
  "replica_cols = [''id'', ''tenant_id'', ''state'', ''created_at'', ''storage_node_id'', ''replica_node_id'']"

definition pg_list_replicas_of :: "(sqlx_error \<Rightarrow> str) \<Rightarrow> (uuid \<Rightarrow> str) \<Rightarrow> node_id \<Rightarrow> (pg, database_record list) op" where
  "pg_list_replicas_of disp sh node =
    try_then (run_sql disp (select (\<lambda>p. map (database_row replica_cols)
        (sort_key pd_id (filter (\<lambda>r. pd_replica_node_id r = Some node) (pg_databases p))))))
      (\<lambda>rows. give (collect_results (row_to_record disp sh) rows))"

definition pg_promote_replica :: "(sqlx_error \<Rightarrow> str) \<Rightarrow> (uuid \<Rightarrow> str) \<Rightarrow> tenant_id \<Rightarrow> database_id \<Rightarrow> (pg, database_record) op" where
  "pg_promote_replica disp sh t i =
    try_then (run_sql disp (update_databases (\<lambda>r. owned t i r \<and> pd_replica_node_id r \<noteq> None)
        (\<lambda>r. next_generation (r\<lparr>pd_storage_node_id := pd_replica_node_id r, pd_replica_node_id := None\<rparr>)))) (\<lambda>updated.
    if updated = 0 then try_then (pg_get_database disp sh t i)
      (\<lambda>_. raise (Internal (''cell '' @ sh (db_uuid i) @ '' has no replica to promote'')))
    else pg_get_database disp sh t i)"

definition all_cols :: "str list" where
  "all_cols = replica_cols @ [''generation'']"

definition pg_list_all_databases :: "(sqlx_error \<Rightarrow> str) \<Rightarrow> (uuid \<Rightarrow> str) \<Rightarrow> (pg, database_record list) op" where
  "pg_list_all_databases disp sh =
    try_then (run_sql disp (select (\<lambda>p. map (database_row all_cols) (sort_key pd_id (pg_databases p)))))
      (\<lambda>rows. give (collect_results (row_to_record disp sh) rows))"

text \<open>Creation in batches of \<open>BATCH_SIZE\<close> rows; identifiers in use, and repeated ones, are skipped.\<close>

definition BATCH_SIZE :: nat where
  "BATCH_SIZE = 2000"

function chunks :: "nat \<Rightarrow> 'a list \<Rightarrow> 'a list list" where
  "chunks n xs = (if n = 0 \<or> xs = [] then [] else take n xs # chunks n (drop n xs))"
  by auto

termination
  by (relation "measure (\<lambda>(n, xs). length xs)") auto

declare chunks.simps [simp del]

definition skip_known :: "pg_database \<Rightarrow> pg_database list \<Rightarrow> pg_database list" where
  "skip_known r rs = (if \<exists>x \<in> set rs. pd_id x = pd_id r then rs else rs @ [r])"

definition pg_create_databases_batch :: "(sqlx_error \<Rightarrow> str) \<Rightarrow> nat \<Rightarrow> tenant_id \<Rightarrow> database_id list \<Rightarrow> (pg, unit) op" where
  "pg_create_databases_batch disp now t ids =
    try_then (for_each (\<lambda>chunk. run_sql disp (\<lambda>p.
        Inr ((), p\<lparr>pg_databases := fold (\<lambda>i. skip_known (new_row (wrap_i64 (int now)) t i None None)) chunk (pg_databases p)\<rparr>)))
      (chunks BATCH_SIZE ids)) (\<lambda>_. done_with ())"

section \<open>The directory in rows\<close>

definition row_of :: "database_record \<Rightarrow> pg_database" where
  "row_of r = \<lparr>pd_id = db_id r, pd_tenant_id = db_tenant_id r, pd_state = state_as_str (db_state r),
    pd_created_at = wrap_i64 (int (db_created_at r)), pd_storage_node_id = db_storage_node_id r,
    pd_replica_node_id = db_replica_node_id r, pd_generation = db_generation r, pd_name = Some (db_name r)\<rparr>"

primrec sql_rows :: "('k \<times> database_record) list \<Rightarrow> pg_database list" where
  "sql_rows [] = []"
| "sql_rows (x # m) = row_of (snd x) # sql_rows m"

definition dir_rows :: "inner \<Rightarrow> pg_database list" where
  "dir_rows s = sql_rows (databases s)"

text \<open>What a row can hold: a time that fits a signed column.\<close>

definition storable :: "database_record \<Rightarrow> bool" where
  "storable r \<longleftrightarrow> int (db_created_at r) \<le> i64_max"

definition dir_storable :: "inner \<Rightarrow> bool" where
  "dir_storable s \<longleftrightarrow> list_all storable (map snd (databases s))"

lemma row_of_simps [simp]:
  "pd_id (row_of r) = db_id r" "pd_tenant_id (row_of r) = db_tenant_id r" "pd_name (row_of r) = Some (db_name r)"
  "pd_replica_node_id (row_of r) = db_replica_node_id r" "pd_storage_node_id (row_of r) = db_storage_node_id r"
  "pd_generation (row_of r) = db_generation r" "pd_created_at (row_of r) = wrap_i64 (int (db_created_at r))"
  "pd_state (row_of r) = state_as_str (db_state r)"
  by (simp_all add: row_of_def)

lemma owned_row_of [simp]: "owned t i (row_of r) \<longleftrightarrow> db_id r = i \<and> db_tenant_id r = t"
  by (simp add: owned_def)

lemma sql_rows_append [simp]: "sql_rows (m @ m') = sql_rows m @ sql_rows m'"
  by (induction m) simp_all

lemma set_sql_rows: "set (sql_rows m) = row_of ` snd ` set m"
  by (induction m) auto

lemma stored_time: "int n \<le> i64_max \<Longrightarrow> wrap_u64 (wrap_i64 (int n)) = n"
  by (simp add: wrap_u64_def wrap_i64_id in_i64_def i64_max_def i64_min_def)

lemma pg_record_row_of:
  assumes "int (db_created_at r) \<le> i64_max"
  shows "pg_record disp sh (row_of r) = Inr r"
proof -
  have "map_option NodeId (map_option node_uuid n) = n" for n
    by (cases n) simp_all
  then show ?thesis
    using stored_time [OF assms]
    by (cases "db_storage_node_id r"; cases "db_replica_node_id r")
      (simp_all add: pg_record_def row_to_record_def database_row_def record_cols_def try_get_def try_get_opt_def map_err_def ok_or_def Let_def)
qed

text \<open>Every record stands under its own key.\<close>

definition keyed :: "(tenant_id \<times> database_id, database_record) hashmap \<Rightarrow> bool" where
  "keyed m \<longleftrightarrow> distinct (map fst m) \<and> list_all (\<lambda>((t, i), r). db_tenant_id r = t \<and> db_id r = i) m"

lemma dir_inv_keyed: "dir_inv s \<Longrightarrow> keyed (databases s)"
  by (auto simp: dir_inv_def keyed_def list_all_iff)

lemma find_owned:
  "keyed m \<Longrightarrow> List.find (owned t i) (sql_rows m) = map_option row_of (map_of m (t, i))"
  by (induction m) (auto simp: keyed_def)

lemma update_none:
  "keyed m \<Longrightarrow> map_of m (t, i) = None \<Longrightarrow> update_where (owned t i) f (sql_rows m) = Inr (0, sql_rows m)"
  by (induction m) (auto simp: keyed_def split: if_splits)

lemma update_one:
  assumes "keyed m" "map_of m (t, i) = Some r" "f (row_of r) = Inr (row_of r')"
  shows "update_where (owned t i) f (sql_rows m) = Inr (1, sql_rows (AList.update (t, i) r' m))"
  using assms
proof (induction m)
  case (Cons x m)
  obtain a b y where x: "x = ((a, b), y)"
    by (metis prod.collapse)
  have m: "keyed m" "db_tenant_id y = a" "db_id y = b"
    using Cons.prems(1) by (simp_all add: keyed_def x)
  show ?case
  proof (cases "(a, b) = (t, i)")
    case True
    then have "map_of m (t, i) = None"
      using Cons.prems(1) by (auto simp: keyed_def x map_of_eq_None_keys)
    then show ?thesis
      using Cons.prems m True update_none [of m t i f] by (simp add: x)
  next
    case False
    then show ?thesis
      using Cons m by (auto simp: x)
  qed
qed simp

lemma delete_rows:
  "keyed m \<Longrightarrow> delete_where (owned t i) (sql_rows m)
    = (if map_of m (t, i) = None then 0 else 1, sql_rows (AList.delete (t, i) m))"
proof (induction m)
  case (Cons x m)
  obtain a b y where x: "x = ((a, b), y)"
    by (metis prod.collapse)
  have m: "keyed m" "db_tenant_id y = a" "db_id y = b" "map_of m (a, b) = None"
    using Cons.prems by (auto simp: keyed_def x map_of_eq_None_keys)
  then show ?case
    using Cons.IH by (auto simp: x delete_where_def)
qed (simp add: delete_where_def)

lemma names_unique_rows: "names_unique (sql_rows m) \<longleftrightarrow> distinct (map (\<lambda>(k, r). (db_tenant_id r, db_name r)) m)"
proof -
  have "List.map_filter named (sql_rows m) = map (\<lambda>(k, r). (db_tenant_id r, db_name r)) m"
    by (induction m) (auto simp: named_def List.map_filter_simps)
  then show ?thesis
    by (simp add: names_unique_def)
qed

lemma dir_inv_names: "dir_inv s \<Longrightarrow> names_unique (dir_rows s)"
proof -
  assume inv: "dir_inv s"
  then have k: "keyed (databases s)" and maps: "dir_maps (map_of (databases s)) (map_of (name_index s))"
    by (simp_all add: dir_inv_keyed dir_inv_iff)
  have "inj_on (\<lambda>(k, r). (db_tenant_id r, db_name r)) (set (databases s))"
  proof (rule inj_onI, clarsimp)
    fix a b r c d r'
    assume m: "((a, b), r) \<in> set (databases s)" "((c, d), r') \<in> set (databases s)"
      and e: "db_tenant_id r = db_tenant_id r'" "db_name r = db_name r'"
    have l: "map_of (databases s) (a, b) = Some r" "map_of (databases s) (c, d) = Some r'"
      using k m by (simp_all add: keyed_def)
    have "a = c" "b = d"
      using dir_mapsD(2,4) [OF maps] l e by (metis, metis option.inject)
    then show "a = c \<and> b = d \<and> r = r'"
      using l by simp
  qed
  then show "names_unique (dir_rows s)"
    using k by (simp add: dir_rows_def names_unique_rows distinct_map keyed_def)
qed

lemma find_named:
  assumes "dir_inv s"
  shows "List.find (\<lambda>r. pd_tenant_id r = t \<and> pd_name r = Some n) (dir_rows s)
    = (case map_of (name_index s) (t, n) of None \<Rightarrow> None | Some i \<Rightarrow> map_option row_of (map_of (databases s) (t, i)))"
proof -
  have k: "keyed (databases s)" and maps: "dir_maps (map_of (databases s)) (map_of (name_index s))"
    using assms by (simp_all add: dir_inv_keyed dir_inv_iff)
  have idx: "db_tenant_id r = t \<and> db_name r = n \<longleftrightarrow> map_of (name_index s) (t, n) = Some i \<and> t' = t"
    if "((t', i), r) \<in> set (databases s)" for t' i r
  proof -
    have l: "map_of (databases s) (t', i) = Some r"
      using k that by (simp add: keyed_def)
    note rec = dir_mapsD(2) [OF maps l] dir_mapsD(4) [OF maps l]
    have "db_name r = n" if "map_of (name_index s) (t, n) = Some i" "t' = t"
      using dir_mapsD(5) [OF maps that(1)] l that(2) by auto
    then show ?thesis
      using rec by auto
  qed
  have find: "List.find (\<lambda>r. pd_tenant_id r = t \<and> pd_name r = Some n) (sql_rows m)
      = (case map_of (name_index s) (t, n) of None \<Rightarrow> None | Some i \<Rightarrow> map_option row_of (map_of m (t, i)))"
    if "set m \<subseteq> set (databases s)" for m
    using that
  proof (induction m)
    case (Cons x m)
    obtain a b y where x: "x = ((a, b), y)"
      by (metis prod.collapse)
    have "db_tenant_id y = t \<and> db_name y = n \<longleftrightarrow> map_of (name_index s) (t, n) = Some b \<and> a = t"
      using idx [of a b y] Cons.prems by (simp add: x)
    then show ?case
      using Cons by (cases "db_tenant_id y = t \<and> db_name y = n") (auto simp: x split: option.splits)
  qed (simp split: option.splits)
  show ?thesis
    unfolding dir_rows_def by (rule find) simp
qed

lemma row_ids: "(\<exists>x \<in> set (sql_rows m). pd_id x = i) \<longleftrightarrow> i \<in> db_id ` snd ` set m"
  by (induction m) auto

lemma insert_row:
  assumes "dir_inv (insert_record s r)" "fresh_id s (db_id r)" "pg_databases p = dir_rows s" "keyed (databases s)"
  shows "insert_database (row_of r) p = Inr (1, p\<lparr>pg_databases := dir_rows (insert_record s r)\<rparr>)"
proof -
  have new: "map_of (databases s) (db_tenant_id r, db_id r) = None"
    using fresh_idD [OF assms(2)] by simp
  have "db_id r \<notin> db_id ` snd ` set (databases s)"
    using assms(2,4) by (force simp: fresh_id_def keyed_def list_all_iff)
  moreover have e: "dir_rows (insert_record s r) = dir_rows s @ [row_of r]"
    by (simp add: dir_rows_def insert_record_def update_fresh_key [OF new])
  ultimately show ?thesis
    using dir_inv_names [OF assms(1)] assms(3) by (simp add: insert_database_def row_ids dir_rows_def)
qed

text \<open>Reading a cell of the directory that the rows stand for.\<close>

lemma pg_get_served:
  assumes "dir_inv s" "dir_storable s" "pg_databases p = dir_rows s" "pg_net p = []"
  shows "pg_get_database disp sh t i p = (get_database s t i, p)"
proof (cases "map_of (databases s) (t, i)")
  case (Some r)
  then have "storable r"
    using assms(2) by (force simp: dir_storable_def list_all_iff dest: map_of_SomeD)
  then show ?thesis
    using Some find_owned [OF dir_inv_keyed [OF assms(1)], of t i] assms(3,4)
    by (simp add: pg_get_database_def op_defs run_select fetched_def dir_rows_def storable_def pg_record_row_of get_database_def ok_or_def)
next
  case None
  then show ?thesis
    using find_owned [OF dir_inv_keyed [OF assms(1)], of t i] assms(3,4)
    by (simp add: pg_get_database_def op_defs run_select fetched_def dir_rows_def get_database_def ok_or_def)
qed

lemma pg_by_name_served:
  assumes "dir_inv s" "dir_storable s" "pg_databases p = dir_rows s" "pg_net p = []"
  shows "pg_get_database_by_name disp sh fresh t n p = (get_database_by_name fresh s t n, p)"
proof (cases "map_of (name_index s) (t, n)")
  case None
  then show ?thesis
    using find_named [OF assms(1), of t n] assms(3,4)
    by (simp add: pg_get_database_by_name_def op_defs run_select fetched_def get_database_by_name_def)
next
  case (Some i)
  then obtain r where r: "map_of (databases s) (t, i) = Some r"
    using assms(1) by (auto simp: dir_inv_iff dest: dir_mapsD(5))
  then have "storable r"
    using assms(2) by (force simp: dir_storable_def list_all_iff dest: map_of_SomeD)
  then show ?thesis
    using Some r find_named [OF assms(1), of t n] assms(3,4)
    by (simp add: pg_get_database_by_name_def op_defs run_select fetched_def storable_def pg_record_row_of get_database_by_name_def ok_or_def)
qed

lemma update_statement:
  assumes "dir_inv s" "pg_databases p = dir_rows s"
    and "\<And>r. map_of (databases s) (t, i) = Some r \<Longrightarrow> f (row_of r) = Inr (row_of (g r))"
    and "\<And>r. db_tenant_id (g r) = db_tenant_id r \<and> db_id (g r) = db_id r \<and> db_name (g r) = db_name r"
  shows "update_databases (owned t i) f p
    = Inr (if map_of (databases s) (t, i) = None then 0 else 1,
       p\<lparr>pg_databases := dir_rows (snd (update_record s t i (\<lambda>r. Inr (g r))))\<rparr>)"
proof (cases "map_of (databases s) (t, i)")
  case None
  then show ?thesis
    using update_none [OF dir_inv_keyed [OF assms(1)] None, of f] dir_inv_names [OF assms(1)] assms(2)
    by (simp add: update_databases_def update_record_def dir_rows_def)
next
  case (Some r)
  let ?s = "s\<lparr>databases := AList.update (t, i) (g r) (databases s)\<rparr>"
  have s': "snd (update_record s t i (\<lambda>r. Inr (g r))) = ?s"
    by (simp add: update_record_def Some)
  have "dir_inv ?s"
    unfolding s' [symmetric] using assms(1,4) by (intro update_record_inv) auto
  then have "names_unique (dir_rows ?s)"
    by (rule dir_inv_names)
  moreover have "update_where (owned t i) f (sql_rows (databases s)) = Inr (1, sql_rows (AList.update (t, i) (g r) (databases s)))"
    using update_one [OF dir_inv_keyed [OF assms(1)] Some] assms(3) [OF Some] by simp
  ultimately show ?thesis
    using Some assms(2) by (simp add: update_databases_def s' dir_rows_def)
qed

lemma update_rows_served:
  assumes "dir_inv s" "pg_databases p = dir_rows s" "pg_net p = []"
    and "\<And>r. map_of (databases s) (t, i) = Some r \<Longrightarrow> f (row_of r) = Inr (row_of (g r))"
    and "\<And>r. db_tenant_id (g r) = db_tenant_id r \<and> db_id (g r) = db_id r \<and> db_name (g r) = db_name r"
  shows "run_sql disp (update_databases (owned t i) f) p
    = (Inr (if map_of (databases s) (t, i) = None then 0 else 1),
       p\<lparr>pg_databases := dir_rows (snd (update_record s t i (\<lambda>r. Inr (g r))))\<rparr>)"
  by (simp add: run_served [OF assms(3)] update_statement [OF assms(1,2,4,5)])

lemma list_all_update: "list_all P (map snd m) \<Longrightarrow> P v \<Longrightarrow> list_all P (map snd (AList.update k v m))"
  by (induction m) auto

lemma update_cell_served:
  assumes "dir_inv s" "dir_storable s" "pg_databases p = dir_rows s" "pg_net p = []"
    and "\<And>r. map_of (databases s) (t, i) = Some r \<Longrightarrow> f (row_of r) = Inr (row_of (g r))"
    and "\<And>r. db_tenant_id (g r) = db_tenant_id r \<and> db_id (g r) = db_id r \<and> db_name (g r) = db_name r \<and> db_created_at (g r) = db_created_at r"
  shows "update_cell disp sh t i f p = (let (a, s') = update_record s t i (\<lambda>r. Inr (g r)) in (a, p\<lparr>pg_databases := dir_rows s'\<rparr>))"
proof (cases "map_of (databases s) (t, i)")
  case None
  have u: "update_record s t i (\<lambda>r. Inr (g r)) = (Inl (DatabaseNotFound i), s)"
    by (simp add: update_record_def None)
  have "run_sql disp (update_databases (owned t i) f) p = (Inr 0, p\<lparr>pg_databases := dir_rows s\<rparr>)"
    using update_rows_served [of s p t i f g disp, OF assms(1,3,4,5)] assms(6) None by (simp add: u)
  then show ?thesis
    by (simp add: update_cell_def op_defs u)
next
  case (Some r)
  let ?s = "s\<lparr>databases := AList.update (t, i) (g r) (databases s)\<rparr>"
  have u: "update_record s t i (\<lambda>r. Inr (g r)) = (Inr (g r), ?s)"
    by (simp add: update_record_def Some)
  have step: "run_sql disp (update_databases (owned t i) f) p = (Inr 1, p\<lparr>pg_databases := dir_rows ?s\<rparr>)"
    using update_rows_served [of s p t i f g disp, OF assms(1,3,4,5)] assms(6) Some by (simp add: u)
  have inv: "dir_inv ?s"
    using update_record_inv [OF assms(1), of "\<lambda>r. Inr (g r)" t i] assms(6) by (simp add: u)
  have "storable (g r)"
    using assms(2,6) Some by (force simp: dir_storable_def list_all_iff storable_def dest: map_of_SomeD)
  then have "dir_storable ?s"
    using assms(2) by (simp add: dir_storable_def list_all_update)
  then have "pg_get_database disp sh t i (p\<lparr>pg_databases := dir_rows ?s\<rparr>) = (get_database ?s t i, p\<lparr>pg_databases := dir_rows ?s\<rparr>)"
    using inv assms(4) by (intro pg_get_served) simp_all
  then show ?thesis
    by (simp add: update_cell_def op_defs step u get_database_def ok_or_def update_conv')
qed

lemma dir_storable_insert: "dir_storable s \<Longrightarrow> storable r \<Longrightarrow> dir_storable (insert_record s r)"
  by (simp add: dir_storable_def insert_record_def list_all_update)

lemma dir_storableD: "dir_storable s \<Longrightarrow> map_of (databases s) k = Some r \<Longrightarrow> storable r"
  by (force simp: dir_storable_def list_all_iff dest: map_of_SomeD)

text \<open>A new cell under a free name.\<close>

lemma create_served:
  assumes "dir_inv s" "dir_storable s" "pg_databases p = dir_rows s" "pg_net p = []"
    and "fresh_id s i" "map_of (name_index s) (t, n) = None" "int now \<le> i64_max"
    and "n = (case name of Some n \<Rightarrow> n | None \<Rightarrow> default_cell_name sh i)"
  shows "pg_create_database disp sh now t i node name p
    = (Inr (new_record now t i node n), p\<lparr>pg_databases := dir_rows (insert_record s (new_record now t i node n))\<rparr>)"
proof -
  let ?r = "new_record now t i node n"
  have row: "new_row (wrap_i64 (int now)) t i node (Some n) = row_of ?r"
    by (simp add: new_row_def row_of_def new_record_def)
  have inv: "dir_inv (insert_record s ?r)"
    by (rule insert_record_inv) (use assms in simp_all)
  have st: "dir_storable (insert_record s ?r)"
    using assms(2,7) by (simp add: dir_storable_insert storable_def new_record_def)
  have "get_database (insert_record s ?r) t i = Inr ?r"
    by (simp add: get_database_def insert_record_def ok_or_def update_conv')
  then have got: "pg_get_database disp sh t i (p\<lparr>pg_databases := dir_rows (insert_record s ?r)\<rparr>) = (Inr ?r, p\<lparr>pg_databases := dir_rows (insert_record s ?r)\<rparr>)"
    using pg_get_served [OF inv st, of "p\<lparr>pg_databases := dir_rows (insert_record s ?r)\<rparr>" disp sh t i] assms(4) by simp
  have ins: "insert_database (new_row (wrap_i64 (int now)) t i node (Some n)) p = Inr (1, p\<lparr>pg_databases := dir_rows (insert_record s ?r)\<rparr>)"
    unfolding row using inv assms(5) by (intro insert_row [OF _ _ assms(3) dir_inv_keyed [OF assms(1)]]) simp_all
  show ?thesis
    unfolding pg_create_database_def assms(8) [symmetric] by (simp add: Let_def op_defs run_served assms(4) ins got)
qed

text \<open>A name in use is refused by the index.\<close>

lemma insert_taken:
  assumes "dir_inv s" "pg_databases p = dir_rows s" "fresh_id s (pd_id r)" "pd_name r = Some n" "map_of (name_index s) (pd_tenant_id r, n) \<noteq> None"
  shows "insert_database r p = Inl (Violation ''uq_databases_tenant_name'')"
proof -
  obtain i x where x: "map_of (databases s) (pd_tenant_id r, i) = Some x" "db_name x = n" "db_tenant_id x = pd_tenant_id r"
    using assms(1,5) dir_mapsD(2,5) by (fastforce simp: dir_inv_iff)
  then have "row_of x \<in> set (dir_rows s)"
    unfolding dir_rows_def set_sql_rows by (force dest: map_of_SomeD)
  then have "\<not> names_unique (dir_rows s @ [r])"
    using x assms(4) by (force simp: names_unique_def named_def map_filter_def image_iff)
  moreover have "pd_id r \<notin> db_id ` snd ` set (databases s)"
    using assms(3) dir_inv_keyed [OF assms(1)] by (force simp: fresh_id_def keyed_def list_all_iff)
  ultimately show ?thesis
    using assms(2) by (simp add: insert_database_def row_ids dir_rows_def)
qed

section \<open>Both stores on the same calls\<close>

type_synonym dir_answer = "(database_record \<times> bool) option result"

fun dir_call :: "(uuid \<Rightarrow> str) \<Rightarrow> dir_op \<Rightarrow> inner \<Rightarrow> dir_answer \<times> inner" where
  "dir_call sh (OpCreate now t i node n) s = map_prod (map_sum id (\<lambda>r. Some (r, True))) id (create_database sh now s t i node n)"
| "dir_call sh (OpEnsure i now t n node) s = map_prod (map_sum id Some) id (ensure_database_by_name i now s t n node)"
| "dir_call sh (OpRename t i n) s = map_prod (map_sum id (\<lambda>r. Some (r, False))) id (rename_database s t i n)"
| "dir_call sh (OpReset t i) s = map_prod (map_sum id (\<lambda>r. Some (r, False))) id (reset_database s t i)"
| "dir_call sh (OpDelete t i) s = map_prod (map_sum id (\<lambda>_. None)) id (delete_database s t i)"
| "dir_call sh (OpSetState t i st) s = map_prod (map_sum id (\<lambda>_. None)) id (set_database_state s t i st)"
| "dir_call sh (OpSetReplica t i node) s = map_prod (map_sum id (\<lambda>r. Some (r, False))) id (set_replica_node s t i node)"
| "dir_call sh (OpPromote t i) s = map_prod (map_sum id (\<lambda>r. Some (r, False))) id (promote_replica sh s t i)"
| "dir_call sh (OpMigrate t i node) s = map_prod (map_sum id (\<lambda>r. Some (r, False))) id (migrate_database s t i node)"

fun pg_call :: "(sqlx_error \<Rightarrow> str) \<Rightarrow> (uuid \<Rightarrow> str) \<Rightarrow> dir_op \<Rightarrow> pg \<Rightarrow> dir_answer \<times> pg" where
  "pg_call disp sh (OpCreate now t i node n) p = map_prod (map_sum id (\<lambda>r. Some (r, True))) id (pg_create_database disp sh now t i node n p)"
| "pg_call disp sh (OpEnsure i now t n node) p = map_prod (map_sum id Some) id (pg_ensure_database_by_name disp sh (i, i, i) now t n node p)"
| "pg_call disp sh (OpRename t i n) p = map_prod (map_sum id (\<lambda>r. Some (r, False))) id (pg_rename_database disp sh t i n p)"
| "pg_call disp sh (OpReset t i) p = map_prod (map_sum id (\<lambda>r. Some (r, False))) id (pg_reset_database disp sh t i p)"
| "pg_call disp sh (OpDelete t i) p = map_prod (map_sum id (\<lambda>_. None)) id (pg_delete_database disp t i p)"
| "pg_call disp sh (OpSetState t i st) p = map_prod (map_sum id (\<lambda>_. None)) id (pg_set_database_state disp t i st p)"
| "pg_call disp sh (OpSetReplica t i node) p = map_prod (map_sum id (\<lambda>r. Some (r, False))) id (pg_set_replica_node disp sh t i node p)"
| "pg_call disp sh (OpPromote t i) p = map_prod (map_sum id (\<lambda>r. Some (r, False))) id (pg_promote_replica disp sh t i p)"
| "pg_call disp sh (OpMigrate t i node) p = map_prod (map_sum id (\<lambda>r. Some (r, False))) id (pg_migrate_database disp sh t i node p)"

lemma snd_dir_call: "snd (dir_call sh oper s) = dir_exec sh oper s"
  by (cases oper) simp_all

text \<open>
  The answer of the SQL store, from the answer \<open>a\<close> of the store in memory: a name in use is an internal error
  instead of a conflict, a cell may be renamed to the name it has, and the state of a missing cell is set without complaint.
\<close>

definition name_violation :: "(sqlx_error \<Rightarrow> str) \<Rightarrow> combee_error" where
  "name_violation disp = internal disp (Violation ''uq_databases_tenant_name'')"

fun sql_answer :: "(sqlx_error \<Rightarrow> str) \<Rightarrow> inner \<Rightarrow> dir_op \<Rightarrow> dir_answer \<Rightarrow> dir_answer" where
  "sql_answer disp s (OpCreate now t i node (Some n)) a = (if a = Inl (CellAlreadyExists n) then Inl (name_violation disp) else a)"
| "sql_answer disp s (OpRename t i n) a = (if a = Inl (CellNameConflict n)
      then (case map_of (databases s) (t, i) of
          Some r \<Rightarrow> if db_name r = n then Inr (Some (r, False)) else Inl (name_violation disp)
        | None \<Rightarrow> a)
      else a)"
| "sql_answer disp s (OpSetState t i st) a = Inr None"
| "sql_answer disp s _ a = a"

text \<open>What the columns can hold during a call: the clock, and the next generation of a cell.\<close>

fun op_fits :: "inner \<Rightarrow> dir_op \<Rightarrow> bool" where
  "op_fits s (OpCreate now t i node n) \<longleftrightarrow> int now \<le> i64_max"
| "op_fits s (OpEnsure i now t n node) \<longleftrightarrow> int now \<le> i64_max"
| "op_fits s oper \<longleftrightarrow> list_all (\<lambda>(k, r). in_i64 (db_generation r + 1)) (databases s)"

lemma grown:
  assumes "list_all (\<lambda>(k, r). in_i64 (db_generation r + 1)) (databases s)" "map_of (databases s) k = Some r"
  shows "next_generation (row_of r) = Inr (row_of (r\<lparr>db_generation := wrap_i64 (db_generation r + 1)\<rparr>))"
    and "next_generation (row_of r \<lparr>pd_storage_node_id := x\<rparr>)
      = Inr (row_of (r\<lparr>db_storage_node_id := x, db_generation := wrap_i64 (db_generation r + 1)\<rparr>))"
    and "next_generation (row_of r \<lparr>pd_storage_node_id := x, pd_replica_node_id := y\<rparr>)
      = Inr (row_of (r\<lparr>db_storage_node_id := x, db_replica_node_id := y, db_generation := wrap_i64 (db_generation r + 1)\<rparr>))"
proof -
  have "in_i64 (db_generation r + 1)"
    using assms by (force simp: list_all_iff dest: map_of_SomeD)
  then show "next_generation (row_of r) = Inr (row_of (r\<lparr>db_generation := wrap_i64 (db_generation r + 1)\<rparr>))"
      "next_generation (row_of r \<lparr>pd_storage_node_id := x\<rparr>)
      = Inr (row_of (r\<lparr>db_storage_node_id := x, db_generation := wrap_i64 (db_generation r + 1)\<rparr>))"
      "next_generation (row_of r \<lparr>pd_storage_node_id := x, pd_replica_node_id := y\<rparr>)
      = Inr (row_of (r\<lparr>db_storage_node_id := x, db_replica_node_id := y, db_generation := wrap_i64 (db_generation r + 1)\<rparr>))"
    by (simp_all add: next_generation_def big_add_def row_of_def wrap_i64_id)
qed

text \<open>The simulation: the same cells, and the answer as \<open>sql_answer\<close> says.\<close>

definition follows :: "(sqlx_error \<Rightarrow> str) \<Rightarrow> (uuid \<Rightarrow> str) \<Rightarrow> dir_op \<Rightarrow> inner \<Rightarrow> pg \<Rightarrow> bool" where
  "follows disp sh oper s p \<longleftrightarrow> pg_call disp sh oper p
    = (sql_answer disp s oper (fst (dir_call sh oper s)), p\<lparr>pg_databases := dir_rows (dir_exec sh oper s)\<rparr>)"

lemma follows_updates:
  assumes "dir_inv s" "dir_storable s" "pg_databases p = dir_rows s" "pg_net p = []"
  shows "op_fits s (OpReset t i) \<Longrightarrow> follows disp sh (OpReset t i) s p"
    and "follows disp sh (OpSetReplica t i node) s p"
    and "follows disp sh (OpSetState t i st) s p"
    and "follows disp sh (OpDelete t i) s p"
proof -
  show "follows disp sh (OpReset t i) s p" if fits: "op_fits s (OpReset t i)"
  proof -
    have "update_cell disp sh t i next_generation p
        = (let (a, s') = update_record s t i (\<lambda>r. Inr (r\<lparr>db_generation := wrap_i64 (db_generation r + 1)\<rparr>)) in (a, p\<lparr>pg_databases := dir_rows s'\<rparr>))"
      by (rule update_cell_served [OF assms]) (use fits grown(1) in auto)
    then show ?thesis
      by (simp add: follows_def pg_reset_database_def reset_database_def case_prod_beta)
  qed
  have "update_cell disp sh t i (\<lambda>r. Inr (r\<lparr>pd_replica_node_id := node\<rparr>)) p
      = (let (a, s') = update_record s t i (\<lambda>r. Inr (r\<lparr>db_replica_node_id := node\<rparr>)) in (a, p\<lparr>pg_databases := dir_rows s'\<rparr>))"
    by (rule update_cell_served [OF assms]) (simp_all add: row_of_def)
  then show "follows disp sh (OpSetReplica t i node) s p"
    by (simp add: follows_def pg_set_replica_node_def set_replica_node_def case_prod_beta)
  have "run_sql disp (update_databases (owned t i) (\<lambda>r. Inr (r\<lparr>pd_state := state_as_str st\<rparr>))) p
      = (Inr (if map_of (databases s) (t, i) = None then 0 else 1),
         p\<lparr>pg_databases := dir_rows (snd (update_record s t i (\<lambda>r. Inr (r\<lparr>db_state := st\<rparr>))))\<rparr>)"
    by (rule update_rows_served [OF assms(1,3,4)]) (simp_all add: row_of_def)
  then show "follows disp sh (OpSetState t i st) s p"
    by (simp add: follows_def pg_set_database_state_def op_defs snd_set_database_state)
  have del: "run_sql disp (\<lambda>p. let (n, rs) = delete_where (owned t i) (pg_databases p) in Inr (n, p\<lparr>pg_databases := rs\<rparr>)) p
      = (Inr (if map_of (databases s) (t, i) = None then 0 else 1), p\<lparr>pg_databases := sql_rows (AList.delete (t, i) (databases s))\<rparr>)"
    using assms(3,4) delete_rows [OF dir_inv_keyed [OF assms(1)], of t i] by (simp add: run_served dir_rows_def)
  show "follows disp sh (OpDelete t i) s p"
  proof (cases "map_of (databases s) (t, i)")
    case None
    then have "AList.delete (t, i) (databases s) = databases s"
      by (simp add: delete_idem map_of_eq_None_keys)
    then show ?thesis
      using None del by (simp add: follows_def pg_delete_database_def op_defs dir_rows_def delete_database_def)
  next
    case (Some r)
    then show ?thesis
      using del by (simp add: follows_def pg_delete_database_def op_defs dir_rows_def delete_database_def)
  qed
qed

lemma update_where_cong: "(\<And>r. r \<in> set rs \<Longrightarrow> w r = w' r) \<Longrightarrow> update_where w f rs = update_where w' f rs"
  by (induction rs) auto

lemma update_where_none: "(\<And>r. r \<in> set rs \<Longrightarrow> \<not> w r) \<Longrightarrow> update_where w f rs = Inr (0, rs)"
  by (induction rs) auto

lemma owned_unique:
  assumes "keyed m" "x \<in> set (sql_rows m)" "owned t i x"
  shows "\<exists>r. map_of m (t, i) = Some r \<and> x = row_of r"
proof -
  obtain k r where r: "(k, r) \<in> set m" "x = row_of r"
    using assms(2) by (auto simp: set_sql_rows)
  then have "k = (t, i)"
    using assms(1,3) by (cases k) (auto simp: keyed_def list_all_iff)
  then show ?thesis
    using r assms(1) by (auto simp: keyed_def)
qed

lemma follows_promote:
  assumes "dir_inv s" "dir_storable s" "pg_databases p = dir_rows s" "pg_net p = []" "op_fits s (OpPromote t i)"
  shows "follows disp sh (OpPromote t i) s p"
proof -
  let ?w = "\<lambda>r. owned t i r \<and> pd_replica_node_id r \<noteq> None"
  let ?f = "\<lambda>r. next_generation (r\<lparr>pd_storage_node_id := pd_replica_node_id r, pd_replica_node_id := None\<rparr>)"
  let ?g = "\<lambda>r. r\<lparr>db_storage_node_id := db_replica_node_id r, db_replica_node_id := None, db_generation := wrap_i64 (db_generation r + 1)\<rparr>"
  note k = dir_inv_keyed [OF assms(1)]
  have get: "pg_get_database disp sh t i p = (get_database s t i, p)"
    by (rule pg_get_served [OF assms(1-4)])
  show ?thesis
  proof (cases "\<exists>r. map_of (databases s) (t, i) = Some r \<and> db_replica_node_id r \<noteq> None")
    case True
    then obtain r n where r: "map_of (databases s) (t, i) = Some r" "db_replica_node_id r = Some n"
      by auto
    have w: "update_databases ?w ?f p = update_databases (owned t i) ?f p"
      unfolding update_databases_def assms(3) dir_rows_def
      by (subst update_where_cong [of _ ?w "owned t i"]) (use r in \<open>auto dest!: owned_unique [OF k]\<close>)
    have "update_databases (owned t i) ?f p = Inr (if map_of (databases s) (t, i) = None then 0 else 1,
        p\<lparr>pg_databases := dir_rows (snd (update_record s t i (\<lambda>r. Inr (?g r))))\<rparr>)"
      by (rule update_statement [OF assms(1,3)]) (use assms(5) grown(3) in auto)
    then have "pg_promote_replica disp sh t i p = update_cell disp sh t i ?f p"
      using r assms(4) by (simp add: pg_promote_replica_def update_cell_def op_defs run_served w del: not_None_eq)
    moreover have "update_cell disp sh t i ?f p
        = (let (a, s') = update_record s t i (\<lambda>r. Inr (?g r)) in (a, p\<lparr>pg_databases := dir_rows s'\<rparr>))"
      by (rule update_cell_served [OF assms(1-4)]) (use assms(5) grown(3) in auto)
    moreover have "update_record s t i (\<lambda>r. Inr (?g r)) = promote_replica sh s t i"
      by (simp add: promote_replica_def update_record_def r)
    ultimately show ?thesis
      by (simp add: follows_def case_prod_beta)
  next
    case False
    then have "update_where ?w ?f (sql_rows (databases s)) = Inr (0, sql_rows (databases s))"
      by (intro update_where_none) (auto dest!: owned_unique [OF k])
    then have "update_databases ?w ?f p = Inr (0, p)"
      using dir_inv_names [OF assms(1)] assms(3) by (simp add: update_databases_def dir_rows_def)
    then show ?thesis
      using False get assms(3,4)
      by (cases "map_of (databases s) (t, i)")
        (auto simp: follows_def pg_promote_replica_def op_defs run_served promote_replica_def update_record_def get_database_def ok_or_def)
  qed
qed

lemma follows_migrate:
  assumes "dir_inv s" "dir_storable s" "pg_databases p = dir_rows s" "pg_net p = []" "op_fits s (OpMigrate t i node)"
  shows "follows disp sh (OpMigrate t i node) s p"
proof -
  let ?f = "\<lambda>r. next_generation (r\<lparr>pd_storage_node_id := Some node\<rparr>)"
  let ?g = "\<lambda>r. r\<lparr>db_storage_node_id := Some node, db_generation := wrap_i64 (db_generation r + 1)\<rparr>"
  let ?s = "snd (update_record s t i (\<lambda>r. Inr (?g r)))"
  have u: "update_databases (owned t i) ?f p = Inr (if map_of (databases s) (t, i) = None then 0 else 1, p\<lparr>pg_databases := dir_rows ?s\<rparr>)"
    by (rule update_statement [OF assms(1,3)]) (use assms(5) grown(2) in auto)
  have "dir_inv ?s"
    by (rule update_record_inv [OF assms(1)]) auto
  then have "List.find (owned t i) (dir_rows ?s) = map_option row_of (map_of (databases ?s) (t, i))"
    by (simp add: dir_rows_def find_owned dir_inv_keyed)
  then show ?thesis
  proof (cases "map_of (databases s) (t, i)")
    case None
    then show ?thesis
      using u assms(3,4) find_owned [OF dir_inv_keyed [OF assms(1)], of t i]
      by (simp add: follows_def pg_migrate_database_def op_defs run_served fetched_def migrate_database_def update_record_def dir_rows_def)
  next
    case (Some r)
    have st: "int (db_created_at (?g r)) \<le> i64_max"
      using dir_storableD [OF assms(2) Some] by (simp add: storable_def)
    show ?thesis
      using u assms(4) \<open>List.find (owned t i) (dir_rows ?s) = _\<close> pg_record_row_of [OF st, of disp sh] Some
      by (simp add: follows_def pg_migrate_database_def op_defs run_served fetched_def migrate_database_def update_record_def update_conv')
  qed
qed

lemma follows_rename:
  assumes "dir_inv s" "dir_storable s" "pg_databases p = dir_rows s" "pg_net p = []"
  shows "follows disp sh (OpRename t i n) s p"
proof (cases "map_of (databases s) (t, i)")
  case None
  have "update_where (owned t i) f (dir_rows s) = Inr (0, dir_rows s)" for f
    unfolding dir_rows_def by (rule update_none [OF dir_inv_keyed [OF assms(1)] None])
  then show ?thesis
    using None assms(3,4) dir_inv_names [OF assms(1)]
    by (simp add: follows_def pg_rename_database_def update_cell_def op_defs run_served update_databases_def rename_database_def)
next
  case (Some r)
  let ?r = "r\<lparr>db_name := n\<rparr>"
  let ?m = "AList.update (t, i) ?r (databases s)"
  have st: "storable ?r"
    using dir_storableD [OF assms(2) Some] by (simp add: storable_def)
  have w: "update_where (owned t i) (\<lambda>r. Inr (r\<lparr>pd_name := Some n\<rparr>)) (pg_databases p) = Inr (1, sql_rows ?m)"
    unfolding assms(3) dir_rows_def by (rule update_one [OF dir_inv_keyed [OF assms(1)] Some]) (simp add: row_of_def)
  have maps: "dir_maps (map_of (databases s)) (map_of (name_index s))"
    using assms(1) by (simp add: dir_inv_iff)
  consider (own) "db_name r = n" | (taken) j where "map_of (name_index s) (t, n) = Some j" "db_name r \<noteq> n"
    | (free) "map_of (name_index s) (t, n) = None"
    by fastforce
  then show ?thesis
  proof cases
    case own
    then have "?m = databases s" "map_of (name_index s) (t, n) \<noteq> None"
      using Some dir_mapsD(4) [OF maps Some] by (auto simp: update_triv)
    moreover have same: "p\<lparr>pg_databases := sql_rows (databases s)\<rparr> = p"
      using assms(3) by (simp add: dir_rows_def)
    moreover have "pg_get_database disp sh t i (p\<lparr>pg_databases := sql_rows (databases s)\<rparr>) = (Inr r, p\<lparr>pg_databases := sql_rows (databases s)\<rparr>)"
      unfolding same using pg_get_served [OF assms, of disp sh t i] Some by (simp add: get_database_def ok_or_def)
    ultimately show ?thesis
      using own Some w assms(3,4) dir_inv_names [OF assms(1)]
      by (simp add: follows_def pg_rename_database_def update_cell_def op_defs run_served update_databases_def rename_database_def
          dir_rows_def get_database_def ok_or_def)
  next
    case taken
    then obtain x where x: "map_of (databases s) (t, j) = Some x" "db_name x = n"
      using dir_mapsD(5) [OF maps] by blast
    have "j \<noteq> i"
      using x taken(2) Some by auto
    then have "map_of ?m (t, j) = Some x" "map_of ?m (t, i) = Some ?r"
      using x by (simp_all add: update_conv')
    then have "((t, j), x) \<in> set ?m" "((t, i), ?r) \<in> set ?m"
      by (blast dest: map_of_SomeD)+
    then have "\<not> inj_on (\<lambda>(k, r). (db_tenant_id r, db_name r)) (set ?m)"
      using x \<open>j \<noteq> i\<close> dir_mapsD(2) [OF maps Some] dir_mapsD(2) [OF maps x(1)] by (force simp: inj_on_def)
    then have "\<not> names_unique (sql_rows ?m)"
      by (simp add: names_unique_rows distinct_map)
    then show ?thesis
      using taken Some w assms(3,4)
      by (simp add: follows_def pg_rename_database_def update_cell_def op_defs run_served update_databases_def rename_database_def name_violation_def)
  next
    case free
    let ?s = "snd (rename_database s t i n)"
    have s': "databases ?s = ?m" "fst (rename_database s t i n) = Inr ?r"
      by (simp_all add: rename_database_def Some free Let_def)
    have inv: "dir_inv ?s" and "dir_storable ?s"
      using rename_database_inv [OF assms(1)] assms(2) st by (simp_all add: dir_storable_def s' list_all_update)
    then have "pg_get_database disp sh t i (p\<lparr>pg_databases := dir_rows ?s\<rparr>) = (get_database ?s t i, p\<lparr>pg_databases := dir_rows ?s\<rparr>)"
      using assms(4) by (intro pg_get_served) simp_all
    then show ?thesis
      using w assms(4) dir_inv_names [OF inv]
      by (simp add: follows_def pg_rename_database_def update_cell_def op_defs run_served update_databases_def dir_rows_def s'
          get_database_def ok_or_def update_conv')
  qed
qed

lemma follows_create:
  assumes "dir_inv s" "dir_storable s" "pg_databases p = dir_rows s" "pg_net p = []"
    and "op_fits s (OpCreate now t i node name)" "op_ok sh s (OpCreate now t i node name)"
  shows "follows disp sh (OpCreate now t i node name) s p"
proof -
  have new: "map_of (databases s) (t, i) = None" "fresh_id s i"
    using assms(6) by (simp_all add: fresh_idD)
  show ?thesis
  proof (cases "\<exists>n. name = Some n \<and> map_of (name_index s) (t, n) \<noteq> None")
    case True
    then obtain n where n: "name = Some n" "map_of (name_index s) (t, n) \<noteq> None"
      by blast
    have "insert_database (new_row (wrap_i64 (int now)) t i node (Some n)) p = Inl (Violation ''uq_databases_tenant_name'')"
      by (rule insert_taken [OF assms(1,3), where n = n]) (use n new in \<open>simp_all add: new_row_def\<close>)
    moreover have "p\<lparr>pg_databases := dir_rows s\<rparr> = p"
      using assms(3) by simp
    ultimately show ?thesis
      using n new assms(4) by (simp add: follows_def pg_create_database_def op_defs run_served create_database_def name_violation_def)
  next
    case False
    let ?n = "case name of Some n \<Rightarrow> n | None \<Rightarrow> default_cell_name sh i"
    have "map_of (name_index s) (t, ?n) = None"
      using False assms(6) by (cases name) simp_all
    then have "pg_create_database disp sh now t i node name p
        = (Inr (new_record now t i node ?n), p\<lparr>pg_databases := dir_rows (insert_record s (new_record now t i node ?n))\<rparr>)"
      using assms(5) new by (intro create_served [OF assms(1-4)]) simp_all
    then show ?thesis
      using False new by (cases name) (auto simp: follows_def create_database_def Let_def)
  qed
qed

lemma follows_ensure:
  assumes "dir_inv s" "dir_storable s" "pg_databases p = dir_rows s" "pg_net p = []"
    and "op_fits s (OpEnsure i now t n node)" "op_ok sh s (OpEnsure i now t n node)"
  shows "follows disp sh (OpEnsure i now t n node) s p"
proof -
  have look: "pg_get_database_by_name disp sh i t n p = (get_database_by_name i s t n, p)"
    by (rule pg_by_name_served [OF assms(1-4)])
  have same: "p\<lparr>pg_databases := dir_rows s\<rparr> = p"
    using assms(3) by simp
  show ?thesis
  proof (cases "map_of (name_index s) (t, n)")
    case None
    then have "pg_create_database disp sh now t i node (Some n) p
        = (Inr (new_record now t i node n), p\<lparr>pg_databases := dir_rows (insert_record s (new_record now t i node n))\<rparr>)"
      using assms(5,6) by (intro create_served [OF assms(1-4)]) simp_all
    then show ?thesis
      using None look by (simp add: follows_def pg_ensure_database_by_name_def get_database_by_name_def ensure_database_by_name_def Let_def)
  next
    case (Some j)
    then obtain r where "map_of (databases s) (t, j) = Some r"
      using assms(1) by (auto simp: dir_inv_iff dest: dir_mapsD(5))
    then show ?thesis
      using Some look same
      by (simp add: follows_def pg_ensure_database_by_name_def get_database_by_name_def ensure_database_by_name_def ok_or_def)
  qed
qed


definition sql_directory :: pg where
  "sql_directory = pg_empty\<lparr>pg_databases := dir_rows dir_example\<rparr>"


section \<open>Lists that leave out columns\<close>

lemma replica_row_error: "row_to_record disp sh (database_row replica_cols r) = Inl (internal disp (ColumnNotFound ''generation''))"
  by (cases "pd_storage_node_id r"; cases "pd_replica_node_id r")
    (simp_all add: row_to_record_def database_row_def replica_cols_def try_get_def try_get_opt_def map_err_def ok_or_def)

lemma unnamed_row:
  assumes "int (db_created_at r) \<le> i64_max"
  shows "row_to_record disp sh (database_row all_cols (row_of r)) = Inr (r\<lparr>db_name := default_cell_name sh (db_id r)\<rparr>)"
  using stored_time [OF assms]
  by (cases "db_storage_node_id r"; cases "db_replica_node_id r")
    (simp_all add: row_to_record_def database_row_def all_cols_def replica_cols_def try_get_def try_get_opt_def map_err_def ok_or_def Let_def)

lemma sort_key_map: "sort_key g (map h xs) = map h (sort_key (g \<circ> h) xs)"
proof -
  have "insort_key g (h x) (map h ys) = map h (insort_key (g \<circ> h) x ys)" for x ys
    by (induction ys) auto
  then show ?thesis
    by (induction xs) auto
qed

lemma sql_rows_map: "sql_rows m = map row_of (map snd m)"
  by (induction m) simp_all

text \<open>
  C33: The two lists whose \<open>SELECT\<close> leaves out columns do not give the records of the directory.  The list of the
  cells whose replica is on a node omits \<open>generation\<close>, which every record needs: for a node that holds a replica the call always fails
  with a missing column, where the store in memory lists the replicas, so a replica node never learns what to follow.  The list of all cells
  omits \<open>name\<close>: every cell is listed under its generated name instead of the name it has.
\<close>

theorem pg_replicas_unreadable:
  assumes "dir_storable s" "pg_databases p = dir_rows s" "pg_net p = []"
  shows "(list_replicas_of s node \<noteq> [] \<longrightarrow>
      pg_list_replicas_of disp sh node p = (Inl (internal disp (ColumnNotFound ''generation'')), p))
    \<and> pg_list_all_databases disp sh p
      = (Inr (map (\<lambda>r. r\<lparr>db_name := default_cell_name sh (db_id r)\<rparr>) (list_all_databases s)), p)"
proof
  let ?rs = "sort_key pd_id (filter (\<lambda>r. pd_replica_node_id r = Some node) (pg_databases p))"
  have "?rs = map row_of (list_replicas_of s node)"
    by (simp add: assms(2) dir_rows_def sql_rows_map list_replicas_of_def filter_map sort_key_map comp_def)
  then have "collect_results (row_to_record disp sh) (map (database_row replica_cols) ?rs) = Inl (internal disp (ColumnNotFound ''generation''))"
    if "list_replicas_of s node \<noteq> []"
    using that by (cases "list_replicas_of s node") (simp_all add: replica_row_error)
  then show "list_replicas_of s node \<noteq> [] \<longrightarrow>
      pg_list_replicas_of disp sh node p = (Inl (internal disp (ColumnNotFound ''generation'')), p)"
    by (simp add: pg_list_replicas_of_def op_defs run_select assms(3))
  have "sort_key pd_id (pg_databases p) = map row_of (list_all_databases s)"
    by (simp add: assms(2) dir_rows_def sql_rows_map list_all_databases_def sort_key_map comp_def)
  moreover have "storable r" if "r \<in> set (list_all_databases s)" for r
    using assms(1) that by (auto simp: dir_storable_def list_all_iff list_all_databases_def)
  ultimately have "collect_results (row_to_record disp sh) (map (database_row all_cols) (sort_key pd_id (pg_databases p)))
      = Inr (map (\<lambda>r. r\<lparr>db_name := default_cell_name sh (db_id r)\<rparr>) (list_all_databases s))"
    by (simp add: collect_results_map collect_results_all unnamed_row storable_def)
  then show "pg_list_all_databases disp sh p
      = (Inr (map (\<lambda>r. r\<lparr>db_name := default_cell_name sh (db_id r)\<rparr>) (list_all_databases s)), p)"
    by (simp add: pg_list_all_databases_def op_defs run_select assms(3))
qed

definition followed_cell :: inner where
  "followed_cell = snd (set_replica_node dir_example (TenantId 2) (DatabaseId 5) (Some (NodeId 3)))"

theorem pg_replicas_unreadable_witness:
  "map db_id (list_replicas_of followed_cell (NodeId 3)) = [DatabaseId 5]
  \<and> fst (pg_list_replicas_of (\<lambda>_. ''no column'') uuid_dec (NodeId 3) (pg_empty\<lparr>pg_databases := dir_rows followed_cell\<rparr>))
    = Inl (Internal ''postgres error: no column'')"
proof -
  have r: "map db_id (list_replicas_of followed_cell (NodeId 3)) = [DatabaseId 5]"
    by code_simp
  then have "list_replicas_of followed_cell (NodeId 3) \<noteq> []"
    by auto
  moreover have "dir_storable followed_cell"
    by code_simp
  ultimately show ?thesis
    using r pg_replicas_unreadable [of followed_cell "pg_empty\<lparr>pg_databases := dir_rows followed_cell\<rparr>" "NodeId 3" "\<lambda>_. ''no column''" uuid_dec]
    by (simp add: pg_empty_def internal_def)
qed

end
