(* ===== verification/Pg_Records.thy ===== *)
theory Pg_Records
  imports Pg_Server Control_Records
begin

text \<open>
  Tenants, API keys, data nodes, leases, configuration, idempotency keys and the waitlist of \<open>PostgresStore\<close>
  (\<open>metadata/src/postgres.rs\<close>).
\<close>

section \<open>Tenants and API keys\<close>

text \<open>\<open>INSERT\<close> without a conflict clause: a key in use is an error that names the constraint.\<close>

definition insert_new :: "bool \<Rightarrow> str \<Rightarrow> pg \<Rightarrow> sqlx_error + unit \<times> pg" where
  "insert_new taken key p = (if taken then Inl (Violation key) else Inr ((), p))"

definition pg_create_tenant :: "(sqlx_error \<Rightarrow> str) \<Rightarrow> nat \<Rightarrow> tenant_id \<Rightarrow> (pg, tenant_record) op" where
  "pg_create_tenant disp clock t =
    (let now = wrap_i64 (int clock) in
     try_then (run_sql disp (\<lambda>p. insert_new (\<exists>r \<in> set (pg_tenants p). pgt_id r = t) ''tenants_pkey''
         (p\<lparr>pg_tenants := pg_tenants p @ [\<lparr>pgt_id = t, pgt_created_at = now, pgt_status = ''active''\<rparr>]\<rparr>)))
       (\<lambda>_. done_with \<lparr>tr_id = t, tr_created_at = wrap_u64 now, tr_status = ''active''\<rparr>))"

definition pg_list_tenants :: "(sqlx_error \<Rightarrow> str) \<Rightarrow> (pg, tenant_record list) op" where
  "pg_list_tenants disp =
    try_then (run_sql disp (select (\<lambda>p. sort_key pgt_created_at (pg_tenants p))))
      (\<lambda>rows. done_with (map (\<lambda>r. \<lparr>tr_id = pgt_id r, tr_created_at = wrap_u64 (pgt_created_at r), tr_status = pgt_status r\<rparr>) rows))"

definition pg_create_api_key :: "(sqlx_error \<Rightarrow> str) \<Rightarrow> uuid \<Rightarrow> nat \<Rightarrow> tenant_id \<Rightarrow> str \<Rightarrow> str \<Rightarrow> (pg, api_key_record) op" where
  "pg_create_api_key disp kid clock t key_hash name =
    (let now = wrap_i64 (int clock) in
     try_then (run_sql disp (\<lambda>p.
         if \<exists>r \<in> set (pg_api_keys p). pk_id r = kid then Inl (Violation ''api_keys_pkey'')
         else insert_new (\<exists>r \<in> set (pg_api_keys p). pk_key_hash r = key_hash) ''api_keys_key_hash_key''
           (p\<lparr>pg_api_keys := pg_api_keys p @ [\<lparr>pk_id = kid, pk_tenant_id = t, pk_name = name, pk_key_hash = key_hash,
             pk_created_at = now, pk_revoked_at = None\<rparr>]\<rparr>)))
       (\<lambda>_. done_with \<lparr>ak_id = kid, ak_tenant_id = t, ak_name = name, ak_key_hash = key_hash, ak_created_at = wrap_u64 now, ak_revoked_at = None\<rparr>))"

definition key_record :: "pg_api_key \<Rightarrow> api_key_record" where
  "key_record r = \<lparr>ak_id = pk_id r, ak_tenant_id = pk_tenant_id r, ak_name = pk_name r, ak_key_hash = pk_key_hash r,
    ak_created_at = wrap_u64 (pk_created_at r), ak_revoked_at = map_option wrap_u64 (pk_revoked_at r)\<rparr>"

definition pg_lookup_api_key_by_hash :: "(sqlx_error \<Rightarrow> str) \<Rightarrow> str \<Rightarrow> (pg, api_key_record option) op" where
  "pg_lookup_api_key_by_hash disp h =
    try_then (run_sql disp (select (\<lambda>p. List.find (\<lambda>r. pk_key_hash r = h \<and> pk_revoked_at r = None) (pg_api_keys p))))
      (\<lambda>row. done_with (map_option key_record row))"

definition pg_list_api_keys :: "(sqlx_error \<Rightarrow> str) \<Rightarrow> tenant_id \<Rightarrow> (pg, api_key_record list) op" where
  "pg_list_api_keys disp t =
    try_then (run_sql disp (select (\<lambda>p. sort_key pk_created_at (filter (\<lambda>r. pk_tenant_id r = t) (pg_api_keys p)))))
      (\<lambda>rows. done_with (map key_record rows))"

definition pg_revoke_api_key :: "(sqlx_error \<Rightarrow> str) \<Rightarrow> nat \<Rightarrow> tenant_id \<Rightarrow> uuid \<Rightarrow> (pg, unit) op" where
  "pg_revoke_api_key disp clock t kid =
    try_then (run_sql disp (\<lambda>p.
        rbind (update_where (\<lambda>r. pk_id r = kid \<and> pk_tenant_id r = t \<and> pk_revoked_at r = None)
          (\<lambda>r. Inr (r\<lparr>pk_revoked_at := Some (wrap_i64 (int clock))\<rparr>)) (pg_api_keys p)) (\<lambda>(n, rs).
        Inr (n, p\<lparr>pg_api_keys := rs\<rparr>))))
      (\<lambda>updated. if updated = 0 then raise ApiKeyNotFound else done_with ())"

text \<open>Each round draws a tenant and a key identifier and reads the clock for both records.\<close>

definition pg_bootstrap_api_keys ::
  "(sqlx_error \<Rightarrow> str) \<Rightarrow> (str \<Rightarrow> nat list) \<Rightarrow> (str \<times> uuid \<times> uuid \<times> nat \<times> nat) list \<Rightarrow> (pg, unit) op" where
  "pg_bootstrap_api_keys disp sha256 keys =
    try_then (for_each (\<lambda>(key, tid, kid, now1, now2).
      try_then (pg_lookup_api_key_by_hash disp (hash sha256 key)) (\<lambda>known.
      if known \<noteq> None then done_with () else
        try_then (pg_create_tenant disp now1 (TenantId tid)) (\<lambda>_.
        try_then (pg_create_api_key disp kid now2 (TenantId tid) (hash sha256 key) ''bootstrap'') (\<lambda>_. done_with ())))) keys)
    (\<lambda>_. done_with ())"

section \<open>Data nodes\<close>

definition pg_upsert_data_node :: "(sqlx_error \<Rightarrow> str) \<Rightarrow> nat \<Rightarrow> node_id \<Rightarrow> str \<Rightarrow> nat \<Rightarrow> (pg, unit) op" where
  "pg_upsert_data_node disp clock i addr capacity =
    (let now = wrap_i64 (int clock); cap = wrap_i64 (int capacity) in
     run_sql disp (\<lambda>p.
       rbind (upsert (\<lambda>r. pn_id r = i)
         (\<lambda>r. Inr (r\<lparr>pn_address := addr, pn_capacity := cap, pn_last_heartbeat_at := now\<rparr>))
         \<lparr>pn_id = i, pn_address = addr, pn_capacity = cap, pn_active_conns = 0, pn_created_at = now, pn_last_heartbeat_at = now\<rparr>
         (pg_data_nodes p)) (\<lambda>rs. Inr ((), p\<lparr>pg_data_nodes := rs\<rparr>))))"

definition pg_heartbeat_data_node :: "(sqlx_error \<Rightarrow> str) \<Rightarrow> nat \<Rightarrow> node_id \<Rightarrow> nat \<Rightarrow> (pg, bool) op" where
  "pg_heartbeat_data_node disp clock i active =
    try_then (run_sql disp (\<lambda>p.
        rbind (update_where (\<lambda>r. pn_id r = i)
          (\<lambda>r. Inr (r\<lparr>pn_active_conns := wrap_i64 (int active), pn_last_heartbeat_at := wrap_i64 (int clock)\<rparr>)) (pg_data_nodes p)) (\<lambda>(n, rs).
        Inr (n, p\<lparr>pg_data_nodes := rs\<rparr>))))
      (\<lambda>n. done_with (n > 0))"

definition pg_unregister_data_node :: "(sqlx_error \<Rightarrow> str) \<Rightarrow> node_id \<Rightarrow> (pg, bool) op" where
  "pg_unregister_data_node disp i =
    try_then (run_sql disp (\<lambda>p. let (n, rs) = delete_where (\<lambda>r. pn_id r = i) (pg_data_nodes p) in Inr (n, p\<lparr>pg_data_nodes := rs\<rparr>)))
      (\<lambda>n. done_with (n > 0))"

definition node_record :: "pg_data_node \<Rightarrow> data_node_record" where
  "node_record r = \<lparr>dn_id = pn_id r, dn_addr = pn_address r, dn_capacity = wrap_u64 (pn_capacity r),
    dn_active_conns = wrap_u64 (pn_active_conns r), dn_last_heartbeat_at = wrap_u64 (pn_last_heartbeat_at r),
    dn_created_at = wrap_u64 (pn_created_at r)\<rparr>"

definition pg_list_data_nodes :: "(sqlx_error \<Rightarrow> str) \<Rightarrow> (pg, data_node_record list) op" where
  "pg_list_data_nodes disp = try_then (run_sql disp (select pg_data_nodes)) (\<lambda>rows. done_with (map node_record rows))"

section \<open>Leases, configuration, idempotency keys, waitlist\<close>

text \<open>The upsert writes and returns a row when there is no lease, when it has expired or when it is the caller's own.\<close>

definition lease_statement :: "str \<Rightarrow> uuid \<Rightarrow> int \<Rightarrow> int \<Rightarrow> uuid option statement" where
  "lease_statement name owner expires now = (\<lambda>p.
    case map_of (pg_leader_leases p) name of
      Some (cur, expiry) \<Rightarrow>
        if expiry < now \<or> cur = owner
        then Inr (Some owner, p\<lparr>pg_leader_leases := AList.update name (owner, expires) (pg_leader_leases p)\<rparr>)
        else Inr (None, p)
    | None \<Rightarrow> Inr (Some owner, p\<lparr>pg_leader_leases := pg_leader_leases p @ [(name, owner, expires)]\<rparr>))"

definition pg_try_acquire_lease :: "(sqlx_error \<Rightarrow> str) \<Rightarrow> str \<Rightarrow> uuid \<Rightarrow> int \<Rightarrow> int \<Rightarrow> (pg, bool) op" where
  "pg_try_acquire_lease disp name owner now ttl_secs =
    try_then (run_sql disp (lease_statement name owner (wrap_i64 (now + ttl_secs)) now)) (\<lambda>row. done_with (row \<noteq> None))"

definition pg_get_config :: "(sqlx_error \<Rightarrow> str) \<Rightarrow> str \<Rightarrow> (pg, str option) op" where
  "pg_get_config disp k = run_sql disp (select (\<lambda>p. map_of (pg_config p) k))"

definition pg_set_config :: "(sqlx_error \<Rightarrow> str) \<Rightarrow> str \<Rightarrow> str \<Rightarrow> (pg, unit) op" where
  "pg_set_config disp k v = run_sql disp (\<lambda>p. Inr ((), p\<lparr>pg_config := AList.update k v (pg_config p)\<rparr>))"

definition pg_save_idempotency :: "(sqlx_error \<Rightarrow> str) \<Rightarrow> nat \<Rightarrow> str \<Rightarrow> tenant_id \<Rightarrow> str \<Rightarrow> (pg, str option) op" where
  "pg_save_idempotency disp clock key t payload =
    try_then (run_sql disp (\<lambda>p.
        if \<exists>r \<in> set (pg_idempotency_keys p). pi_idem_key r = key then Inr (None, p)
        else Inr (Some payload, p\<lparr>pg_idempotency_keys := pg_idempotency_keys p @
          [\<lparr>pi_idem_key = key, pi_tenant_id = t, pi_payload = payload, pi_created_at = wrap_i64 (int clock)\<rparr>]\<rparr>)))
    (\<lambda>inserted. if inserted \<noteq> None then done_with None else
      try_then (run_sql disp (select (\<lambda>p. List.find (\<lambda>r. pi_idem_key r = key \<and> pi_tenant_id r = t) (pg_idempotency_keys p))))
        (\<lambda>row. done_with (map_option pi_payload row)))"

definition pg_create_waitlist_entry :: "(sqlx_error \<Rightarrow> str) \<Rightarrow> str \<Rightarrow> int \<Rightarrow> (pg, unit) op" where
  "pg_create_waitlist_entry disp email now = run_sql disp (\<lambda>p.
    if \<exists>e \<in> set (pg_waitlist p). wl_email e = email then Inr ((), p)
    else Inr ((), p\<lparr>pg_waitlist := pg_waitlist p @ [\<lparr>wl_email = email, wl_created_at = now\<rparr>]\<rparr>))"

definition pg_list_waitlist :: "(sqlx_error \<Rightarrow> str) \<Rightarrow> int \<Rightarrow> (pg, waitlist_entry list) op" where
  "pg_list_waitlist disp limit =
    run_sql disp (select (\<lambda>p. take (nat (max 1 (min 1000 limit))) (sort_key wl_created_at (pg_waitlist p))))"

section \<open>Leases over an unreliable connection\<close>

text \<open>Attempts of the replicas on one lease, in the order the server sees them.\<close>

fun pg_attempts :: "(sqlx_error \<Rightarrow> str) \<Rightarrow> str \<Rightarrow> (uuid \<times> int \<times> int) list \<Rightarrow> pg \<Rightarrow> bool result list \<times> pg" where
  "pg_attempts disp name [] p = ([], p)"
| "pg_attempts disp name ((owner, now, ttl) # as) p =
    (let (b, p) = pg_try_acquire_lease disp name owner now ttl p; (bs, p) = pg_attempts disp name as p in (b # bs, p))"

lemma next_passage_leases: "next_passage p = (x, p') \<Longrightarrow> pg_leader_leases p' = pg_leader_leases p"
  by (auto simp: next_passage_def split: list.splits)

lemma lease_refused_step:
  assumes "map_of (pg_leader_leases p) name = Some (owner, expiry)" "owner' \<noteq> owner" "now \<le> expiry"
  shows "fst (pg_try_acquire_lease disp name owner' now ttl p) \<noteq> Inr True
    \<and> pg_leader_leases (snd (pg_try_acquire_lease disp name owner' now ttl p)) = pg_leader_leases p"
proof (cases "next_passage p")
  case (Pair x q)
  have "lease_statement name owner' e now q = Inr (None, q)" for e
    using assms next_passage_leases [OF Pair] by (simp add: lease_statement_def)
  then show ?thesis
    using Pair next_passage_leases [OF Pair]
    by (cases x) (simp_all add: pg_try_acquire_lease_def op_defs run_sql_def run_with_def)
qed

lemma leases_refused:
  assumes "map_of (pg_leader_leases p) name = Some (owner, expiry)" "\<forall>(o', now, ttl) \<in> set as. o' \<noteq> owner \<and> now \<le> expiry"
  shows "Inr True \<notin> set (fst (pg_attempts disp name as p)) \<and> pg_leader_leases (snd (pg_attempts disp name as p)) = pg_leader_leases p"
  using assms
proof (induction as arbitrary: p)
  case (Cons a as)
  obtain o' now ttl where a: "a = (o', now, ttl)"
    by (metis prod.collapse)
  obtain b q where b: "pg_try_acquire_lease disp name o' now ttl p = (b, q)"
    by fastforce
  have "b \<noteq> Inr True" "pg_leader_leases q = pg_leader_leases p"
    using lease_refused_step [OF Cons.prems(1), of o' now disp ttl] Cons.prems(2) b by (simp_all add: a)
  then show ?case
    using Cons.IH [of q] Cons.prems by (auto simp: a b split: prod.splits)
qed simp

text \<open>
  C17: Leader leases in PostgreSQL are exclusive over an unreliable connection.  Once a replica has been told that it
  holds a lease, no sequence of attempts by other replicas whose clocks have not passed the expiry is told
  the same or moves the lease, whichever statements are lost on the way and whichever answers are cut off.
\<close>

theorem pg_lease_exclusive:
  assumes "pg_try_acquire_lease disp name owner now ttl p = (Inr True, p')" "in_i64 (now + ttl)"
    "\<forall>(o', now', ttl') \<in> set as. o' \<noteq> owner \<and> now' \<le> now + ttl"
  shows "Inr True \<notin> set (fst (pg_attempts disp name as p'))
    \<and> map_of (pg_leader_leases (snd (pg_attempts disp name as p'))) name = Some (owner, now + ttl)"
proof -
  obtain x q where x: "next_passage p = (x, q)"
    by fastforce
  have "map_of (pg_leader_leases p') name = Some (owner, now + ttl)"
    using assms(1,2) x
    by (cases x) (auto simp: pg_try_acquire_lease_def op_defs run_sql_def run_with_def lease_statement_def update_conv' wrap_i64_id
        map_add_Some_iff split: option.splits if_splits)
  then show ?thesis
    using leases_refused [OF _ assms(3)] by metis
qed

theorem pg_lease_exclusive_witness:
  "Inr True \<notin> set (fst (pg_attempts (\<lambda>_. []) ''sampler'' [(2, 120, 60), (3, 160, 60)]
      (snd (pg_try_acquire_lease (\<lambda>_. []) ''sampler'' 1 100 60 (pg_empty\<lparr>pg_net := [Served, Cut ''reset'', Lost ''refused'']\<rparr>)))))"
proof -
  let ?p = "pg_empty\<lparr>pg_net := [Served, Cut ''reset'', Lost ''refused'']\<rparr>"
  have "fst (pg_try_acquire_lease (\<lambda>_. []) ''sampler'' 1 100 60 ?p) = Inr True"
    by (simp add: pg_try_acquire_lease_def op_defs run_sql_def run_with_def next_passage_def lease_statement_def pg_empty_def)
  then have "pg_try_acquire_lease (\<lambda>_. []) ''sampler'' 1 100 60 ?p
      = (Inr True, snd (pg_try_acquire_lease (\<lambda>_. []) ''sampler'' 1 100 60 ?p))"
    by (metis prod.collapse)
  from conjunct1 [OF pg_lease_exclusive [OF this, of "[(2, 120, 60), (3, 160, 60)]"]] show ?thesis
    by (simp add: i64_defs)
qed

section \<open>Idempotency keys\<close>

lemma pg_save_foreign:
  assumes "pg_net p = []" "r \<in> set (pg_idempotency_keys p)" "pi_idem_key r = key" "pi_tenant_id r \<noteq> t"
    and "distinct (map pi_idem_key (pg_idempotency_keys p))"
  shows "pg_save_idempotency disp clock key t payload p = (Inr None, p)"
proof -
  have "List.find (\<lambda>r. pi_idem_key r = key \<and> pi_tenant_id r = t) (pg_idempotency_keys p) = None"
    using assms(2-5) by (auto simp: find_None_iff distinct_map dest: inj_onD)
  then show ?thesis
    using assms(1-3) by (auto simp: pg_save_idempotency_def op_defs run_served select_def)
qed

end
