(* ===== verification/Pg_Ledger.thy ===== *)
theory Pg_Ledger
  imports Pg_Server Ledger Usage_Pricing
begin

text \<open>
  Usage, pricing, credits and vouchers of \<open>PostgresStore\<close> (\<open>metadata/src/postgres.rs\<close>), and what concurrent bookings
  under one reference do to a balance.
\<close>

section \<open>Usage\<close>

definition same_bucket :: "usage_key \<Rightarrow> pg_usage_bucket \<Rightarrow> bool" where
  "same_bucket k r \<longleftrightarrow> pu_tenant_id r = uk_tenant_id k
    \<and> pu_cell_id r = (case uk_cell_id k of Some c \<Rightarrow> c | None \<Rightarrow> DatabaseId 0)
    \<and> pu_metric r = metric_as_str (uk_metric k) \<and> pu_bucket_start r = uk_bucket_start k"

definition usage_row :: "usage_key \<Rightarrow> nat \<Rightarrow> pg_usage_bucket" where
  "usage_row k v = \<lparr>pu_tenant_id = uk_tenant_id k, pu_cell_id = (case uk_cell_id k of Some c \<Rightarrow> c | None \<Rightarrow> DatabaseId 0),
    pu_metric = metric_as_str (uk_metric k), pu_bucket_start = uk_bucket_start k, pu_value = wrap_i64 (int v)\<rparr>"

definition pg_usage_add :: "(sqlx_error \<Rightarrow> str) \<Rightarrow> usage_key \<Rightarrow> nat \<Rightarrow> (pg, unit) op" where
  "pg_usage_add disp k delta = run_sql disp (\<lambda>p.
    rbind (upsert (same_bucket k) (\<lambda>r. rbind (big_add (pu_value r) (wrap_i64 (int delta))) (\<lambda>v. Inr (r\<lparr>pu_value := v\<rparr>)))
      (usage_row k delta) (pg_usage_buckets p)) (\<lambda>rs. Inr ((), p\<lparr>pg_usage_buckets := rs\<rparr>)))"

definition pg_usage_set :: "(sqlx_error \<Rightarrow> str) \<Rightarrow> usage_key \<Rightarrow> nat \<Rightarrow> (pg, unit) op" where
  "pg_usage_set disp k v = run_sql disp (\<lambda>p.
    rbind (upsert (same_bucket k) (\<lambda>r. Inr (r\<lparr>pu_value := wrap_i64 (int v)\<rparr>))
      (usage_row k v) (pg_usage_buckets p)) (\<lambda>rs. Inr ((), p\<lparr>pg_usage_buckets := rs\<rparr>)))"

text \<open>The four combinations of filters; the sentinel of a missing cell is returned as a cell.\<close>

definition bucket_selected :: "tenant_id \<Rightarrow> database_id option \<Rightarrow> usage_metric option \<Rightarrow> int \<Rightarrow> int \<Rightarrow> pg_usage_bucket \<Rightarrow> bool" where
  "bucket_selected t cell metric from_b to_b r \<longleftrightarrow>
    pu_tenant_id r = t \<and> from_b \<le> pu_bucket_start r \<and> pu_bucket_start r \<le> to_b
    \<and> (case (cell, metric) of
         (Some c, Some m) \<Rightarrow> pu_cell_id r = c \<and> pu_metric r = metric_as_str m
       | (Some c, None) \<Rightarrow> pu_cell_id r = c
       | (None, Some m) \<Rightarrow> pu_metric r = metric_as_str m
       | (None, None) \<Rightarrow> True)"

definition row_to_bucket :: "pg_usage_bucket \<Rightarrow> usage_bucket result" where
  "row_to_bucket r = rbind (ok_or (Internal ''unknown usage metric'') (metric_parse (pu_metric r))) (\<lambda>m.
    Inr \<lparr>ub_tenant_id = pu_tenant_id r, ub_cell_id = Some (pu_cell_id r), ub_metric = m, ub_bucket_start = pu_bucket_start r,
      ub_value = wrap_u64 (pu_value r)\<rparr>)"

definition pg_query_usage ::
  "(sqlx_error \<Rightarrow> str) \<Rightarrow> tenant_id \<Rightarrow> database_id option \<Rightarrow> usage_metric option \<Rightarrow> int \<Rightarrow> int \<Rightarrow> (pg, usage_bucket list) op" where
  "pg_query_usage disp t cell metric from_b to_b =
    try_then (run_sql disp (select (\<lambda>p. filter (bucket_selected t cell metric from_b to_b) (pg_usage_buckets p))))
      (\<lambda>rows. give (collect_results row_to_bucket rows))"

section \<open>Pricing\<close>

definition next_version :: "pg \<Rightarrow> sqlx_error + int" where
  "next_version p = big_add (case map pp_version (pg_pricing_versions p) of [] \<Rightarrow> 0 | v # vs \<Rightarrow> fold max vs v) 1"

definition insert_rule :: "int \<Rightarrow> pricing_rule \<Rightarrow> unit statement" where
  "insert_rule version r = (\<lambda>p.
    if \<exists>x \<in> set (pg_pricing_rules p). pgr_pricing_version x = version \<and> pgr_metric x = metric_as_str (pr_metric r)
    then Inl (Violation ''pricing_rules_pkey'')
    else Inr ((), p\<lparr>pg_pricing_rules := pg_pricing_rules p @ [\<lparr>pgr_pricing_version = version, pgr_metric = metric_as_str (pr_metric r),
      pgr_unit_size = pr_unit_size r, pgr_price_units = pr_price_units r\<rparr>]\<rparr>))"

definition pg_create_pricing_version :: "(sqlx_error \<Rightarrow> str) \<Rightarrow> nat \<Rightarrow> pricing_rule list \<Rightarrow> (pg, pricing_version) op" where
  "pg_create_pricing_version disp clock rules =
    (let now = wrap_i64 (int clock) in
     committed disp
       (try_then (run_sql disp (\<lambda>p. rbind (next_version p) (\<lambda>v. Inr (v, p)))) (\<lambda>version.
        try_then (run_sql disp (\<lambda>p. Inr ((), p\<lparr>pg_pricing_versions :=
            map (\<lambda>v. if pp_status v = ''active'' then v\<lparr>pp_status := ''inactive''\<rparr> else v) (pg_pricing_versions p)\<rparr>))) (\<lambda>_.
        try_then (run_sql disp (\<lambda>p.
            if \<exists>v \<in> set (pg_pricing_versions p). pp_version v = version then Inl (Violation ''pricing_versions_pkey'')
            else Inr ((), p\<lparr>pg_pricing_versions := pg_pricing_versions p @
              [\<lparr>pp_version = version, pp_status = ''active'', pp_effective_at = now, pp_created_at = now\<rparr>]\<rparr>))) (\<lambda>_.
        try_then (for_each (\<lambda>r. run_sql disp (insert_rule version r)) rules) (\<lambda>_.
        done_with \<lparr>pv_version = version, pv_status = PricingActive, pv_effective_at = now, pv_created_at = now\<rparr>))))))"

definition row_to_rule :: "pg_pricing_rule \<Rightarrow> pricing_rule result" where
  "row_to_rule r = rbind (ok_or (Internal ''unknown metric'') (metric_parse (pgr_metric r))) (\<lambda>m.
    Inr \<lparr>pr_pricing_version = pgr_pricing_version r, pr_metric = m, pr_unit_size = pgr_unit_size r, pr_price_units = pgr_price_units r\<rparr>)"

definition pg_get_active_pricing :: "(sqlx_error \<Rightarrow> str) \<Rightarrow> (pg, pricing_version \<times> pricing_rule list) op" where
  "pg_get_active_pricing disp =
    try_then (run_sql disp (select (\<lambda>p. List.find (\<lambda>v. pp_status v = ''active'') (pg_pricing_versions p)))) (\<lambda>row. case row of
      None \<Rightarrow> done_with (\<lparr>pv_version = 0, pv_status = PricingActive, pv_effective_at = 0, pv_created_at = 0\<rparr>, [])
    | Some v \<Rightarrow>
        try_then (run_sql disp (select (\<lambda>p. filter (\<lambda>r. pgr_pricing_version r = pp_version v) (pg_pricing_rules p)))) (\<lambda>rows.
        try_then (give (collect_results row_to_rule rows)) (\<lambda>rules.
        done_with (\<lparr>pv_version = pp_version v, pv_status = PricingActive, pv_effective_at = pp_effective_at v, pv_created_at = pp_created_at v\<rparr>, rules))))"

definition pg_list_pricing_versions :: "(sqlx_error \<Rightarrow> str) \<Rightarrow> (pg, pricing_version list) op" where
  "pg_list_pricing_versions disp =
    try_then (run_sql disp (select (\<lambda>p. sort_key pp_version (pg_pricing_versions p))))
      (\<lambda>rows. done_with (map (\<lambda>v. \<lparr>pv_version = pp_version v,
        pv_status = (if pp_status v = ''active'' then PricingActive else PricingInactive),
        pv_effective_at = pp_effective_at v, pv_created_at = pp_created_at v\<rparr>) rows))"

section \<open>Credits\<close>

definition pg_get_credit_account :: "(sqlx_error \<Rightarrow> str) \<Rightarrow> nat \<Rightarrow> tenant_id \<Rightarrow> (pg, credit_account) op" where
  "pg_get_credit_account disp clock t =
    try_then (run_sql disp (select (\<lambda>p. List.find (\<lambda>a. ca_tenant_id a = t) (pg_credit_accounts p)))) (\<lambda>row. case row of
      Some a \<Rightarrow> done_with a
    | None \<Rightarrow>
        try_then (run_sql disp (\<lambda>p.
          if \<exists>a \<in> set (pg_credit_accounts p). ca_tenant_id a = t then Inl (Violation ''credit_accounts_pkey'')
          else Inr ((), p\<lparr>pg_credit_accounts := pg_credit_accounts p @ [new_account t clock]\<rparr>)))
        (\<lambda>_. done_with (new_account t clock)))"

definition row_to_txn :: "pg_transaction \<Rightarrow> credit_transaction result" where
  "row_to_txn r = rbind (ok_or (Internal ''bad txn type'') (txn_type_parse (px_txn_type r))) (\<lambda>ty.
    Inr \<lparr>ct_id = px_id r, ct_tenant_id = px_tenant_id r, ct_txn_type = ty, ct_amount_units = px_amount_units r,
      ct_pricing_version = px_pricing_version r, ct_reference_id = px_reference_id r, ct_description = px_description r,
      ct_created_at = px_created_at r, ct_balance_after = px_balance_after r\<rparr>)"

definition pg_list_credit_transactions ::
  "(sqlx_error \<Rightarrow> str) \<Rightarrow> tenant_id \<Rightarrow> int \<Rightarrow> uuid option \<Rightarrow> (pg, credit_transaction list) op" where
  "pg_list_credit_transactions disp t limit before =
    try_then (run_sql disp (select (\<lambda>p. take (clamp_limit limit)
        (sort_key (\<lambda>x. (- px_created_at x, - uint (px_id x)))
          (filter (\<lambda>x. px_tenant_id x = t \<and> (case before of Some b \<Rightarrow> px_id x < b | None \<Rightarrow> True)) (pg_credit_transactions p))))))
      (\<lambda>rows. give (collect_results row_to_txn rows))"

definition pg_find_transaction_by_reference :: "(sqlx_error \<Rightarrow> str) \<Rightarrow> str \<Rightarrow> (pg, credit_transaction option) op" where
  "pg_find_transaction_by_reference disp ref =
    try_then (run_sql disp (select (\<lambda>p. List.find (\<lambda>x. px_reference_id x = Some ref) (pg_credit_transactions p)))) (\<lambda>row. case row of
      Some r \<Rightarrow> try_then (give (row_to_txn r)) (\<lambda>x. done_with (Some x))
    | None \<Rightarrow> done_with None)"

definition txn_row :: "credit_transaction \<Rightarrow> pg_transaction" where
  "txn_row x = \<lparr>px_id = ct_id x, px_tenant_id = ct_tenant_id x, px_txn_type = txn_type_as_str (ct_txn_type x), px_amount_units = ct_amount_units x,
    px_pricing_version = ct_pricing_version x, px_reference_id = ct_reference_id x, px_description = ct_description x,
    px_created_at = ct_created_at x, px_balance_after = None\<rparr>"

text \<open>\<open>ON CONFLICT (reference_id) DO NOTHING RETURNING id\<close>: a missing reference conflicts with nothing, and a
  used identifier is not excused.\<close>

definition ref_taken :: "str option \<Rightarrow> pg \<Rightarrow> bool" where
  "ref_taken ref p \<longleftrightarrow> ref \<noteq> None \<and> (\<exists>x \<in> set (pg_credit_transactions p). px_reference_id x = ref)"

definition insert_txn_once :: "pg_transaction \<Rightarrow> uuid option statement" where
  "insert_txn_once r = (\<lambda>p.
    if ref_taken (px_reference_id r) p then Inr (None, p)
    else if \<exists>x \<in> set (pg_credit_transactions p). px_id x = px_id r then Inl (Violation ''credit_transactions_pkey'')
    else Inr (Some (px_id r), p\<lparr>pg_credit_transactions := pg_credit_transactions p @ [r]\<rparr>))"

text \<open>The upsert that moves a balance and returns it.\<close>

definition move_balance :: "tenant_id \<Rightarrow> int \<Rightarrow> int \<Rightarrow> int statement" where
  "move_balance t amount now = (\<lambda>p.
    rbind (upsert (\<lambda>a. ca_tenant_id a = t)
      (\<lambda>a. rbind (big_add (ca_balance_units a) amount) (\<lambda>b. Inr (a\<lparr>ca_balance_units := b, ca_updated_at := now\<rparr>)))
      \<lparr>ca_tenant_id = t, ca_balance_units = amount, ca_reserved_units = 0, ca_updated_at = now\<rparr> (pg_credit_accounts p)) (\<lambda>accounts.
    Inr (case List.find (\<lambda>a. ca_tenant_id a = t) accounts of Some a \<Rightarrow> ca_balance_units a | None \<Rightarrow> 0, p\<lparr>pg_credit_accounts := accounts\<rparr>)))"

text \<open>The transaction of \<open>append_credit_transaction\<close>: \<open>None\<close> when the reference was booked meanwhile.\<close>

definition book_once :: "(sqlx_error \<Rightarrow> str) \<Rightarrow> credit_transaction \<Rightarrow> (pg, int option) op" where
  "book_once disp x = transaction disp
    (try_then (run_sql disp (insert_txn_once (txn_row x))) (\<lambda>inserted.
     if inserted = None then done_with None
     else try_then (run_sql disp (move_balance (ct_tenant_id x) (ct_amount_units x) (ct_created_at x))) (\<lambda>b. done_with (Some b))))"

definition book_or_find :: "(sqlx_error \<Rightarrow> str) \<Rightarrow> credit_transaction \<Rightarrow> (pg, credit_transaction) op" where
  "book_or_find disp x = try_then (book_once disp x) (\<lambda>booked. case booked of
      Some balance \<Rightarrow> done_with (x\<lparr>ct_balance_after := Some balance\<rparr>)
    | None \<Rightarrow>
        try_then (pg_find_transaction_by_reference disp (case ct_reference_id x of Some ref \<Rightarrow> ref | None \<Rightarrow> [])) (\<lambda>found. case found of
          Some existing \<Rightarrow> done_with existing
        | None \<Rightarrow> raise (Internal ''credit transaction conflict but not found'')))"

definition pg_append_credit_transaction :: "(sqlx_error \<Rightarrow> str) \<Rightarrow> credit_transaction \<Rightarrow> (pg, credit_transaction) op" where
  "pg_append_credit_transaction disp x =
    try_then (case ct_reference_id x of Some ref \<Rightarrow> pg_find_transaction_by_reference disp ref | None \<Rightarrow> done_with None) (\<lambda>existing. case existing of
      Some e \<Rightarrow> done_with e
    | None \<Rightarrow> book_or_find disp x)"

section \<open>Vouchers\<close>

text \<open>Each round draws a code (\<open>idx\<close>) and an identifier; every insertion commits by itself.\<close>

definition pg_create_vouchers ::
  "(sqlx_error \<Rightarrow> str) \<Rightarrow> (str \<Rightarrow> nat list) \<Rightarrow> nat \<Rightarrow> int \<Rightarrow> str option \<Rightarrow> int option \<Rightarrow> ((nat \<Rightarrow> nat) \<times> uuid) list
    \<Rightarrow> (pg, (str \<times> credit_voucher) list) op" where
  "pg_create_vouchers disp sha256 clock amount campaign expires draws =
    (let now = wrap_i64 (int clock) in
     for_each (\<lambda>(idx, vid).
       let code = generate_voucher_code idx; h = hash_voucher_code sha256 code in
       try_then (run_sql disp (\<lambda>p.
         if \<exists>v \<in> set (pg_credit_vouchers p). pgv_id v = vid then Inl (Violation ''credit_vouchers_pkey'')
         else if \<exists>v \<in> set (pg_credit_vouchers p). pgv_code_hash v = h then Inl (Violation ''credit_vouchers_code_hash_key'')
         else Inr ((), p\<lparr>pg_credit_vouchers := pg_credit_vouchers p @ [\<lparr>pgv_id = vid, pgv_code_hash = h, pgv_amount_units = amount,
           pgv_status = ''active'', pgv_campaign = campaign, pgv_created_at = now, pgv_expires_at = expires,
           pgv_redeemed_by = None, pgv_redeemed_at = None\<rparr>]\<rparr>)))
       (\<lambda>_. done_with (code, \<lparr>cv_id = vid, cv_code_hash = h, cv_amount_units = amount, cv_status = VoucherActive, cv_campaign = campaign,
         cv_created_at = now, cv_expires_at = expires, cv_redeemed_by = None, cv_redeemed_at = None\<rparr>))) draws)"

definition voucher_open :: "str \<Rightarrow> int \<Rightarrow> pg_voucher \<Rightarrow> bool" where
  "voucher_open h now v \<longleftrightarrow> pgv_code_hash v = h \<and> pgv_status v = ''active''
    \<and> (case pgv_expires_at v of None \<Rightarrow> True | Some e \<Rightarrow> e > now)"

text \<open>\<open>UPDATE ... RETURNING id, amount_units\<close>.\<close>

definition use_voucher :: "str \<Rightarrow> tenant_id \<Rightarrow> int \<Rightarrow> int option statement" where
  "use_voucher h t now = (\<lambda>p.
    rbind (update_where (voucher_open h now)
      (\<lambda>v. Inr (v\<lparr>pgv_status := ''used'', pgv_redeemed_by := Some t, pgv_redeemed_at := Some now\<rparr>)) (pg_credit_vouchers p)) (\<lambda>(n, vs).
    Inr (map_option pgv_amount_units (List.find (voucher_open h now) (pg_credit_vouchers p)), p\<lparr>pg_credit_vouchers := vs\<rparr>)))"

definition insert_txn :: "pg_transaction \<Rightarrow> unit statement" where
  "insert_txn r = (\<lambda>p.
    if \<exists>x \<in> set (pg_credit_transactions p). px_id x = px_id r then Inl (Violation ''credit_transactions_pkey'')
    else if ref_taken (px_reference_id r) p then Inl (Violation ''credit_transactions_reference_id_key'')
    else Inr ((), p\<lparr>pg_credit_transactions := pg_credit_transactions p @ [r]\<rparr>))"

definition voucher_row :: "uuid \<Rightarrow> tenant_id \<Rightarrow> int \<Rightarrow> str \<Rightarrow> int \<Rightarrow> pg_transaction" where
  "voucher_row tid t amount h now = \<lparr>px_id = tid, px_tenant_id = t, px_txn_type = ''voucher'', px_amount_units = amount, px_pricing_version = None,
    px_reference_id = Some (''voucher:'' @ h), px_description = Some ''voucher redemption'', px_created_at = now, px_balance_after = None\<rparr>"

definition pg_redeem_voucher :: "(sqlx_error \<Rightarrow> str) \<Rightarrow> uuid \<Rightarrow> str \<Rightarrow> tenant_id \<Rightarrow> int \<Rightarrow> (pg, int) op" where
  "pg_redeem_voucher disp tid h t now =
    committed disp
      (try_then (run_sql disp (use_voucher h t now)) (\<lambda>row. case row of
          None \<Rightarrow> raise (InvalidRequest ''voucher invalid, expired or already used'')
        | Some amount \<Rightarrow>
            try_then (run_sql disp (insert_txn (voucher_row tid t amount h now))) (\<lambda>_.
            try_then (run_sql disp (move_balance t amount now)) (\<lambda>_. done_with amount))))"

definition row_to_voucher :: "pg_voucher \<Rightarrow> credit_voucher result" where
  "row_to_voucher v = rbind (ok_or (Internal ''bad voucher status'') (voucher_status_parse (pgv_status v))) (\<lambda>st.
    Inr \<lparr>cv_id = pgv_id v, cv_code_hash = pgv_code_hash v, cv_amount_units = pgv_amount_units v, cv_status = st, cv_campaign = pgv_campaign v,
      cv_created_at = pgv_created_at v, cv_expires_at = pgv_expires_at v, cv_redeemed_by = pgv_redeemed_by v, cv_redeemed_at = pgv_redeemed_at v\<rparr>)"

definition pg_list_vouchers :: "(sqlx_error \<Rightarrow> str) \<Rightarrow> int \<Rightarrow> (pg, credit_voucher list) op" where
  "pg_list_vouchers disp limit =
    try_then (run_sql disp (select (\<lambda>p. take (clamp_limit limit) (sort_key (\<lambda>v. - pgv_created_at v) (pg_credit_vouchers p)))))
      (\<lambda>rows. give (collect_results row_to_voucher rows))"

section \<open>Balances and bookings\<close>

definition pg_balance :: "pg \<Rightarrow> tenant_id \<Rightarrow> int" where
  "pg_balance p t = (case List.find (\<lambda>a. ca_tenant_id a = t) (pg_credit_accounts p) of Some a \<Rightarrow> ca_balance_units a | None \<Rightarrow> 0)"

definition pg_booked :: "pg \<Rightarrow> tenant_id \<Rightarrow> int" where
  "pg_booked p t = sum_list (map px_amount_units (filter (\<lambda>x. px_tenant_id x = t) (pg_credit_transactions p)))"

text \<open>Every reference is booked once, and every balance is the sum of what is booked.\<close>

definition pg_ledger_ok :: "pg \<Rightarrow> bool" where
  "pg_ledger_ok p \<longleftrightarrow> distinct (List.map_filter px_reference_id (pg_credit_transactions p)) \<and> (\<forall>t. pg_balance p t = pg_booked p t)"

definition booked_as :: "pg \<Rightarrow> str \<Rightarrow> uuid \<Rightarrow> bool" where
  "booked_as p ref i \<longleftrightarrow> (\<exists>x \<in> set (pg_credit_transactions p). px_reference_id x = Some ref \<and> px_id x = i)"

lemma ledger_same_tables:
  assumes "same_tables p q"
  shows "pg_ledger_ok p = pg_ledger_ok q" "booked_as p = booked_as q"
  using same_tables_credits [OF assms] by (simp_all add: pg_ledger_ok_def pg_balance_def pg_booked_def booked_as_def fun_eq_iff)

lemma upsert_accounts:
  assumes "upsert (\<lambda>a. ca_tenant_id a = t) (\<lambda>a. rbind (big_add (ca_balance_units a) amount) (\<lambda>b. Inr (a\<lparr>ca_balance_units := b, ca_updated_at := now\<rparr>)))
    \<lparr>ca_tenant_id = t, ca_balance_units = amount, ca_reserved_units = 0, ca_updated_at = now\<rparr> as = Inr bs"
  shows "(case List.find (\<lambda>a. ca_tenant_id a = u) bs of Some a \<Rightarrow> ca_balance_units a | None \<Rightarrow> 0)
    = (case List.find (\<lambda>a. ca_tenant_id a = u) as of Some a \<Rightarrow> ca_balance_units a | None \<Rightarrow> 0) + (if u = t then amount else 0)"
  using assms
proof (induction as arbitrary: bs)
  case (Cons a as)
  show ?case
  proof (cases "ca_tenant_id a = t")
    case True
    then show ?thesis
      using Cons.prems by (auto simp: rbind_eq_Inr big_add_def split: if_splits)
  next
    case False
    then obtain cs where "upsert (\<lambda>a. ca_tenant_id a = t) (\<lambda>a. rbind (big_add (ca_balance_units a) amount) (\<lambda>b. Inr (a\<lparr>ca_balance_units := b, ca_updated_at := now\<rparr>)))
        \<lparr>ca_tenant_id = t, ca_balance_units = amount, ca_reserved_units = 0, ca_updated_at = now\<rparr> as = Inr cs" "bs = a # cs"
      using Cons.prems by (auto simp: rbind_eq_Inr)
    then show ?thesis
      using Cons.IH False by auto
  qed
qed auto

lemma move_balance_Inr:
  assumes "move_balance t amount now p = Inr (b, p')"
  shows "pg_balance p' u = pg_balance p u + (if u = t then amount else 0)" "pg_credit_transactions p' = pg_credit_transactions p"
  using assms upsert_accounts [of t amount now "pg_credit_accounts p" _ u]
  by (auto simp: move_balance_def pg_balance_def rbind_eq_Inr)

lemma insert_once_Inr:
  assumes "insert_txn_once r p = Inr (Some i, p')"
  shows "pg_credit_transactions p' = pg_credit_transactions p @ [r]" "pg_credit_accounts p' = pg_credit_accounts p"
    and "\<not> ref_taken (px_reference_id r) p"
  using assms by (auto simp: insert_txn_once_def split: if_splits)

lemma booked_once:
  assumes "pg_credit_transactions p' = pg_credit_transactions p @ [txn_row x]" "\<not> ref_taken (ct_reference_id x) p"
    and "\<And>u. pg_balance p' u = pg_balance p u + (if u = ct_tenant_id x then ct_amount_units x else 0)" "pg_ledger_ok p"
  shows "pg_ledger_ok p'"
  using assms
  by (cases "ct_reference_id x")
    (auto simp: pg_ledger_ok_def ref_taken_def txn_row_def pg_booked_def List.map_filter_def)

text \<open>The body of the booking on the way to \<open>commit\<close>.\<close>

lemma book_body:
  assumes "try_then (run_sql disp (insert_txn_once (txn_row x))) (\<lambda>inserted.
     if inserted = None then done_with None
     else try_then (run_sql disp (move_balance (ct_tenant_id x) (ct_amount_units x) (ct_created_at x))) (\<lambda>b. done_with (Some b))) p = (Inr (Some b), p')"
  shows "\<exists>q. same_tables q p \<and> pg_credit_transactions p' = pg_credit_transactions q @ [txn_row x] \<and> \<not> ref_taken (ct_reference_id x) q
    \<and> (\<forall>u. pg_balance p' u = pg_balance q u + (if u = ct_tenant_id x then ct_amount_units x else 0))"
proof -
  obtain i q where i: "run_sql disp (insert_txn_once (txn_row x)) p = (Inr (Some i), q)"
    and m: "run_sql disp (move_balance (ct_tenant_id x) (ct_amount_units x) (ct_created_at x)) q = (Inr b, p')"
    using assms by (fastforce simp: try_then_Inr_iff done_with_def split: if_splits)
  obtain p1 where p1: "same_tables p1 p" "insert_txn_once (txn_row x) p1 = Inr (Some i, q)"
    using run_sql_Inr [OF i] by blast
  obtain q1 where q1: "same_tables q1 q" "move_balance (ct_tenant_id x) (ct_amount_units x) (ct_created_at x) q1 = Inr (b, p')"
    using run_sql_Inr [OF m] by blast
  have "pg_balance q1 u = pg_balance p1 u" for u
    using insert_once_Inr(2) [OF p1(2)] same_tables_credits(1) [OF q1(1)] by (simp add: pg_balance_def)
  then show ?thesis
    using p1(1) insert_once_Inr(1,3) [OF p1(2)] move_balance_Inr [OF q1(2)] same_tables_credits(2) [OF q1(1)]
    by (intro exI [of _ p1]) (simp add: txn_row_def)
qed

lemma find_reference:
  assumes "pg_find_transaction_by_reference disp ref p = (r, p')"
  shows "same_tables p' p" and "r = Inr (Some y) \<Longrightarrow> booked_as p ref (ct_id y)"
proof -
  let ?q = "run_sql disp (select (\<lambda>p. List.find (\<lambda>x. px_reference_id x = Some ref) (pg_credit_transactions p)))"
  obtain a q where q: "?q p = (a, q)"
    by fastforce
  have "p' = q"
    using assms q by (auto simp: pg_find_transaction_by_reference_def op_defs split: sum.splits option.splits prod.splits)
  then show "same_tables p' p"
    using run_select_tables [of disp _ p] q by (metis snd_conv)
  show "booked_as p ref (ct_id y)" if r: "r = Inr (Some y)"
  proof -
    obtain z where z: "a = Inr (Some z)" "row_to_txn z = Inr y"
      using assms q r by (auto simp: pg_find_transaction_by_reference_def op_defs split: sum.splits option.splits prod.splits)
    then obtain p1 where "same_tables p1 p" "List.find (\<lambda>x. px_reference_id x = Some ref) (pg_credit_transactions p1) = Some z"
      using run_sql_Inr [of disp _ p "Some z" q] q by (fastforce simp: select_def)
    then have "z \<in> set (pg_credit_transactions p)" "px_reference_id z = Some ref"
      using same_tables_credits(2) by (force simp: find_Some_iff)+
    then show ?thesis
      using z(2) by (auto simp: booked_as_def row_to_txn_def rbind_eq_Inr)
  qed
qed

lemma book_once_keeps:
  assumes "book_once disp x p = (r, p')" "pg_ledger_ok p"
  shows "pg_ledger_ok p'" and "booked_as p ref i \<Longrightarrow> booked_as p' ref i"
    and "r = Inr (Some b) \<Longrightarrow> ct_reference_id x = Some ref \<Longrightarrow> booked_as p' ref (ct_id x)"
proof -
  have c: "(same_tables p' p \<and> (\<forall>a. r \<noteq> Inr (Some a))) \<or> (\<exists>q. same_tables q p \<and> pg_credit_transactions p' = pg_credit_transactions q @ [txn_row x]
      \<and> \<not> ref_taken (ct_reference_id x) q
      \<and> (\<forall>u. pg_balance p' u = pg_balance q u + (if u = ct_tenant_id x then ct_amount_units x else 0)))"
    using transaction_outcome [OF assms(1) [unfolded book_once_def]]
  proof (elim disjE exE conjE)
    fix p1 a p2
    assume s: "same_tables p1 p" "same_tables p' p2"
      and b: "try_then (run_sql disp (insert_txn_once (txn_row x))) (\<lambda>inserted. if inserted = None then done_with None
        else try_then (run_sql disp (move_balance (ct_tenant_id x) (ct_amount_units x) (ct_created_at x))) (\<lambda>b. done_with (Some b))) p1 = (Inr (Some a), p2)"
    from book_body [OF b] obtain q where "same_tables q p1" "pg_credit_transactions p2 = pg_credit_transactions q @ [txn_row x]"
        "\<not> ref_taken (ct_reference_id x) q" "\<forall>u. pg_balance p2 u = pg_balance q u + (if u = ct_tenant_id x then ct_amount_units x else 0)"
      by blast
    then show ?thesis
      using same_tables_trans [of q p1 p] s same_tables_credits [OF s(2)]
      by (intro disjI2 exI [of _ q]) (simp add: pg_balance_def)
  qed simp
  then consider (kept) "same_tables p' p" "\<forall>a. r \<noteq> Inr (Some a)"
    | (made) q where "same_tables q p" "pg_credit_transactions p' = pg_credit_transactions q @ [txn_row x]" "\<not> ref_taken (ct_reference_id x) q"
        "\<forall>u. pg_balance p' u = pg_balance q u + (if u = ct_tenant_id x then ct_amount_units x else 0)"
    by blast
  then have "pg_ledger_ok p' \<and> (booked_as p ref i \<longrightarrow> booked_as p' ref i)
      \<and> (r = Inr (Some b) \<and> ct_reference_id x = Some ref \<longrightarrow> booked_as p' ref (ct_id x))"
  proof cases
    case kept
    then show ?thesis
      using ledger_same_tables [OF kept(1)] assms(2) by simp
  next
    case (made q)
    have "pg_ledger_ok p'"
      using booked_once [OF made(2,3)] made(4) ledger_same_tables(1) [OF made(1)] assms(2) by simp
    then show ?thesis
      using made(2) ledger_same_tables(2) [OF made(1)] by (auto simp: booked_as_def txn_row_def fun_eq_iff)
  qed
  then show "pg_ledger_ok p'" "booked_as p ref i \<Longrightarrow> booked_as p' ref i"
    "r = Inr (Some b) \<Longrightarrow> ct_reference_id x = Some ref \<Longrightarrow> booked_as p' ref (ct_id x)"
    by blast+
qed

section \<open>Concurrent bookings\<close>

text \<open>
  Callers of \<open>append_credit_transaction\<close> that run at the same time: each looks its reference up, then books in one
  database transaction (which the unique index makes wait for a rival with the same reference), and looks up again when it lost.
\<close>

datatype caller =
    Waiting credit_transaction
  | Cleared credit_transaction
  | Beaten credit_transaction
  | Answered credit_transaction "credit_transaction result"

definition reference :: "credit_transaction \<Rightarrow> str" where
  "reference x = (case ct_reference_id x of Some ref \<Rightarrow> ref | None \<Rightarrow> [])"

fun after_check :: "credit_transaction \<Rightarrow> credit_transaction option result \<Rightarrow> caller" where
  "after_check x (Inl e) = Answered x (Inl e)"
| "after_check x (Inr None) = Cleared x"
| "after_check x (Inr (Some y)) = Answered x (Inr y)"

fun after_booking :: "credit_transaction \<Rightarrow> int option result \<Rightarrow> caller" where
  "after_booking x (Inl e) = Answered x (Inl e)"
| "after_booking x (Inr None) = Beaten x"
| "after_booking x (Inr (Some b)) = Answered x (Inr (x\<lparr>ct_balance_after := Some b\<rparr>))"

fun after_defeat :: "credit_transaction \<Rightarrow> credit_transaction option result \<Rightarrow> caller" where
  "after_defeat x (Inl e) = Answered x (Inl e)"
| "after_defeat x (Inr None) = Answered x (Inl (Internal ''credit transaction conflict but not found''))"
| "after_defeat x (Inr (Some y)) = Answered x (Inr y)"

fun advance :: "(sqlx_error \<Rightarrow> str) \<Rightarrow> caller \<Rightarrow> pg \<Rightarrow> caller \<times> pg" where
  "advance disp (Waiting x) p = map_prod (after_check x) id (pg_find_transaction_by_reference disp (reference x) p)"
| "advance disp (Cleared x) p = map_prod (after_booking x) id (book_once disp x p)"
| "advance disp (Beaten x) p = map_prod (after_defeat x) id (pg_find_transaction_by_reference disp (reference x) p)"
| "advance disp (Answered x r) p = (Answered x r, p)"

inductive booking_run :: "(sqlx_error \<Rightarrow> str) \<Rightarrow> credit_transaction list \<Rightarrow> pg \<Rightarrow> caller list \<Rightarrow> pg \<Rightarrow> bool" for disp xs p0 where
  started: "booking_run disp xs p0 (map Waiting xs) p0"
| moved: "booking_run disp xs p0 cs p \<Longrightarrow> i < length cs \<Longrightarrow> advance disp (cs ! i) p = (c, p') \<Longrightarrow> booking_run disp xs p0 (cs[i := c]) p'"

text \<open>Three moves of one caller make up the code's function.\<close>

lemma advance_append:
  assumes "ct_reference_id x = Some ref" "advance disp (Waiting x) p = (c1, p1)" "advance disp c1 p1 = (c2, p2)" "advance disp c2 p2 = (c3, p3)"
  shows "\<exists>r. c3 = Answered x r \<and> pg_append_credit_transaction disp x p = (r, p3)"
proof -
  have ref: "reference x = ref"
    by (simp add: reference_def assms(1))
  obtain a q where a: "pg_find_transaction_by_reference disp ref p = (a, q)"
    by fastforce
  show ?thesis
  proof (cases "a = Inr None")
    case False
    then obtain r where r: "after_check x a = Answered x r" "pg_append_credit_transaction disp x p = (r, q)"
      using a by (cases a; cases "projr a") (auto simp: pg_append_credit_transaction_def op_defs assms(1))
    then have "c1 = Answered x r" "p1 = q"
      using assms(2) a ref by simp_all
    then show ?thesis
      using assms(3,4) r(2) by auto
  next
    case True
    then have c1: "c1 = Cleared x" "p1 = q"
      using assms(2) a ref by auto
    obtain b q' where b: "book_once disp x q = (b, q')"
      by fastforce
    have app: "pg_append_credit_transaction disp x p = book_or_find disp x q"
      using a True by (simp add: pg_append_credit_transaction_def op_defs assms(1))
    show ?thesis
    proof (cases "b = Inr None")
      case False
      then obtain r where r: "after_booking x b = Answered x r" "book_or_find disp x q = (r, q')"
        using b by (cases b; cases "projr b") (auto simp: book_or_find_def op_defs)
      then have "c2 = Answered x r" "p2 = q'"
        using assms(3) c1 b by simp_all
      then show ?thesis
        using assms(4) app r(2) by auto
    next
      case True
      obtain d q'' where d: "pg_find_transaction_by_reference disp ref q' = (d, q'')"
        by fastforce
      obtain r where "after_defeat x d = Answered x r" "book_or_find disp x q = (r, q'')"
        using b d True by (cases d; cases "projr d") (auto simp: book_or_find_def op_defs assms(1))
      moreover from this have "c3 = Answered x r" "p3 = q''"
        using assms(3,4) c1 b d True ref by auto
      ultimately show ?thesis
        using app by simp
    qed
  qed
qed

text \<open>What holds in every state of a run.\<close>

definition answer_ok :: "pg \<Rightarrow> caller \<Rightarrow> bool" where
  "answer_ok p c \<longleftrightarrow> (case c of Answered x (Inr y) \<Rightarrow> booked_as p (reference x) (ct_id y) | _ \<Rightarrow> True)"

fun caller_txn :: "caller \<Rightarrow> credit_transaction" where
  "caller_txn (Waiting x) = x" | "caller_txn (Cleared x) = x" | "caller_txn (Beaten x) = x" | "caller_txn (Answered x r) = x"

lemma advance_keeps:
  assumes "advance disp c p = (c', p')" "pg_ledger_ok p" "answer_ok p c" "ct_reference_id (caller_txn c) \<noteq> None"
  shows "pg_ledger_ok p'" "answer_ok p' c'" "booked_as p ref i \<Longrightarrow> booked_as p' ref i" "caller_txn c' = caller_txn c"
proof -
  have look: "pg_ledger_ok q' \<and> (booked_as q ref i \<longrightarrow> booked_as q' ref i)
      \<and> (r = Inr (Some y) \<longrightarrow> booked_as q' (reference x) (ct_id y))"
    if "pg_find_transaction_by_reference disp (reference x) q = (r, q')" "pg_ledger_ok q" for x r q q' y
    using find_reference [OF that(1)] ledger_same_tables [of q' q] that(2) by auto
  have "pg_ledger_ok p' \<and> answer_ok p' c' \<and> (booked_as p ref i \<longrightarrow> booked_as p' ref i) \<and> caller_txn c' = caller_txn c"
  proof (cases c)
    case (Waiting x)
    then obtain r where r: "pg_find_transaction_by_reference disp (reference x) p = (r, p')" "c' = after_check x r"
      using assms(1) by (cases "pg_find_transaction_by_reference disp (reference x) p") auto
    then show ?thesis
      using look [OF r(1) assms(2)] Waiting by (cases r; cases "projr r") (auto simp: answer_ok_def)
  next
    case (Cleared x)
    then obtain r where r: "book_once disp x p = (r, p')" "c' = after_booking x r"
      using assms(1) by (cases "book_once disp x p") auto
    then show ?thesis
      using book_once_keeps [OF r(1) assms(2)] Cleared assms(4) by (cases r; cases "projr r") (auto simp: answer_ok_def reference_def)
  next
    case (Beaten x)
    then obtain r where r: "pg_find_transaction_by_reference disp (reference x) p = (r, p')" "c' = after_defeat x r"
      using assms(1) by (cases "pg_find_transaction_by_reference disp (reference x) p") auto
    then show ?thesis
      using look [OF r(1) assms(2)] Beaten by (cases r; cases "projr r") (auto simp: answer_ok_def)
  qed (use assms in auto)
  then show "pg_ledger_ok p'" "answer_ok p' c'" "booked_as p ref i \<Longrightarrow> booked_as p' ref i" "caller_txn c' = caller_txn c"
    by blast+
qed

lemma booking_run_ok:
  assumes "booking_run disp xs p0 cs p" "pg_ledger_ok p0" "\<forall>x \<in> set xs. ct_reference_id x \<noteq> None"
  shows "pg_ledger_ok p \<and> (\<forall>c \<in> set cs. answer_ok p c) \<and> map caller_txn cs = xs \<and> (\<forall>ref i. booked_as p0 ref i \<longrightarrow> booked_as p ref i)"
  using assms(1)
proof induction
  case started
  have "map (caller_txn \<circ> Waiting) xs = map id xs"
    by (rule map_cong) simp_all
  then show ?case
    using assms(2) by (auto simp: answer_ok_def)
next
  case (moved cs p i c p')
  have c: "cs ! i \<in> set cs" "caller_txn (cs ! i) \<in> set xs"
    using moved.IH moved.hyps(2) by (auto dest: arg_cong [where f = set])
  note keeps = advance_keeps [OF moved.hyps(3)]
  have "answer_ok p (cs ! i)" "ct_reference_id (caller_txn (cs ! i)) \<noteq> None" "pg_ledger_ok p"
    using moved.IH c assms(3) by auto
  note k = keeps [OF this(3,1,2)]
  have "answer_ok p' d" if "d \<in> set (cs[i := c])" for d
  proof -
    have "d = c \<or> d \<in> set cs"
      using that set_update_subset_insert by fastforce
    then show ?thesis
      using k(2,3) moved.IH by (auto simp: answer_ok_def split: caller.splits sum.splits)
  qed
  moreover have "map caller_txn (cs[i := c]) = xs"
    using moved.IH moved.hyps(2) k(4) by (metis list_update_id map_update nth_map)
  ultimately show ?case
    using k(1,3) moved.IH by blast
qed

lemma booked_unique:
  assumes "pg_ledger_ok p" "booked_as p ref i" "booked_as p ref j"
  shows "i = j"
proof -
  have "x = y" if "distinct (List.map_filter px_reference_id rs)" "x \<in> set rs" "y \<in> set rs" "px_reference_id x = Some ref" "px_reference_id y = Some ref"
    for x y rs
    using that
  proof (induction rs)
    case (Cons z rs)
    have "ref \<in> set (List.map_filter px_reference_id rs)" if "w \<in> set rs" "px_reference_id w = Some ref" for w
      using that by (force simp: List.map_filter_def)
    then show ?case
      using Cons by (auto simp: List.map_filter_simps split: option.splits)
  qed simp
  then show ?thesis
    using assms unfolding pg_ledger_ok_def booked_as_def by blast
qed

text \<open>
  C10: Concurrent bookings under the same references never book twice.  Let any number of callers append credit
  transactions with references at the same time, their lookups and database transactions interleaved in any order and any
  statement or answer lost on the way.  In every state they reach, no reference has two rows, the balance of every tenant is
  the sum of the rows booked for it, nothing booked before is gone, and the callers that got an answer for the same reference got the
  same transaction, which is the one booked.
\<close>

theorem pg_append_once:
  assumes "booking_run disp xs p0 cs p" "pg_ledger_ok p0" "\<forall>x \<in> set xs. ct_reference_id x \<noteq> None"
  shows "distinct (List.map_filter px_reference_id (pg_credit_transactions p)) \<and> pg_balance p t = pg_booked p t
    \<and> (booked_as p0 ref i \<longrightarrow> booked_as p ref i)
    \<and> (Answered x (Inr y) \<in> set cs \<and> ct_reference_id x = Some ref \<longrightarrow> booked_as p ref (ct_id y))
    \<and> (Answered x (Inr y) \<in> set cs \<and> Answered x' (Inr y') \<in> set cs \<and> ct_reference_id x = Some ref \<and> ct_reference_id x' = Some ref
       \<longrightarrow> ct_id y = ct_id y')"
proof -
  note run = booking_run_ok [OF assms]
  have ans: "booked_as p ref (ct_id y)" if "Answered x (Inr y) \<in> set cs" "ct_reference_id x = Some ref" for x y
    using run that by (force simp: answer_ok_def reference_def)
  have "ct_id y = ct_id y'" if "Answered x (Inr y) \<in> set cs \<and> Answered x' (Inr y') \<in> set cs \<and> ct_reference_id x = Some ref \<and> ct_reference_id x' = Some ref"
    using booked_unique [of p ref "ct_id y" "ct_id y'"] run ans that by blast
  then show ?thesis
    using run ans by (auto simp: pg_ledger_ok_def)
qed

definition rival_grants :: "credit_transaction list" where
  "rival_grants = [sample_txn 1 40 (Some ''grant-7''), sample_txn 2 40 (Some ''grant-7'')]"

text \<open>Both callers look first, then both book; the connection of the first is cut while it commits.\<close>

definition cut_commit :: pg where
  "cut_commit = pg_empty\<lparr>pg_net := [Served, Served, Served, Served, Served, Cut ''reset'']\<rparr>"

definition after_race :: "caller list \<times> pg" where
  "after_race = (let (a, p) = advance (\<lambda>_. []) (Waiting (rival_grants ! 0)) cut_commit;
      (b, p) = advance (\<lambda>_. []) (Waiting (rival_grants ! 1)) p;
      (a, p) = advance (\<lambda>_. []) a p;
      (b, p) = advance (\<lambda>_. []) b p;
      (b, p) = advance (\<lambda>_. []) b p
    in ([a, b], p))"

lemma moved_on:
  "booking_run disp xs p0 cs p \<Longrightarrow> i < length cs \<Longrightarrow>
    booking_run disp xs p0 (cs[i := fst (advance disp (cs ! i) p)]) (snd (advance disp (cs ! i) p))"
  by (rule moved) simp_all

lemma race_run: "booking_run (\<lambda>_. []) rival_grants cut_commit (fst after_race) (snd after_race)"
proof -
  let ?g = "rival_grants"
  have xs: "map Waiting ?g = [Waiting (?g ! 0), Waiting (?g ! 1)]"
    by (simp add: rival_grants_def)
  have "booking_run (\<lambda>_. []) ?g cut_commit [Waiting (?g ! 0), Waiting (?g ! 1)] cut_commit"
    using started [of "\<lambda>_. []" ?g cut_commit] by (simp only: xs)
  from moved_on [OF this, of 0]
  have 1: "booking_run (\<lambda>_. []) ?g cut_commit [fst (advance (\<lambda>_. []) (Waiting (?g ! 0)) cut_commit), Waiting (?g ! 1)]
      (snd (advance (\<lambda>_. []) (Waiting (?g ! 0)) cut_commit))"
    by (simp del: advance.simps)
  define c1 p1 where "c1 = fst (advance (\<lambda>_. []) (Waiting (?g ! 0)) cut_commit)" "p1 = snd (advance (\<lambda>_. []) (Waiting (?g ! 0)) cut_commit)"
  define d1 p2 where "d1 = fst (advance (\<lambda>_. []) (Waiting (?g ! 1)) p1)" "p2 = snd (advance (\<lambda>_. []) (Waiting (?g ! 1)) p1)"
  define c2 p3 where "c2 = fst (advance (\<lambda>_. []) c1 p2)" "p3 = snd (advance (\<lambda>_. []) c1 p2)"
  define d2 p4 where "d2 = fst (advance (\<lambda>_. []) d1 p3)" "p4 = snd (advance (\<lambda>_. []) d1 p3)"
  have "booking_run (\<lambda>_. []) ?g cut_commit [c1, d1] p2"
    using moved_on [OF 1, of 1] by (simp add: c1_p1_def d1_p2_def del: advance.simps)
  from moved_on [OF this, of 0] have "booking_run (\<lambda>_. []) ?g cut_commit [c2, d1] p3"
    by (simp add: c2_p3_def del: advance.simps)
  from moved_on [OF this, of 1] have "booking_run (\<lambda>_. []) ?g cut_commit [c2, d2] p4"
    by (simp add: d2_p4_def del: advance.simps)
  from moved_on [OF this, of 1] show ?thesis
    by (simp add: after_race_def case_prod_beta c1_p1_def d1_p2_def c2_p3_def d2_p4_def del: advance.simps)
qed

theorem pg_append_once_witness:
  "map (\<lambda>c. case c of Answered x (Inr y) \<Rightarrow> Some (ct_id y) | _ \<Rightarrow> None) (fst after_race) = [None, Some 1]
    \<and> pg_balance (snd after_race) (TenantId 2) = pg_booked (snd after_race) (TenantId 2)
    \<and> pg_booked (snd after_race) (TenantId 2) = 40"
proof -
  have "pg_ledger_ok cut_commit"
    by (simp add: pg_ledger_ok_def cut_commit_def pg_empty_def pg_balance_def pg_booked_def List.map_filter_simps)
  moreover have "\<forall>x \<in> set rival_grants. ct_reference_id x \<noteq> None"
    by (simp add: rival_grants_def sample_txn_def)
  ultimately have "pg_balance (snd after_race) (TenantId 2) = pg_booked (snd after_race) (TenantId 2)"
    using pg_append_once [OF race_run] by blast
  moreover have "map (\<lambda>c. case c of Answered x (Inr y) \<Rightarrow> Some (ct_id y) | _ \<Rightarrow> None) (fst after_race) = [None, Some 1]"
    "pg_booked (snd after_race) (TenantId 2) = 40"
    by code_simp+
  ultimately show ?thesis
    by simp
qed

end
